(* ===== verification/Prelude.thy ===== *)
theory Prelude
  imports Main "HOL-Library.AList" "HOL-Library.State_Monad" "HOL-Library.Word"
begin

text \<open>
  The shared base of the development: the model of Go's basic types, Go maps with the interface
  the components rely on, the state monad's helpers and the three judgements the component
  theories prove of their operations:

  \<^item> \<open>keeps f m\<close>: the operation \<open>m\<close> leaves the projection \<open>f\<close> of the state alone;
  \<^item> \<open>pres I m\<close>: \<open>m\<close> preserves the invariant \<open>I\<close>;
  \<^item> \<open>triple P m Q\<close>: started in a \<open>P\<close>-state, \<open>m\<close> ends with a result and a state related by \<open>Q\<close>.

  Each judgement has one rule per construct of the monad, collected so that the operations of
  the program, which are written in the monad the way the Go code is, are proved by
  applying the rules to their bodies.
\<close>

named_theorems keeps_intro \<open>structural rules and frame facts of the operations\<close>
named_theorems pres_intro \<open>preservation rules\<close>

section \<open>Go's basic types\<close>

type_synonym u32 = "32 word"
type_synonym u64 = "64 word"

text \<open>
  A \<open>[]byte\<close>: \<open>None\<close> is the nil slice, \<open>Some []\<close> the empty one. The code tells them apart when
  it tests a delta base against nil.
\<close>

type_synonym bytes = "8 word list"
type_synonym slice = "bytes option"

definition slice_len :: "slice \<Rightarrow> nat" where
  "slice_len s = (case s of None \<Rightarrow> 0 | Some b \<Rightarrow> length b)"

text \<open>Channel names, tokens, reasons and epochs are Go strings.\<close>

type_synonym channel = string

text \<open>A \<open>time.Duration\<close>, in nanoseconds.\<close>

type_synonym duration = int

definition millisecond :: duration where "millisecond = 1000000"
definition second :: duration where "second = 1000000000"

section \<open>Go maps\<close>

text \<open>
  A Go map is an association list with distinct keys. \<open>range\<close> visits the entries in list order:
  Go leaves the order open, and every statement about a state holds for every order of its list,
  so for every order Go may choose.
\<close>

type_synonym ('k, 'v) gomap = "('k \<times> 'v) list"

definition gm_get :: "('k, 'v) gomap \<Rightarrow> 'k \<Rightarrow> 'v option" where
  "gm_get m k = map_of m k"

definition gm_put :: "'k \<Rightarrow> 'v \<Rightarrow> ('k, 'v) gomap \<Rightarrow> ('k, 'v) gomap" where
  "gm_put k v m = AList.update k v m"

definition gm_del :: "'k \<Rightarrow> ('k, 'v) gomap \<Rightarrow> ('k, 'v) gomap" where
  "gm_del k m = AList.delete k m"

definition gm_pop :: "'k \<Rightarrow> ('k, 'v) gomap \<Rightarrow> 'v option \<times> ('k, 'v) gomap" where
  "gm_pop k m = (case gm_get m k of None \<Rightarrow> (None, m) | Some v \<Rightarrow> (Some v, gm_del k m))"

definition gm_keys :: "('k, 'v) gomap \<Rightarrow> 'k list" where
  "gm_keys m = map fst m"

definition gm_vals :: "('k, 'v) gomap \<Rightarrow> 'v list" where
  "gm_vals m = map snd m"

definition gm_ok :: "('k, 'v) gomap \<Rightarrow> bool" where
  "gm_ok m \<longleftrightarrow> distinct (map fst m)"

text \<open>What the code relies on when it uses a map.\<close>

locale dict =
  fixes get :: "'m \<Rightarrow> 'k \<Rightarrow> 'v option"
    and put :: "'k \<Rightarrow> 'v \<Rightarrow> 'm \<Rightarrow> 'm"
    and del :: "'k \<Rightarrow> 'm \<Rightarrow> 'm"
    and new :: "'m"
    and ok :: "'m \<Rightarrow> bool"
  assumes get_new: "get new k = None"
    and get_put: "get (put k v m) k' = (if k' = k then Some v else get m k')"
    and get_del: "get (del k m) k' = (if k' = k then None else get m k')"
    and ok_new: "ok new"
    and ok_put: "ok m \<Longrightarrow> ok (put k v m)"
    and ok_del: "ok m \<Longrightarrow> ok (del k m)"

text \<open>
  The registries of the client (pending requests, connect futures, subscribe futures) also pop:
  look a key up and remove it under one lock. What is popped once is not found again, so of all
  the goroutines racing for an entry exactly one gets it.
\<close>

locale popping_dict = dict +
  fixes pop :: "'b \<Rightarrow> 'a \<Rightarrow> 'c option \<times> 'a"
  assumes pop_get: "fst (pop k m) = get m k"
    and pop_del: "get (snd (pop k m)) k' = (if k' = k then None else get m k')"
    and pop_ok: "ok m \<Longrightarrow> ok (snd (pop k m))"
begin

lemma pop_once: "fst (pop k (snd (pop k m))) = None"
  by (simp add: pop_get pop_del)

lemma pop_other: "k' \<noteq> k \<Longrightarrow> fst (pop k' (snd (pop k m))) = fst (pop k' m)"
  by (simp add: pop_get pop_del)

lemma pop_put: "fst (pop k (put k v m)) = Some v"
  by (simp add: pop_get get_put)

text \<open>Two racing pops of the same key: whichever comes second finds nothing.\<close>

lemma pop_race:
  assumes "fst (pop k m) = Some v"
  shows "\<exists>m'. pop k m = (Some v, m') \<and> fst (pop k m') = None"
  using assms pop_once[of k m] by (cases "pop k m") auto

end

interpretation gm: popping_dict gm_get gm_put gm_del "[]" gm_ok gm_pop
proof
  show "gm_get (gm_put k v m) k' = (if k' = k then Some v else gm_get m k')"
    for k k' :: 'a and v :: 'b and m
    by (simp add: gm_get_def gm_put_def update_conv')
  show "gm_get (gm_del k m) k' = (if k' = k then None else gm_get m k')"
    for k k' :: 'a and m :: "('a, 'b) gomap"
    by (simp add: gm_get_def gm_del_def delete_conv')
  show "gm_ok (gm_put k v m)" if "gm_ok m" for k :: 'a and v :: 'b and m
    using that by (simp add: gm_ok_def gm_put_def distinct_update)
  show "gm_ok (gm_del k m)" if "gm_ok m" for k :: 'a and m :: "('a, 'b) gomap"
    using that by (simp add: gm_ok_def gm_del_def distinct_delete)
  show "fst (gm_pop k m) = gm_get m k" for k :: 'a and m :: "('a, 'b) gomap"
    by (simp add: gm_pop_def split: option.splits)
  show "gm_get (snd (gm_pop k m)) k' = (if k' = k then None else gm_get m k')"
    for k k' :: 'a and m :: "('a, 'b) gomap"
    by (auto simp: gm_pop_def gm_get_def gm_del_def delete_conv' split: option.splits)
  show "gm_ok (snd (gm_pop k m))" if "gm_ok m" for k :: 'a and m :: "('a, 'b) gomap"
    using that by (auto simp: gm_pop_def gm_ok_def gm_del_def distinct_delete split: option.splits)
qed (simp_all add: gm_get_def gm_ok_def)

lemmas gm_simps [simp] = gm.get_new gm.get_put gm.get_del gm.ok_new

lemma gm_get_mem: "gm_get m k = Some v \<Longrightarrow> (k, v) \<in> set m"
  by (simp add: gm_get_def map_of_SomeD)

lemma gm_mem_get: "gm_ok m \<Longrightarrow> (k, v) \<in> set m \<Longrightarrow> gm_get m k = Some v"
  by (simp add: gm_get_def gm_ok_def)

lemma gm_get_vals: "gm_get m k = Some v \<Longrightarrow> v \<in> set (gm_vals m)"
  by (force simp: gm_vals_def dest: gm_get_mem)

lemma gm_keys_get: "k \<in> set (gm_keys m) \<longleftrightarrow> gm_get m k \<noteq> None"
  by (simp add: gm_keys_def gm_get_def map_of_eq_None_iff)

lemma gm_put_mem: "(k', v') \<in> set (gm_put k v m) \<Longrightarrow> (k', v') = (k, v) \<or> (k', v') \<in> set m"
  by (induction m) (auto simp: gm_put_def split: if_splits)

lemma gm_del_mem: "(k', v') \<in> set (gm_del k m) \<longleftrightarrow> (k', v') \<in> set m \<and> k' \<noteq> k"
  by (auto simp: gm_del_def AList.delete_eq)

section \<open>The state monad\<close>

text \<open>
  An operation of the program is a value of type \<open>('w, 'a) state\<close>: it takes the state \<open>'w\<close> and
  returns a result and the new state.
\<close>

abbreviation ret :: "'a \<Rightarrow> ('w, 'a) state" where "ret \<equiv> State_Monad.return"
abbreviation gets :: "('w \<Rightarrow> 'a) \<Rightarrow> ('w, 'a) state" where "gets f \<equiv> State (\<lambda>w. (f w, w))"
abbreviation modify :: "('w \<Rightarrow> 'w) \<Rightarrow> ('w, unit) state" where "modify f \<equiv> State (\<lambda>w. ((), f w))"

abbreviation after :: "('w, 'a) state \<Rightarrow> 'w \<Rightarrow> 'w" where "after m w \<equiv> snd (run_state m w)"
abbreviation outcome :: "('w, 'a) state \<Rightarrow> 'w \<Rightarrow> 'a" where "outcome m w \<equiv> fst (run_state m w)"

definition when_do :: "bool \<Rightarrow> ('w, unit) state \<Rightarrow> ('w, unit) state" where
  "when_do b m = (if b then m else ret ())"

fun for_each :: "('x \<Rightarrow> ('w, unit) state) \<Rightarrow> 'x list \<Rightarrow> ('w, unit) state" where
  "for_each f [] = ret ()"
| "for_each f (x # xs) = do { f x; for_each f xs }"

lemma run_when_do [simp]: "run_state (when_do b m) w = (if b then run_state m w else ((), w))"
  by (simp add: when_do_def)

lemma after_bind: "after (State_Monad.bind m f) w = after (f (outcome m w)) (after m w)"
  by (simp add: split_beta)

lemma outcome_bind: "outcome (State_Monad.bind m f) w = outcome (f (outcome m w)) (after m w)"
  by (simp add: split_beta)

lemma unit_state_eq: "(m :: ('w, unit) state) = n \<longleftrightarrow> (\<forall>w. after m w = after n w)"
  by (metis (full_types) old.unit.exhaust prod_eqI state_ext)

subsection \<open>Frame facts\<close>

definition keeps :: "('w \<Rightarrow> 'b) \<Rightarrow> ('w, 'a) state \<Rightarrow> bool" where
  "keeps f m \<longleftrightarrow> (\<forall>w. f (after m w) = f w)"

lemma keepsD: "keeps f m \<Longrightarrow> f (after m w) = f w"
  by (simp add: keeps_def)

lemma keepsI: "(\<And>w. f (after m w) = f w) \<Longrightarrow> keeps f m"
  by (simp add: keeps_def)

lemma keeps_return [keeps_intro]: "keeps f (ret x)"
  by (simp add: keeps_def)

lemma keeps_gets [keeps_intro]: "keeps f (gets g)"
  by (simp add: keeps_def)

lemma keeps_modify [keeps_intro]: "(\<And>w. f (g w) = f w) \<Longrightarrow> keeps f (modify g)"
  by (simp add: keeps_def)

lemma keeps_bind [keeps_intro]:
  "keeps f m \<Longrightarrow> (\<And>x. keeps f (g x)) \<Longrightarrow> keeps f (State_Monad.bind m g)"
  by (simp add: keeps_def split_beta)

lemma keeps_if [keeps_intro]: "(b \<Longrightarrow> keeps f m) \<Longrightarrow> (\<not> b \<Longrightarrow> keeps f n) \<Longrightarrow> keeps f (if b then m else n)"
  by simp

lemma keeps_when [keeps_intro]: "(b \<Longrightarrow> keeps f m) \<Longrightarrow> keeps f (when_do b m)"
  by (simp add: keeps_def)

lemma keeps_for_each [keeps_intro]: "(\<And>x. keeps f (g x)) \<Longrightarrow> keeps f (for_each g xs)"
  by (induction xs) (auto intro: keeps_intro)

lemma keeps_option [keeps_intro]:
  "(x = None \<Longrightarrow> keeps f m) \<Longrightarrow> (\<And>y. x = Some y \<Longrightarrow> keeps f (n y))
    \<Longrightarrow> keeps f (case x of None \<Rightarrow> m | Some y \<Rightarrow> n y)"
  by (cases x) auto

lemma keeps_sum [keeps_intro]:
  "(\<And>y. x = Inl y \<Longrightarrow> keeps f (m y)) \<Longrightarrow> (\<And>y. x = Inr y \<Longrightarrow> keeps f (n y))
    \<Longrightarrow> keeps f (case x of Inl y \<Rightarrow> m y | Inr y \<Rightarrow> n y)"
  by (cases x) auto

lemma keeps_prod [keeps_intro]:
  "(\<And>a b. x = (a, b) \<Longrightarrow> keeps f (m a b)) \<Longrightarrow> keeps f (case x of (a, b) \<Rightarrow> m a b)"
  by (cases x) auto

lemma keeps_list [keeps_intro]:
  "(x = [] \<Longrightarrow> keeps f m) \<Longrightarrow> (\<And>y ys. x = y # ys \<Longrightarrow> keeps f (n y ys))
    \<Longrightarrow> keeps f (case x of [] \<Rightarrow> m | y # ys \<Rightarrow> n y ys)"
  by (cases x) auto

text \<open>A projection computed from another one is kept with it.\<close>

lemma keeps_via: "keeps g m \<Longrightarrow> (\<And>w. f w = h (g w)) \<Longrightarrow> keeps f m"
  by (simp add: keeps_def)

subsection \<open>Preservation\<close>

definition pres :: "('w \<Rightarrow> bool) \<Rightarrow> ('w, 'a) state \<Rightarrow> bool" where
  "pres I m \<longleftrightarrow> (\<forall>w. I w \<longrightarrow> I (after m w))"

lemma presD: "pres I m \<Longrightarrow> I w \<Longrightarrow> I (after m w)"
  by (simp add: pres_def)

lemma presI: "(\<And>w. I w \<Longrightarrow> I (after m w)) \<Longrightarrow> pres I m"
  by (simp add: pres_def)

lemma pres_keeps: "keeps f m \<Longrightarrow> (\<And>w. I w \<longleftrightarrow> J (f w)) \<Longrightarrow> pres I m"
  by (simp add: keeps_def pres_def)

lemma pres_return [pres_intro]: "pres I (ret x)"
  by (simp add: pres_def)

lemma pres_gets [pres_intro]: "pres I (gets g)"
  by (simp add: pres_def)

lemma pres_modify [pres_intro]: "(\<And>w. I w \<Longrightarrow> I (g w)) \<Longrightarrow> pres I (modify g)"
  by (simp add: pres_def)

lemma pres_bind [pres_intro]:
  "pres I m \<Longrightarrow> (\<And>x. pres I (g x)) \<Longrightarrow> pres I (State_Monad.bind m g)"
  by (simp add: pres_def split_beta)

lemma pres_if [pres_intro]: "(b \<Longrightarrow> pres I m) \<Longrightarrow> (\<not> b \<Longrightarrow> pres I n) \<Longrightarrow> pres I (if b then m else n)"
  by simp

lemma pres_when [pres_intro]: "(b \<Longrightarrow> pres I m) \<Longrightarrow> pres I (when_do b m)"
  by (simp add: pres_def)

lemma pres_for_each [pres_intro]: "(\<And>x. pres I (g x)) \<Longrightarrow> pres I (for_each g xs)"
  by (induction xs) (auto intro: pres_intro)

lemma pres_option [pres_intro]:
  "(x = None \<Longrightarrow> pres I m) \<Longrightarrow> (\<And>y. x = Some y \<Longrightarrow> pres I (n y))
    \<Longrightarrow> pres I (case x of None \<Rightarrow> m | Some y \<Rightarrow> n y)"
  by (cases x) auto

lemma pres_sum [pres_intro]:
  "(\<And>y. x = Inl y \<Longrightarrow> pres I (m y)) \<Longrightarrow> (\<And>y. x = Inr y \<Longrightarrow> pres I (n y))
    \<Longrightarrow> pres I (case x of Inl y \<Rightarrow> m y | Inr y \<Rightarrow> n y)"
  by (cases x) auto

lemma pres_prod [pres_intro]:
  "(\<And>a b. x = (a, b) \<Longrightarrow> pres I (m a b)) \<Longrightarrow> pres I (case x of (a, b) \<Rightarrow> m a b)"
  by (cases x) auto

lemma pres_list [pres_intro]:
  "(x = [] \<Longrightarrow> pres I m) \<Longrightarrow> (\<And>y ys. x = y # ys \<Longrightarrow> pres I (n y ys))
    \<Longrightarrow> pres I (case x of [] \<Rightarrow> m | y # ys \<Rightarrow> n y ys)"
  by (cases x) auto

subsection \<open>Triples\<close>

definition triple :: "('w \<Rightarrow> bool) \<Rightarrow> ('w, 'a) state \<Rightarrow> ('a \<Rightarrow> 'w \<Rightarrow> bool) \<Rightarrow> bool" where
  "triple P m Q \<longleftrightarrow> (\<forall>w. P w \<longrightarrow> Q (outcome m w) (after m w))"

lemma tripleD: "triple P m Q \<Longrightarrow> P w \<Longrightarrow> Q (outcome m w) (after m w)"
  by (simp add: triple_def)

lemma triple_bind:
  "triple P m R \<Longrightarrow> (\<And>x. triple (R x) (f x) Q) \<Longrightarrow> triple P (State_Monad.bind m f) Q"
  by (simp add: triple_def split_beta)

lemma triple_weaken:
  "triple P' m Q' \<Longrightarrow> (\<And>w. P w \<Longrightarrow> P' w) \<Longrightarrow> (\<And>x w. Q' x w \<Longrightarrow> Q x w) \<Longrightarrow> triple P m Q"
  by (simp add: triple_def)

section \<open>Transition systems and safety\<close>

text \<open>
  The reachable states of a transition system, and the rule every invariant of the development
  goes through: a predicate that holds initially and is kept by every step holds in every
  reachable state.
\<close>

inductive reach :: "('s \<Rightarrow> bool) \<Rightarrow> ('s \<Rightarrow> 's \<Rightarrow> bool) \<Rightarrow> 's \<Rightarrow> bool"
  for init :: "'s \<Rightarrow> bool" and step :: "'s \<Rightarrow> 's \<Rightarrow> bool" where
  reach_init: "init s \<Longrightarrow> reach init step s"
| reach_step: "reach init step s \<Longrightarrow> step s t \<Longrightarrow> reach init step t"

locale safe_system =
  fixes init :: "'s \<Rightarrow> bool"
    and step :: "'s \<Rightarrow> 's \<Rightarrow> bool"
    and I :: "'s \<Rightarrow> bool"
  assumes inv_init: "init s \<Longrightarrow> I s"
    and inv_step: "reach init step s \<Longrightarrow> I s \<Longrightarrow> step s t \<Longrightarrow> I t"
begin

lemma invariant: "reach init step s \<Longrightarrow> I s"
  by (induction rule: reach.induct) (auto intro: inv_init inv_step)

end

end
