(* ===== verification/Codes.thy ===== *)
theory Codes
  imports Prelude
begin

text \<open>
  The codes of \<^verbatim>\<open>codes.go\<close> and the rule by which a disconnect or an unsubscribe code decides
  whether the client comes back. The rule for disconnect codes is written twice in the source
  (the Disconnect push and the WebSocket close frame); it is one definition here.
\<close>

unbundle bit_operations_syntax

section \<open>Code constants\<close>

definition disconnectedDisconnectCalled :: u32 where "disconnectedDisconnectCalled = 0"
definition disconnectedUnauthorized :: u32 where "disconnectedUnauthorized = 1"
definition disconnectBadProtocol :: u32 where "disconnectBadProtocol = 2"
definition disconnectMessageSizeLimit :: u32 where "disconnectMessageSizeLimit = 3"

definition connectingConnectCalled :: u32 where "connectingConnectCalled = 0"
definition connectingTransportClosed :: u32 where "connectingTransportClosed = 1"
definition connectingNoPing :: u32 where "connectingNoPing = 2"
definition connectingSubscribeTimeout :: u32 where "connectingSubscribeTimeout = 3"
definition connectingUnsubscribeError :: u32 where "connectingUnsubscribeError = 4"

definition subscribingSubscribeCalled :: u32 where "subscribingSubscribeCalled = 0"
definition subscribingTransportClosed :: u32 where "subscribingTransportClosed = 1"

definition unsubscribedUnsubscribeCalled :: u32 where "unsubscribedUnsubscribeCalled = 0"
definition unsubscribedUnauthorized :: u32 where "unsubscribedUnauthorized = 1"
definition unsubscribedClientClosed :: u32 where "unsubscribedClientClosed = 2"

definition subscriptionFlagChannelCompaction :: u64 where "subscriptionFlagChannelCompaction = 1"
definition subscriptionFlagRejectUnrecovered :: u64 where "subscriptionFlagRejectUnrecovered = 2"

definition errorCodeUnrecoverablePosition :: u32 where "errorCodeUnrecoverablePosition = 112"

definition unsubscribedStateInvalidated :: u32 where "unsubscribedStateInvalidated = 2502"
definition disconnectedStateInvalidated :: u32 where "disconnectedStateInvalidated = 3014"

definition stateInvalidatedEpoch :: string where "stateInvalidatedEpoch = ''_''"

lemmas code_defs =
  disconnectedDisconnectCalled_def disconnectedUnauthorized_def disconnectBadProtocol_def
  disconnectMessageSizeLimit_def connectingConnectCalled_def connectingTransportClosed_def
  connectingNoPing_def connectingSubscribeTimeout_def connectingUnsubscribeError_def
  subscribingSubscribeCalled_def subscribingTransportClosed_def
  unsubscribedUnsubscribeCalled_def unsubscribedUnauthorized_def unsubscribedClientClosed_def
  errorCodeUnrecoverablePosition_def unsubscribedStateInvalidated_def
  disconnectedStateInvalidated_def

section \<open>A disconnect, and whether the client reconnects after it\<close>

record disconnect =
  d_code :: u32
  d_reason :: string
  d_reconnect :: bool

definition mk_disconnect :: "u32 \<Rightarrow> string \<Rightarrow> bool \<Rightarrow> disconnect" where
  "mk_disconnect c r b = \<lparr>d_code = c, d_reason = r, d_reconnect = b\<rparr>"

lemma mk_disconnect_sel [simp]:
  "d_code (mk_disconnect c r b) = c" "d_reason (mk_disconnect c r b) = r"
  "d_reconnect (mk_disconnect c r b) = b"
  by (simp_all add: mk_disconnect_def)

definition reconnect_code :: "u32 \<Rightarrow> bool" where
  "reconnect_code code \<longleftrightarrow> code < 3500 \<or> code \<ge> 5000 \<or> (code \<ge> 4000 \<and> code < 4500)"

text \<open>The two ranges of terminal codes, and nothing else, end the client.\<close>

lemma reconnect_code_iff:
  "reconnect_code code \<longleftrightarrow>
    \<not> (3500 \<le> unat code \<and> unat code < 4000 \<or> 4500 \<le> unat code \<and> unat code < 5000)"
  by (auto simp: reconnect_code_def word_less_nat_alt word_le_nat_alt)

text \<open>An unsubscribe push below 2500 is final, one from 2500 on makes the client resubscribe.\<close>

definition unsubscribe_final :: "u32 \<Rightarrow> bool" where
  "unsubscribe_final code \<longleftrightarrow> code < 2500"

lemma state_invalidated_reconnects: "reconnect_code disconnectedStateInvalidated"
  by (simp add: reconnect_code_def code_defs)

lemma state_invalidated_resubscribes: "\<not> unsubscribe_final unsubscribedStateInvalidated"
  by (simp add: unsubscribe_final_def code_defs)

section \<open>Subscription flags\<close>

text \<open>
  Channel compaction is always offered; a subscription that can reload its state also asks the
  server to reject an unrecoverable position.
\<close>

definition subscribe_flag :: "bool \<Rightarrow> u64" where
  "subscribe_flag has_get_state =
     (let flag = subscriptionFlagChannelCompaction
      in if has_get_state then flag OR subscriptionFlagRejectUnrecovered else flag)"

lemma subscribe_flag_bits:
  "bit (subscribe_flag g) 0" "bit (subscribe_flag g) 1 = g"
  by (cases g; simp add: subscribe_flag_def subscriptionFlagChannelCompaction_def
        subscriptionFlagRejectUnrecovered_def bit_iff_odd)+

end
