(* ===== verification/Errors.thy ===== *)
theory Errors
  imports Prelude "HOL-Library.Sublist"
begin

text \<open>
  The errors of \<^verbatim>\<open>errors.go\<close> and the error tests of \<^verbatim>\<open>client.go\<close>. The sentinels are compared by
  identity, so they are constructors of a type of their own. \<open>Other\<close> is an error made with
  \<open>errors.New\<close> or by the application, \<open>Wrap\<close> an application error that unwraps to another one.
  The \<open>Is\<close> and \<open>As\<close> methods an application error may define itself are not modelled.
\<close>

section \<open>The error values\<close>

datatype sentinel =
    ErrTimeout
  | ErrClientDisconnected
  | ErrClientClosed
  | ErrSubscriptionUnsubscribed
  | ErrDuplicateSubscription
  | ErrUnauthorized
  | ErrContext

text \<open>\<open>ErrContext\<close> is what \<open>ctx.Err()\<close> returns for a context that is done.\<close>

record server_error =
  e_code :: u32
  e_message :: string
  e_temporary :: bool

datatype err =
    Sentinel sentinel
  | Other string
  | Wrap string err
  | ServerError server_error
  | TransportError err
  | ConnectError err
  | RefreshError err
  | ConfigurationError err
  | SubscriptionSubscribeError err
  | SubscriptionGetStateError err
  | DeltaError channel u64 err
  | SubscriptionRefreshError err

section \<open>Chains: Unwrap, Is, As\<close>

fun unwrap :: "err \<Rightarrow> err option" where
  "unwrap (Wrap _ e) = Some e"
| "unwrap (TransportError e) = Some e"
| "unwrap (ConnectError e) = Some e"
| "unwrap (RefreshError e) = Some e"
| "unwrap (ConfigurationError e) = Some e"
| "unwrap (SubscriptionSubscribeError e) = Some e"
| "unwrap (SubscriptionGetStateError e) = Some e"
| "unwrap (DeltaError _ _ e) = Some e"
| "unwrap (SubscriptionRefreshError e) = Some e"
| "unwrap _ = None"

lemma unwrap_size: "unwrap e = Some e' \<Longrightarrow> size e' < size e"
  by (cases e) auto

text \<open>\<open>errors.Is(err, target)\<close> for a sentinel target, and \<open>errors.As(err, &serverError)\<close>.\<close>

function errors_is :: "err \<Rightarrow> sentinel \<Rightarrow> bool" where
  "errors_is e s = (e = Sentinel s \<or> (case unwrap e of None \<Rightarrow> False | Some e' \<Rightarrow> errors_is e' s))"
  by pat_completeness auto
termination
  by (relation "measure (\<lambda>(e, _). size e)") (auto dest: unwrap_size)

function errors_as :: "err \<Rightarrow> server_error option" where
  "errors_as e = (case e of ServerError x \<Rightarrow> Some x
     | _ \<Rightarrow> (case unwrap e of None \<Rightarrow> None | Some e' \<Rightarrow> errors_as e'))"
  by pat_completeness auto
termination
  by (relation "measure size") (auto dest: unwrap_size)

declare errors_is.simps [simp del] errors_as.simps [simp del]

lemma errors_is_simps [simp]:
  "errors_is (Sentinel a) s \<longleftrightarrow> a = s"
  "errors_is (Other m) s = False"
  "errors_is (ServerError x) s = False"
  "errors_is (Wrap m e) s = errors_is e s"
  "errors_is (TransportError e) s = errors_is e s"
  "errors_is (ConnectError e) s = errors_is e s"
  "errors_is (RefreshError e) s = errors_is e s"
  "errors_is (ConfigurationError e) s = errors_is e s"
  "errors_is (SubscriptionSubscribeError e) s = errors_is e s"
  "errors_is (SubscriptionGetStateError e) s = errors_is e s"
  "errors_is (DeltaError ch off e) s = errors_is e s"
  "errors_is (SubscriptionRefreshError e) s = errors_is e s"
  by (subst errors_is.simps, simp)+

lemma errors_as_simps [simp]:
  "errors_as (Sentinel a) = None"
  "errors_as (Other m) = None"
  "errors_as (ServerError x) = Some x"
  "errors_as (Wrap m e) = errors_as e"
  "errors_as (TransportError e) = errors_as e"
  "errors_as (ConnectError e) = errors_as e"
  "errors_as (RefreshError e) = errors_as e"
  "errors_as (ConfigurationError e) = errors_as e"
  "errors_as (SubscriptionSubscribeError e) = errors_as e"
  "errors_as (SubscriptionGetStateError e) = errors_as e"
  "errors_as (DeltaError ch off e) = errors_as e"
  "errors_as (SubscriptionRefreshError e) = errors_as e"
  by (subst errors_as.simps, simp)+

text \<open>The end of a chain: a chain has one root, so it is a sentinel or a server error, not both.\<close>

function root_cause :: "err \<Rightarrow> err" where
  "root_cause e = (case unwrap e of None \<Rightarrow> e | Some e' \<Rightarrow> root_cause e')"
  by pat_completeness auto
termination
  by (relation "measure size") (auto dest: unwrap_size)

declare root_cause.simps [simp del]

lemma root_cause_simps [simp]:
  "root_cause (Sentinel a) = Sentinel a"
  "root_cause (Other m) = Other m"
  "root_cause (ServerError x) = ServerError x"
  "root_cause (Wrap m e) = root_cause e"
  "root_cause (TransportError e) = root_cause e"
  "root_cause (ConnectError e) = root_cause e"
  "root_cause (RefreshError e) = root_cause e"
  "root_cause (ConfigurationError e) = root_cause e"
  "root_cause (SubscriptionSubscribeError e) = root_cause e"
  "root_cause (SubscriptionGetStateError e) = root_cause e"
  "root_cause (DeltaError ch off e) = root_cause e"
  "root_cause (SubscriptionRefreshError e) = root_cause e"
  by (subst root_cause.simps, simp)+

lemma errors_is_root: "errors_is e s \<longleftrightarrow> root_cause e = Sentinel s"
  by (induction e) auto

lemma errors_as_root: "errors_as e = Some x \<longleftrightarrow> root_cause e = ServerError x"
  by (induction e) auto

section \<open>The error tests of the client\<close>

text \<open>These look at the error itself, not at its chain.\<close>

definition isTokenExpiredError :: "err \<Rightarrow> bool" where
  "isTokenExpiredError e = (case e of ServerError x \<Rightarrow> e_code x = 109 | _ \<Rightarrow> False)"

definition isServerError :: "err \<Rightarrow> bool" where
  "isServerError e = (case e of ServerError _ \<Rightarrow> True | _ \<Rightarrow> False)"

definition isTemporaryError :: "err \<Rightarrow> bool" where
  "isTemporaryError e = (case e of ServerError x \<Rightarrow> e_temporary x | _ \<Rightarrow> False)"

lemma isServerError_as: "isServerError e \<Longrightarrow> \<exists>x. e = ServerError x \<and> errors_as e = Some x"
  by (cases e) (auto simp: isServerError_def)

section \<open>Messages\<close>

fun show_nat :: "nat \<Rightarrow> string" where
  "show_nat n = (if n < 10 then [char_of (48 + n)] else show_nat (n div 10) @ [char_of (48 + n mod 10)])"

declare show_nat.simps [simp del]

fun sentinel_string :: "sentinel \<Rightarrow> string" where
  "sentinel_string ErrTimeout = ''timeout''"
| "sentinel_string ErrClientDisconnected = ''client disconnected''"
| "sentinel_string ErrClientClosed = ''client closed''"
| "sentinel_string ErrSubscriptionUnsubscribed = ''subscription unsubscribed''"
| "sentinel_string ErrDuplicateSubscription = ''duplicate subscription''"
| "sentinel_string ErrUnauthorized = ''unauthorized''"
| "sentinel_string ErrContext = ''context canceled''"

definition server_error_string :: "server_error \<Rightarrow> string" where
  "server_error_string x = show_nat (unat (e_code x)) @ '': '' @ e_message x"

fun error_string :: "err \<Rightarrow> string" where
  "error_string (Sentinel s) = sentinel_string s"
| "error_string (Other m) = m"
| "error_string (Wrap m e) = m @ '': '' @ error_string e"
| "error_string (ServerError x) = server_error_string x"
| "error_string (TransportError e) = ''transport error: '' @ error_string e"
| "error_string (ConnectError e) = ''connect error: '' @ error_string e"
| "error_string (RefreshError e) = ''refresh error: '' @ error_string e"
| "error_string (ConfigurationError e) = ''configuration error: '' @ error_string e"
| "error_string (SubscriptionSubscribeError e) = ''subscribe error: '' @ error_string e"
| "error_string (SubscriptionGetStateError e) = ''get state error: '' @ error_string e"
| "error_string (DeltaError ch off e) =
     ''delta error: channel '' @ ch @ '', offset '' @ show_nat (unat off) @ '': '' @ error_string e"
| "error_string (SubscriptionRefreshError e) = ''refresh error: '' @ error_string e"

text \<open>
  Wrapping keeps the cause: an error reported to \<open>OnError\<close>, however often wrapped, matches
  \<open>errors.Is\<close> and \<open>errors.As\<close> exactly when its root does, and its message ends with the root's.
\<close>

lemma error_string_suffix: "suffix (error_string (root_cause e)) (error_string e)"
  by (induction e) (auto simp: suffix_Cons intro!: suffix_appendI)


end
