(* ===== verification/Protocol.thy ===== *)
theory Protocol
  imports Errors Codes
begin

text \<open>
  The messages the client exchanges with the server, and the conversions of \<^verbatim>\<open>protocol.go\<close>.

  The message types themselves (\<open>protocol.Command\<close>, \<open>protocol.Reply\<close>, \<open>protocol.Push\<close> and what
  they hold) come from the package \<^verbatim>\<open>github.com/centrifugal/protocol\<close>, which is not part of the
  repository: the records below hold exactly the fields the client reads or writes. A pointer
  field is an option, because the client must not dereference a nil one; this is what
  \<open>malformedReply\<close> is for. Encoders and decoders are parameters of the model.
\<close>

section \<open>Messages from the server\<close>

record pb_info =
  pi_user :: string
  pi_client :: string
  pi_conn_info :: slice
  pi_chan_info :: slice

record pb_pub =
  pp_offset :: u64
  pp_data :: slice
  pp_info :: "pb_info option"
  pp_tags :: "(string, string) gomap"
  pp_delta :: bool
  pp_epoch :: string
  pp_channel :: string

record pb_subscribe_result =
  sr_data :: slice
  sr_recovered :: bool
  sr_was_recovering :: bool
  sr_recoverable :: bool
  sr_positioned :: bool
  sr_epoch :: string
  sr_offset :: u64
  sr_publications :: "pb_pub option list"
  sr_expires :: bool
  sr_ttl :: u32
  sr_delta :: bool
  sr_id :: int

record pb_connect_result =
  cr_client :: string
  cr_version :: string
  cr_data :: slice
  cr_subs :: "(channel, pb_subscribe_result option) gomap"
  cr_expires :: bool
  cr_ttl :: u32
  cr_ping :: u32
  cr_pong :: bool

record pb_refresh_result =
  rr_expires :: bool
  rr_ttl :: u32

record stream_position =
  sp_offset :: u64
  sp_epoch :: string

record pb_history_result =
  hr_publications :: "pb_pub option list"
  hr_offset :: u64
  hr_epoch :: string

record pb_presence_stats =
  ps_num_clients :: u32
  ps_num_users :: u32

record pb_unsubscribe =
  pu_code :: u32
  pu_reason :: string

record pb_subscribe_push =
  psub_offset :: u64
  psub_epoch :: string
  psub_recoverable :: bool
  psub_positioned :: bool
  psub_data :: slice

record pb_disconnect_push =
  pd_code :: u32
  pd_reason :: string

text \<open>A push carries one of several messages; the client tests the fields in a fixed order.\<close>

record pb_push =
  pu_id :: int
  pu_channel :: channel
  pu_message :: "slice option"
  pu_unsubscribe :: "pb_unsubscribe option"
  pu_pub :: "pb_pub option"
  pu_join :: "pb_info option option"
  pu_leave :: "pb_info option option"
  pu_subscribe :: "pb_subscribe_push option"
  pu_disconnect :: "pb_disconnect_push option"

text \<open>
  A reply. \<open>r_rpc\<close> is the data of the RPC result, \<open>r_presence\<close> the presence map (with possibly
  nil client infos).
\<close>

record pb_reply =
  r_id :: u32
  r_error :: "server_error option"
  r_push :: "pb_push option"
  r_connect :: "pb_connect_result option"
  r_subscribe :: "pb_subscribe_result option"
  r_refresh :: "pb_refresh_result option"
  r_sub_refresh :: "pb_refresh_result option"
  r_rpc :: "slice option"
  r_history :: "pb_history_result option"
  r_presence :: "(string, pb_info option) gomap option"
  r_presence_stats :: "pb_presence_stats option"

definition empty_reply :: "u32 \<Rightarrow> pb_reply" where
  "empty_reply i = \<lparr>r_id = i, r_error = None, r_push = None, r_connect = None, r_subscribe = None,
     r_refresh = None, r_sub_refresh = None, r_rpc = None, r_history = None, r_presence = None,
     r_presence_stats = None\<rparr>"

section \<open>Tag filters, as the server receives them\<close>

text \<open>\<open>protocol.FilterNode\<close>: a leaf sets key, cmp, val and vals, a logical node op and nodes.\<close>

datatype pb_filter =
  PbFilter (f_op: string) (f_key: string) (f_cmp: string) (f_val: string)
    (f_vals: "string list") (f_nodes: "pb_filter list")

section \<open>Messages to the server\<close>

record subscribe_req =
  sq_channel :: channel
  sq_token :: string
  sq_recover :: bool
  sq_epoch :: string
  sq_offset :: u64
  sq_data :: slice
  sq_positioned :: bool
  sq_recoverable :: bool
  sq_join_leave :: bool
  sq_delta :: string
  sq_tf :: "pb_filter option"
  sq_flag :: u64

definition empty_subscribe_req :: subscribe_req where
  "empty_subscribe_req = \<lparr>sq_channel = [], sq_token = [], sq_recover = False, sq_epoch = [],
     sq_offset = 0, sq_data = None, sq_positioned = False, sq_recoverable = False,
     sq_join_leave = False, sq_delta = [], sq_tf = None, sq_flag = 0\<rparr>"

record connect_req =
  cq_token :: string
  cq_name :: string
  cq_version :: string
  cq_data :: slice
  cq_subs :: "(channel, subscribe_req) gomap"

record history_req =
  hq_channel :: channel
  hq_limit :: "32 word"
  hq_reverse :: bool
  hq_since :: "stream_position option"

text \<open>
  A command sets at most one of these fields; one that sets none is a pong.
  Commands of the same shape (a channel, a channel and a token) hold a pair.
\<close>

record command =
  cmd_id :: u32
  cmd_connect :: "connect_req option"
  cmd_subscribe :: "subscribe_req option"
  cmd_unsubscribe :: "channel option"
  cmd_publish :: "(channel \<times> slice) option"
  cmd_presence :: "channel option"
  cmd_presence_stats :: "channel option"
  cmd_history :: "history_req option"
  cmd_send :: "slice option"
  cmd_rpc :: "(string \<times> slice) option"
  cmd_refresh :: "string option"
  cmd_sub_refresh :: "(channel \<times> string) option"

definition new_command :: "u32 \<Rightarrow> command" where
  "new_command i = \<lparr>cmd_id = i, cmd_connect = None, cmd_subscribe = None, cmd_unsubscribe = None,
     cmd_publish = None, cmd_presence = None, cmd_presence_stats = None, cmd_history = None,
     cmd_send = None, cmd_rpc = None, cmd_refresh = None, cmd_sub_refresh = None\<rparr>"

section \<open>What the application sees\<close>

record client_info =
  ci_client :: string
  ci_user :: string
  ci_conn_info :: slice
  ci_chan_info :: slice

record publication =
  pub_offset :: u64
  pub_data :: slice
  pub_info :: "client_info option"
  pub_tags :: "(string, string) gomap"

text \<open>The getters of a nil \<open>ClientInfo\<close> return zero values; an empty slice becomes nil.\<close>

definition infoFromProto :: "pb_info option \<Rightarrow> client_info" where
  "infoFromProto v = (case v of
     None \<Rightarrow> \<lparr>ci_client = [], ci_user = [], ci_conn_info = None, ci_chan_info = None\<rparr>
   | Some i \<Rightarrow>
       \<lparr>ci_client = pi_client i, ci_user = pi_user i,
        ci_conn_info = (if slice_len (pi_conn_info i) > 0 then pi_conn_info i else None),
        ci_chan_info = (if slice_len (pi_chan_info i) > 0 then pi_chan_info i else None)\<rparr>)"

text \<open>
  \<open>pubFromProto\<close> reads \<open>pub.Data\<close> directly, so it panics on a nil publication: \<open>None\<close>.
\<close>

definition pubFromProto :: "pb_pub option \<Rightarrow> publication option" where
  "pubFromProto p = map_option (\<lambda>pub.
     \<lparr>pub_offset = pp_offset pub, pub_data = pp_data pub,
      pub_info = (case pp_info pub of None \<Rightarrow> None | Some i \<Rightarrow> Some (infoFromProto (Some i))),
      pub_tags = pp_tags pub\<rparr>) p"

definition errorFromProto :: "server_error \<Rightarrow> err" where
  "errorFromProto e = ServerError \<lparr>e_code = e_code e, e_message = e_message e, e_temporary = e_temporary e\<rparr>"

lemma errorFromProto_eq [simp]: "errorFromProto e = ServerError e"
  by (simp add: errorFromProto_def)

section \<open>What a reply must carry\<close>

datatype replyResult =
    replyResultNone
  | replyResultConnect
  | replyResultSubscribe
  | replyResultRefresh
  | replyResultSubRefresh
  | replyResultRPC
  | replyResultHistory
  | replyResultPresence
  | replyResultPresenceStats

definition replyResultOf :: "command \<Rightarrow> replyResult" where
  "replyResultOf cmd =
    (if cmd_connect cmd \<noteq> None then replyResultConnect
     else if cmd_subscribe cmd \<noteq> None then replyResultSubscribe
     else if cmd_refresh cmd \<noteq> None then replyResultRefresh
     else if cmd_sub_refresh cmd \<noteq> None then replyResultSubRefresh
     else if cmd_rpc cmd \<noteq> None then replyResultRPC
     else if cmd_history cmd \<noteq> None then replyResultHistory
     else if cmd_presence cmd \<noteq> None then replyResultPresence
     else if cmd_presence_stats cmd \<noteq> None then replyResultPresenceStats
     else replyResultNone)"

fun hasNilPublication :: "pb_pub option list \<Rightarrow> bool" where
  "hasNilPublication [] = False"
| "hasNilPublication (p # ps) = (if p = None then True else hasNilPublication ps)"

lemma hasNilPublication_iff: "hasNilPublication ps \<longleftrightarrow> None \<in> set ps"
  by (induction ps) auto

text \<open>The loop over the server-side subscriptions of a connect result.\<close>

fun hasMalformedSub :: "pb_subscribe_result option list \<Rightarrow> bool" where
  "hasMalformedSub [] = False"
| "hasMalformedSub (s # ss) = (case s of
     None \<Rightarrow> True
   | Some r \<Rightarrow> if hasNilPublication (sr_publications r) then True else hasMalformedSub ss)"

lemma hasMalformedSub_iff:
  "hasMalformedSub ss \<longleftrightarrow> (\<exists>s \<in> set ss. s = None \<or> (\<exists>r. s = Some r \<and> None \<in> set (sr_publications r)))"
  by (induction ss) (auto simp: hasNilPublication_iff split: option.splits)

definition malformedReply :: "replyResult \<Rightarrow> pb_reply \<Rightarrow> bool" where
  "malformedReply result r = (case result of
     replyResultConnect \<Rightarrow> (case r_connect r of
         None \<Rightarrow> True | Some c \<Rightarrow> hasMalformedSub (gm_vals (cr_subs c)))
   | replyResultSubscribe \<Rightarrow> (case r_subscribe r of
         None \<Rightarrow> True | Some s \<Rightarrow> hasNilPublication (sr_publications s))
   | replyResultRefresh \<Rightarrow> r_refresh r = None
   | replyResultSubRefresh \<Rightarrow> r_sub_refresh r = None
   | replyResultRPC \<Rightarrow> r_rpc r = None
   | replyResultHistory \<Rightarrow> (case r_history r of
         None \<Rightarrow> True | Some h \<Rightarrow> hasNilPublication (hr_publications h))
   | replyResultPresence \<Rightarrow> r_presence r = None
   | replyResultPresenceStats \<Rightarrow> r_presence_stats r = None
   | replyResultNone \<Rightarrow> False)"

section \<open>Reading a reply\<close>

text \<open>
  The callbacks dereference pointers of the reply. \<open>deref_pubs\<close> is a loop that dereferences every
  publication: it panics (\<open>None\<close>) on a nil one.
\<close>

fun deref_pubs :: "pb_pub option list \<Rightarrow> pb_pub list option" where
  "deref_pubs [] = Some []"
| "deref_pubs (p # ps) = (case p of None \<Rightarrow> None | Some x \<Rightarrow> map_option (Cons x) (deref_pubs ps))"

lemma deref_pubs_Some: "deref_pubs ps \<noteq> None \<longleftrightarrow> \<not> hasNilPublication ps"
  by (induction ps) (auto split: option.splits)

lemma deref_pubs_eq: "deref_pubs ps = Some xs \<longleftrightarrow> ps = map Some xs"
  by (induction ps arbitrary: xs) (auto split: option.splits)

text \<open>
  What each kind of callback reads of a reply without an error, as the callbacks do: whether it
  gets through without a nil dereference.
\<close>

definition readable :: "replyResult \<Rightarrow> pb_reply \<Rightarrow> bool" where
  "readable result r = (case result of
     replyResultConnect \<Rightarrow> (case r_connect r of None \<Rightarrow> False
       | Some c \<Rightarrow> \<forall>s \<in> set (gm_vals (cr_subs c)).
           (case s of None \<Rightarrow> False | Some x \<Rightarrow> deref_pubs (sr_publications x) \<noteq> None))
   | replyResultSubscribe \<Rightarrow> (case r_subscribe r of None \<Rightarrow> False
       | Some s \<Rightarrow> deref_pubs (sr_publications s) \<noteq> None)
   | replyResultRefresh \<Rightarrow> r_refresh r \<noteq> None
   | replyResultSubRefresh \<Rightarrow> r_sub_refresh r \<noteq> None
   | replyResultRPC \<Rightarrow> r_rpc r \<noteq> None
   | replyResultHistory \<Rightarrow> (case r_history r of None \<Rightarrow> False
       | Some h \<Rightarrow> deref_pubs (hr_publications h) \<noteq> None)
   | replyResultPresence \<Rightarrow> r_presence r \<noteq> None
   | replyResultPresenceStats \<Rightarrow> r_presence_stats r \<noteq> None
   | replyResultNone \<Rightarrow> True)"

lemma readable_subs_iff:
  "(\<forall>s \<in> set ss. case s of None \<Rightarrow> False | Some x \<Rightarrow> deref_pubs (sr_publications x) \<noteq> None)
    \<longleftrightarrow> \<not> hasMalformedSub ss"
  by (induction ss) (simp_all add: deref_pubs_Some del: not_None_eq split: option.split)

lemma readable_iff: "readable result r \<longleftrightarrow> \<not> malformedReply result r"
  by (cases result)
     (simp_all add: readable_def malformedReply_def readable_subs_iff deref_pubs_Some del: not_None_eq
        split: option.split)

end
