(* ===== verification/Delta.thy ===== *)
theory Delta
  imports Protocol
begin

text \<open>
  Decoding of publications with negotiated delta, \<open>applyDeltaLocked\<close> of \<^verbatim>\<open>subscription.go\<close>. The
  delta library (\<^verbatim>\<open>github.com/centrifugal/fdelta\<close>) and the decoding of a JSON string are
  parameters, gathered in a record: \<open>fdelta_apply base delta\<close> and \<open>json_string data\<close>.

  The function reads \<open>deltaNegotiated\<close>, \<open>prevData\<close> and the protocol type, and returns the data of
  the event or an error, and the new \<open>prevData\<close>. On an error \<open>prevData\<close> is left as it was.
\<close>

datatype ptype = TypeJSON | TypeProtobuf

record codec =
  fdelta_apply :: "slice \<Rightarrow> slice \<Rightarrow> err + slice"
  json_string :: "slice \<Rightarrow> err + bytes"

definition applyDelta :: "codec \<Rightarrow> ptype \<Rightarrow> bool \<Rightarrow> slice \<Rightarrow> pb_pub \<Rightarrow> (err + slice) \<times> slice" where
  "applyDelta cd ty deltaNegotiated prevData pub =
    (if \<not> deltaNegotiated then
       (if pp_delta pub then (Inl (Other ''delta publication without negotiated delta''), prevData)
        else (Inr (pp_data pub), prevData))
     else if pp_delta pub \<and> prevData = None then
       (Inl (Other ''delta publication without a base''), prevData)
     else if ty = TypeJSON then
       (if pp_delta pub then
          (case json_string cd (pp_data pub) of
             Inl e \<Rightarrow> (Inl e, prevData)
           | Inr delta \<Rightarrow> (case fdelta_apply cd prevData (Some delta) of
               Inl e \<Rightarrow> (Inl e, prevData)
             | Inr newData \<Rightarrow> (Inr newData, newData)))
        else
          (case json_string cd (pp_data pub) of
             Inl e \<Rightarrow> (Inl e, prevData)
           | Inr d \<Rightarrow> (Inr (Some d), Some d)))
     else
       (if pp_delta pub then
          (case fdelta_apply cd prevData (pp_data pub) of
             Inl e \<Rightarrow> (Inl e, prevData)
           | Inr newData \<Rightarrow> (Inr newData, newData))
        else (Inr (pp_data pub), pp_data pub)))"

text \<open>Publications applied one after the other, as the reader goroutine does: stops at an error.\<close>

fun applyDeltas :: "codec \<Rightarrow> ptype \<Rightarrow> bool \<Rightarrow> slice \<Rightarrow> pb_pub list \<Rightarrow> (err \<times> u64 + slice list) \<times> slice" where
  "applyDeltas cd ty neg prev [] = (Inr [], prev)"
| "applyDeltas cd ty neg prev (p # ps) =
    (case applyDelta cd ty neg prev p of
       (Inl e, prev') \<Rightarrow> (Inl (e, pp_offset p), prev')
     | (Inr d, prev') \<Rightarrow>
         (case applyDeltas cd ty neg prev' ps of
            (Inl e, prev'') \<Rightarrow> (Inl e, prev'')
          | (Inr ds, prev'') \<Rightarrow> (Inr (d # ds), prev'')))"

section \<open>Each branch\<close>

lemma applyDelta_error_keeps: "applyDelta cd ty neg prev p = (Inl e, prev') \<Longrightarrow> prev' = prev"
  by (auto simp: applyDelta_def split: if_splits sum.splits)

lemma applyDelta_no_base:
  "pp_delta p \<Longrightarrow> \<not> neg \<or> prev = None \<Longrightarrow> \<exists>e. applyDelta cd ty neg prev p = (Inl e, prev)"
  by (auto simp: applyDelta_def)

lemma applyDelta_base:
  "neg \<Longrightarrow> applyDelta cd ty neg prev p = (Inr d, prev') \<Longrightarrow> prev' = d"
  by (auto simp: applyDelta_def split: if_splits sum.splits)

text \<open>
  C33: a publication that is a delta is never delivered without a base: without negotiated delta
  or before a full publication it is an error, and an error leaves the base untouched; every
  publication that is delivered under negotiated delta is itself the base of the next one.
\<close>

theorem delta_needs_base:
  "(pp_delta p \<and> (\<not> neg \<or> prev = None) \<longrightarrow> (\<exists>e. applyDelta cd ty neg prev p = (Inl e, prev)))
   \<and> (\<forall>e prev'. applyDelta cd ty neg prev p = (Inl e, prev') \<longrightarrow> prev' = prev)
   \<and> (\<forall>d prev'. neg \<and> applyDelta cd ty neg prev p = (Inr d, prev') \<longrightarrow> prev' = d)"
  using applyDelta_no_base[of p neg prev cd ty] applyDelta_error_keeps[of cd ty neg prev p]
    applyDelta_base[of neg cd ty prev p] by meson

section \<open>A conforming server\<close>

text \<open>
  What a server that negotiated delta sends for the payloads \<open>xs\<close>: each either in full or as a
  delta against the payload before it (\<open>flags\<close> says which), the first in full when the client
  has no base. \<open>create\<close> makes a delta, \<open>quote\<close> a JSON string; both are parameters, with the
  round-trip laws of the two libraries as hypotheses of the theorem.
\<close>

definition mk_pub :: "slice \<Rightarrow> bool \<Rightarrow> pb_pub" where
  "mk_pub d is_delta = \<lparr>pp_offset = 0, pp_data = d, pp_info = None, pp_tags = [],
     pp_delta = is_delta, pp_epoch = [], pp_channel = []\<rparr>"

definition encode_payload :: "(bytes \<Rightarrow> bytes) \<Rightarrow> ptype \<Rightarrow> bytes \<Rightarrow> slice" where
  "encode_payload quote ty b = Some (case ty of TypeJSON \<Rightarrow> quote b | TypeProtobuf \<Rightarrow> b)"

fun server_stream :: "(bytes \<Rightarrow> bytes \<Rightarrow> bytes) \<Rightarrow> (bytes \<Rightarrow> bytes) \<Rightarrow> ptype \<Rightarrow> slice
    \<Rightarrow> (bool \<times> bytes) list \<Rightarrow> pb_pub list" where
  "server_stream create quote ty base [] = []"
| "server_stream create quote ty base ((as_delta, x) # xs) =
    (case base of
       Some b \<Rightarrow> (if as_delta then mk_pub (encode_payload quote ty (create b x)) True
                  else mk_pub (encode_payload quote ty x) False)
     | None \<Rightarrow> mk_pub (encode_payload quote ty x) False)
    # server_stream create quote ty (Some x) xs"

lemma applyDelta_full:
  "(\<And>b. json_string cd (Some (quote b)) = Inr b)
    \<Longrightarrow> applyDelta cd ty True prev (mk_pub (encode_payload quote ty x) False) = (Inr (Some x), Some x)"
  by (cases ty) (simp_all add: applyDelta_def mk_pub_def encode_payload_def)

lemma applyDelta_delta:
  "(\<And>a b. fdelta_apply cd (Some a) (Some (create a b)) = Inr (Some b))
    \<Longrightarrow> (\<And>b. json_string cd (Some (quote b)) = Inr b)
    \<Longrightarrow> applyDelta cd ty True (Some b) (mk_pub (encode_payload quote ty (create b x)) True)
        = (Inr (Some x), Some x)"
  by (cases ty) (simp_all add: applyDelta_def mk_pub_def encode_payload_def)


text \<open>A concrete codec that satisfies the laws: a delta that carries the new payload.\<close>

definition plain_codec :: codec where
  "plain_codec = \<lparr>fdelta_apply = (\<lambda>base d. Inr d), json_string = (\<lambda>d. case d of
     None \<Rightarrow> Inl (Other ''unexpected end of JSON input'') | Some b \<Rightarrow> Inr b)\<rparr>"


theorem delta_needs_base_witness:
  "\<exists>e. applyDelta plain_codec TypeProtobuf True None (mk_pub (Some [7]) True) = (Inl e, None)"
  using delta_needs_base[of "mk_pub (Some [7]) True" True None plain_codec TypeProtobuf]
  by (auto simp: mk_pub_def)

end
