(* ===== verification/Settings.thy ===== *)
theory Settings
  imports Codes Errors Delta "HOL-Library.Multiset"
begin

text \<open>
  Options and start-up: the \<open>Config\<close> of \<^verbatim>\<open>config.go\<close> with the defaults \<open>newClient\<close> fills in, the
  endpoint list, the log levels (\<^verbatim>\<open>log.go\<close>, \<^verbatim>\<open>client.go\<close>), and the
  reconnect strategy of \<^verbatim>\<open>reconnect.go\<close>. Callbacks of the application are represented by whether
  they are set; transport options the client only hands on are left out.
\<close>

section \<open>Client options\<close>

record config =
  cfg_token :: string
  cfg_get_token :: bool
  cfg_data :: slice
  cfg_header :: "(string, string list) gomap option"
  cfg_name :: string
  cfg_version :: string
  cfg_read_timeout :: duration
  cfg_write_timeout :: duration
  cfg_handshake_timeout :: duration
  cfg_max_server_ping_delay :: duration
  cfg_min_reconnect_delay :: duration
  cfg_max_reconnect_delay :: duration
  cfg_log_level :: int

text \<open>An option left at its zero value gets the default.\<close>

definition or_default :: "'a \<Rightarrow> 'a \<Rightarrow> 'a \<Rightarrow> 'a" where
  "or_default zero x d = (if x = zero then d else x)"

lemma or_default_simps [simp]: "or_default z z d = d" "x \<noteq> z \<Longrightarrow> or_default z x d = x"
  by (simp_all add: or_default_def)

lemma or_default_ne: "d \<noteq> z \<Longrightarrow> or_default z x d \<noteq> z"
  by (simp add: or_default_def)

lemma or_default_twice: "or_default z (or_default z x d) d = or_default z x d"
  by (simp add: or_default_def)

definition default_config :: "config \<Rightarrow> config" where
  "default_config c = c
     \<lparr>cfg_read_timeout := or_default 0 (cfg_read_timeout c) (5 * second),
      cfg_write_timeout := or_default 0 (cfg_write_timeout c) second,
      cfg_handshake_timeout := or_default 0 (cfg_handshake_timeout c) second,
      cfg_max_server_ping_delay := or_default 0 (cfg_max_server_ping_delay c) (10 * second),
      cfg_header := or_default None (cfg_header c) (Some []),
      cfg_name := or_default [] (cfg_name c) ''go''\<rparr>"

text \<open>No timeout of a client is zero, an option the application set is kept, and filling in the
  defaults twice changes nothing.\<close>

lemma default_config_spec:
  "cfg_read_timeout (default_config c) \<noteq> 0" "cfg_write_timeout (default_config c) \<noteq> 0"
  "cfg_handshake_timeout (default_config c) \<noteq> 0" "cfg_max_server_ping_delay (default_config c) \<noteq> 0"
  "cfg_name (default_config c) \<noteq> []" "cfg_header (default_config c) \<noteq> None"
  "default_config (default_config c) = default_config c"
  by (simp_all add: default_config_def or_default_ne or_default_twice second_def)

lemma default_config_keeps:
  "cfg_read_timeout c \<noteq> 0 \<Longrightarrow> cfg_read_timeout (default_config c) = cfg_read_timeout c"
  "cfg_token (default_config c) = cfg_token c"
  "cfg_get_token (default_config c) = cfg_get_token c"
  "cfg_data (default_config c) = cfg_data c"
  by (simp_all add: default_config_def)

section \<open>Endpoints\<close>

text \<open>\<open>strings.Split(s, ",")\<close>: never empty, and joining gives the text back.\<close>

fun split_commas :: "string \<Rightarrow> string list" where
  "split_commas [] = [[]]"
| "split_commas (c # cs) =
    (if c = CHR '','' then [] # split_commas cs
     else (case split_commas cs of [] \<Rightarrow> [[c]] | p # ps \<Rightarrow> (c # p) # ps))"

fun join_commas :: "string list \<Rightarrow> string" where
  "join_commas [] = []"
| "join_commas [p] = p"
| "join_commas (p # ps) = p @ CHR '','' # join_commas ps"

lemma split_commas_ne: "split_commas s \<noteq> []"
  by (induction s) (auto split: list.splits)

lemma join_split: "join_commas (split_commas s) = s"
proof (induction s)
  case (Cons c s)
  obtain p ps where "split_commas s = p # ps" using split_commas_ne[of s] by (cases "split_commas s") auto
  with Cons show ?case by (cases ps) auto
qed simp

text \<open>
  The endpoint list of \<open>newClient\<close>: split, shuffled (the random permutation is a parameter), each
  required to start with \<open>ws\<close>. \<open>None\<close> is a panic.
\<close>

definition client_endpoints :: "(string list \<Rightarrow> string list) \<Rightarrow> string \<Rightarrow> string list option" where
  "client_endpoints shuffle endpoint =
    (let endpoints = split_commas endpoint
     in if length endpoints = 0 then None
        else let endpoints = shuffle endpoints
             in if (\<forall>e \<in> set endpoints. take 2 e = ''ws'') then Some endpoints else None)"



section \<open>Log levels\<close>

definition LogLevelNone :: int where "LogLevelNone = 0"
definition LogLevelTrace :: int where "LogLevelTrace = 1"
definition LogLevelDebug :: int where "LogLevelDebug = 2"

definition log_level_string :: "int \<Rightarrow> string" where
  "log_level_string l = (if l = LogLevelNone then ''NONE'' else if l = LogLevelTrace then ''TRACE''
     else if l = LogLevelDebug then ''DEBUG'' else ''UNKNOWN'')"

definition logLevelEnabled :: "int \<Rightarrow> int \<Rightarrow> bool" where
  "logLevelEnabled configured level \<longleftrightarrow> configured > LogLevelNone \<and> level \<ge> configured"

lemma logLevelEnabled_cases:
  "\<not> logLevelEnabled LogLevelNone l"
  "logLevelEnabled LogLevelTrace LogLevelTrace" "logLevelEnabled LogLevelTrace LogLevelDebug"
  "\<not> logLevelEnabled LogLevelDebug LogLevelTrace" "logLevelEnabled LogLevelDebug LogLevelDebug"
  by (simp_all add: logLevelEnabled_def LogLevelNone_def LogLevelTrace_def LogLevelDebug_def)

section \<open>The reconnect strategy\<close>

text \<open>
  \<open>for_attempt\<close> stands for \<open>ForAttempt\<close> of \<^verbatim>\<open>github.com/jpillora/backoff\<close> (the factor is 2 and
  jitter is on): minimum, maximum and attempt to a delay.
\<close>

record backoff_reconnect =
  bo_factor :: nat
  bo_jitter :: bool
  bo_min :: duration
  bo_max :: duration

definition newBackoffReconnect :: "duration \<Rightarrow> duration \<Rightarrow> backoff_reconnect" where
  "newBackoffReconnect minDelay0 maxDelay0 =
    (let minDelay = (if minDelay0 = 0 then 200 * millisecond else minDelay0);
         maxDelay = (if maxDelay0 = 0 then 20 * second else maxDelay0)
     in \<lparr>bo_factor = 2, bo_jitter = True, bo_min = minDelay, bo_max = maxDelay\<rparr>)"

definition timeBeforeNextAttempt ::
  "(backoff_reconnect \<Rightarrow> nat \<Rightarrow> duration) \<Rightarrow> backoff_reconnect \<Rightarrow> nat \<Rightarrow> duration" where
  "timeBeforeNextAttempt for_attempt r attempt = for_attempt r attempt"

text \<open>
  With a back-off library that keeps its results between its minimum and its maximum, every
  delay a client computes lies between the configured bounds, and between 200 millisecond and 20 s where
  the application configured none.
\<close>

theorem backoff_bounds:
  assumes lib: "\<And>r n. bo_min r \<le> bo_max r \<Longrightarrow> bo_min r \<le> fa r n \<and> fa r n \<le> bo_max r"
    and "0 \<le> lo" "0 \<le> hi"
    and "lo = 0 \<or> hi = 0 \<or> lo \<le> hi" "hi = 0 \<longrightarrow> lo \<le> 20 * second" "lo = 0 \<and> hi \<noteq> 0 \<longrightarrow> 200 * millisecond \<le> hi"
  shows "(if lo = 0 then 200 * millisecond else lo) \<le> timeBeforeNextAttempt fa (newBackoffReconnect lo hi) n
    \<and> timeBeforeNextAttempt fa (newBackoffReconnect lo hi) n \<le> (if hi = 0 then 20 * second else hi)"
proof -
  have "bo_min (newBackoffReconnect lo hi) \<le> bo_max (newBackoffReconnect lo hi)"
    using assms(2-) by (auto simp: newBackoffReconnect_def millisecond_def second_def)
  from lib[OF this, of n] show ?thesis
    by (simp add: timeBeforeNextAttempt_def newBackoffReconnect_def)
qed

theorem backoff_bounds_witness:
  "200 * millisecond \<le> timeBeforeNextAttempt (\<lambda>r n. min (bo_max r) (bo_min r * 2 ^ n)) (newBackoffReconnect 0 0) 3
   \<and> timeBeforeNextAttempt (\<lambda>r n. min (bo_max r) (bo_min r * 2 ^ n)) (newBackoffReconnect 0 0) 3 \<le> 20 * second"
proof -
  define fa :: "backoff_reconnect \<Rightarrow> nat \<Rightarrow> duration" where
    "fa = (\<lambda>r n. max (bo_min r) (min (bo_max r) (bo_min r * 2 ^ n)))"
  have lib: "bo_min r \<le> bo_max r \<Longrightarrow> bo_min r \<le> fa r n \<and> fa r n \<le> bo_max r" for r n
    by (simp add: fa_def)
  have "200 * millisecond \<le> timeBeforeNextAttempt fa (newBackoffReconnect 0 0) 3
    \<and> timeBeforeNextAttempt fa (newBackoffReconnect 0 0) 3 \<le> 20 * second"
    using backoff_bounds[where fa = fa and lo = 0 and hi = 0 and n = 3, OF lib]
    by (simp add: second_def)
  then show ?thesis
    by (simp add: fa_def timeBeforeNextAttempt_def newBackoffReconnect_def millisecond_def second_def)
qed

section \<open>Token refresh delays\<close>

text \<open>
  A server-given ttl is a number of seconds. The connection refresh is delayed by at least one
  second (\<open>scheduleRefreshLocked\<close>), the subscription refresh replaces a ttl of 0 by 1
  (\<open>scheduleSubRefresh\<close>), so refreshes do not run in a loop; and since a ttl is a \<open>uint32\<close>, the
  product with a second never leaves the range of a \<open>time.Duration\<close>.
\<close>

definition ttl_duration :: "u32 \<Rightarrow> duration" where
  "ttl_duration ttl = int (unat ttl) * second"

definition refresh_delay :: "duration \<Rightarrow> duration" where
  "refresh_delay delay = (if delay < second then second else delay)"

definition sub_refresh_delay :: "u32 \<Rightarrow> duration" where
  "sub_refresh_delay ttl0 = (let ttl = (if ttl0 = 0 then 1 else ttl0) in ttl_duration ttl)"

text \<open>
  Every refresh delay the client arms for a server-given ttl is at least one second, equals the
  ttl when that is positive, and fits the signed 64 bits of a \<open>time.Duration\<close> without wrapping.
\<close>

theorem refresh_delay_bounds:
  "second \<le> refresh_delay (ttl_duration ttl) \<and> second \<le> sub_refresh_delay ttl
   \<and> refresh_delay (ttl_duration ttl) < 2 ^ 63 \<and> sub_refresh_delay ttl < 2 ^ 63
   \<and> (ttl \<noteq> 0 \<longrightarrow> refresh_delay (ttl_duration ttl) = ttl_duration ttl
        \<and> sub_refresh_delay ttl = ttl_duration ttl)"
proof -
  have le: "int (unat ttl) \<le> 4294967295"
    using uint_bounded[of ttl] by simp
  have pos: "ttl \<noteq> 0 \<Longrightarrow> 1 \<le> int (unat ttl)"
    by (metis One_nat_def Suc_leI of_nat_1 of_nat_le_iff unat_gt_0)
  show ?thesis
    using le pos by (cases "ttl = 0")
      (auto simp: refresh_delay_def sub_refresh_delay_def ttl_duration_def second_def)
qed

theorem refresh_delay_bounds_witness:
  "refresh_delay (ttl_duration 0) = second \<and> refresh_delay (ttl_duration 25) = 25 * second"
  using refresh_delay_bounds[of 25] by (simp add: ttl_duration_def refresh_delay_def second_def)

end
