(* ===== verification/TagsFilter.thy ===== *)
theory TagsFilter
  imports Protocol
begin

text \<open>
  The tag-filter builders of \<^verbatim>\<open>filter.go\<close>. A \<open>FilterNode\<close> wraps the tree that is sent to the
  server, so the tree itself is the model's value. \<open>logicalFilter\<close> dereferences its arguments,
  a nil one panics (\<open>None\<close>). The server's evaluation of a filter is not part of the repository;
  what is proved is that a filter reaches it unambiguously: \<open>read_filter\<close>, which looks only at
  the transmitted tree, recovers the expression the helpers were called with.
\<close>

section \<open>The builders\<close>

definition leafFilter :: "string \<Rightarrow> string \<Rightarrow> string \<Rightarrow> string list \<Rightarrow> pb_filter" where
  "leafFilter key cmp val vals = PbFilter [] key cmp val vals []"

fun filter_children :: "pb_filter option list \<Rightarrow> pb_filter list option" where
  "filter_children [] = Some []"
| "filter_children (n # ns) = (case n of
     None \<Rightarrow> None
   | Some x \<Rightarrow> (case filter_children ns of None \<Rightarrow> None | Some xs \<Rightarrow> Some (x # xs)))"

definition logicalFilter :: "string \<Rightarrow> pb_filter option list \<Rightarrow> pb_filter option" where
  "logicalFilter op nodes = (case filter_children nodes of
     None \<Rightarrow> None | Some children \<Rightarrow> Some (PbFilter op [] [] [] [] children))"

definition FilterEq :: "string \<Rightarrow> string \<Rightarrow> pb_filter" where
  "FilterEq key val = leafFilter key ''eq'' val []"
definition FilterNeq :: "string \<Rightarrow> string \<Rightarrow> pb_filter" where
  "FilterNeq key val = leafFilter key ''neq'' val []"
definition FilterIn :: "string \<Rightarrow> string list \<Rightarrow> pb_filter" where
  "FilterIn key vals = leafFilter key ''in'' [] vals"
definition FilterNin :: "string \<Rightarrow> string list \<Rightarrow> pb_filter" where
  "FilterNin key vals = leafFilter key ''nin'' [] vals"
definition FilterExists :: "string \<Rightarrow> pb_filter" where
  "FilterExists key = leafFilter key ''ex'' [] []"
definition FilterNotExists :: "string \<Rightarrow> pb_filter" where
  "FilterNotExists key = leafFilter key ''nex'' [] []"
definition FilterStartsWith :: "string \<Rightarrow> string \<Rightarrow> pb_filter" where
  "FilterStartsWith key val = leafFilter key ''sw'' val []"
definition FilterEndsWith :: "string \<Rightarrow> string \<Rightarrow> pb_filter" where
  "FilterEndsWith key val = leafFilter key ''ew'' val []"
definition FilterContains :: "string \<Rightarrow> string \<Rightarrow> pb_filter" where
  "FilterContains key val = leafFilter key ''ct'' val []"
definition FilterGt :: "string \<Rightarrow> string \<Rightarrow> pb_filter" where
  "FilterGt key val = leafFilter key ''gt'' val []"
definition FilterGte :: "string \<Rightarrow> string \<Rightarrow> pb_filter" where
  "FilterGte key val = leafFilter key ''gte'' val []"
definition FilterLt :: "string \<Rightarrow> string \<Rightarrow> pb_filter" where
  "FilterLt key val = leafFilter key ''lt'' val []"
definition FilterLte :: "string \<Rightarrow> string \<Rightarrow> pb_filter" where
  "FilterLte key val = leafFilter key ''lte'' val []"
definition FilterAnd :: "pb_filter option list \<Rightarrow> pb_filter option" where
  "FilterAnd nodes = logicalFilter ''and'' nodes"
definition FilterOr :: "pb_filter option list \<Rightarrow> pb_filter option" where
  "FilterOr nodes = logicalFilter ''or'' nodes"
definition FilterNot :: "pb_filter option \<Rightarrow> pb_filter option" where
  "FilterNot node = logicalFilter ''not'' [node]"

lemmas filter_defs = leafFilter_def logicalFilter_def FilterEq_def FilterNeq_def FilterIn_def
  FilterNin_def FilterExists_def FilterNotExists_def FilterStartsWith_def FilterEndsWith_def
  FilterContains_def FilterGt_def FilterGte_def FilterLt_def FilterLte_def FilterAnd_def
  FilterOr_def FilterNot_def

lemma filter_children_Some: "filter_children (map Some xs) = Some xs"
  by (induction xs) auto

lemma filter_children_nil: "None \<in> set ns \<Longrightarrow> filter_children ns = None"
  by (induction ns) (auto split: option.splits)

section \<open>Expressions, and what their trees say\<close>

datatype cmp_op = Eq | Neq | StartsWith | EndsWith | Contains | Gt | Gte | Lt | Lte

datatype filter_expr =
    Cmp cmp_op string string
  | In string "string list"
  | Nin string "string list"
  | Exists string
  | NotExists string
  | And "filter_expr list"
  | Or "filter_expr list"
  | Not filter_expr

fun build_cmp :: "cmp_op \<Rightarrow> string \<Rightarrow> string \<Rightarrow> pb_filter" where
  "build_cmp Eq k v = FilterEq k v"
| "build_cmp Neq k v = FilterNeq k v"
| "build_cmp StartsWith k v = FilterStartsWith k v"
| "build_cmp EndsWith k v = FilterEndsWith k v"
| "build_cmp Contains k v = FilterContains k v"
| "build_cmp Gt k v = FilterGt k v"
| "build_cmp Gte k v = FilterGte k v"
| "build_cmp Lt k v = FilterLt k v"
| "build_cmp Lte k v = FilterLte k v"

text \<open>The tree the helpers build for an expression.\<close>

fun build :: "filter_expr \<Rightarrow> pb_filter option" where
  "build (Cmp c k v) = Some (build_cmp c k v)"
| "build (In k vs) = Some (FilterIn k vs)"
| "build (Nin k vs) = Some (FilterNin k vs)"
| "build (Exists k) = Some (FilterExists k)"
| "build (NotExists k) = Some (FilterNotExists k)"
| "build (And es) = FilterAnd (map build es)"
| "build (Or es) = FilterOr (map build es)"
| "build (Not e) = FilterNot (build e)"

definition read_cmp :: "string \<Rightarrow> cmp_op option" where
  "read_cmp c = map_of [(''eq'', Eq), (''neq'', Neq), (''sw'', StartsWith), (''ew'', EndsWith),
     (''ct'', Contains), (''gt'', Gt), (''gte'', Gte), (''lt'', Lt), (''lte'', Lte)] c"

fun read_filter :: "pb_filter \<Rightarrow> filter_expr option"
and read_filters :: "pb_filter list \<Rightarrow> filter_expr list option" where
  "read_filter (PbFilter op k c v vs ns) =
    (if op = [] then
       (if c = ''in'' then Some (In k vs) else if c = ''nin'' then Some (Nin k vs)
        else if c = ''ex'' then Some (Exists k) else if c = ''nex'' then Some (NotExists k)
        else map_option (\<lambda>x. Cmp x k v) (read_cmp c))
     else if op = ''and'' then map_option And (read_filters ns)
     else if op = ''or'' then map_option Or (read_filters ns)
     else if op = ''not'' then
       (case read_filters ns of Some [e] \<Rightarrow> Some (Not e) | _ \<Rightarrow> None)
     else None)"
| "read_filters [] = Some []"
| "read_filters (n # ns) = (case read_filter n of
     None \<Rightarrow> None
   | Some e \<Rightarrow> (case read_filters ns of None \<Rightarrow> None | Some es \<Rightarrow> Some (e # es)))"

lemma read_build_cmp: "read_filter (build_cmp c k v) = Some (Cmp c k v)"
  by (cases c) (simp_all add: filter_defs read_cmp_def)

lemma read_build_children:
  assumes "\<And>e. e \<in> set es \<Longrightarrow> \<exists>t. build e = Some t \<and> read_filter t = Some e"
  shows "\<exists>ts. filter_children (map build es) = Some ts \<and> read_filters ts = Some es"
  using assms
proof (induction es)
  case (Cons e es)
  then obtain t ts where "build e = Some t" "read_filter t = Some e"
    "filter_children (map build es) = Some ts" "read_filters ts = Some es"
    by (metis list.set_intros)
  then show ?case by simp
qed simp

lemma read_build_ex: "\<exists>t. build e = Some t \<and> read_filter t = Some e"
proof (induction e)
  case (Cmp c k v)
  then show ?case by (simp add: read_build_cmp)
next
  case (And es)
  then show ?case using read_build_children[of es] by (auto simp: filter_defs)
next
  case (Or es)
  then show ?case using read_build_children[of es] by (auto simp: filter_defs)
qed (auto simp: filter_defs)

text \<open>C36: the filter helpers never panic on filters they built themselves, and the tree sent to the
  server determines the expression: reading it back gives exactly the operators, keys, values and
  nesting the application wrote.\<close>

theorem filter_roundtrip: "Option.bind (build e) read_filter = Some e"
  using read_build_ex[of e] by auto

end
