(* ===== verification/CbQueue.thy ===== *)
theory CbQueue
  imports Errors
begin

text \<open>
  The callback queue of \<^verbatim>\<open>queue.go\<close>: a singly linked list of callbacks with a head and a tail
  pointer, a close marker (a nil callback), a notification channel of capacity one, and the
  dispatcher goroutine that runs the callbacks.

  The linked list is modelled as it is, as nodes in a store; \<open>qlist\<close> reads the callbacks off it and
  \<open>queue_inv\<close> is the representation invariant. The interface the rest of the client relies on is
  the locale \<open>callback_queue\<close>; its interpretation shows that the linked implementation provides it.

  A callback's time stamp is left out: every callback the client pushes ignores its delay.
\<close>

section \<open>State\<close>

datatype 'f asyncCB = AsyncCB (cb_fn: "'f option") (cb_next: "nat option")

text \<open>What the dispatcher goroutine is doing.\<close>

datatype 'f dispatcher = Looping | Waiting | Running 'f | Stopped

record 'f cbq =
  q_nodes :: "nat \<Rightarrow> 'f asyncCB"
  q_fresh :: nat
  q_head :: "nat option"
  q_tail :: "nat option"
  q_closed :: bool
  q_notify :: bool
  q_close_ch :: bool
  q_disp :: "'f dispatcher"

definition new_queue :: "'f cbq" where
  "new_queue = \<lparr>q_nodes = (\<lambda>_. AsyncCB None None), q_fresh = 0, q_head = None, q_tail = None,
     q_closed = False, q_notify = False, q_close_ch = False, q_disp = Looping\<rparr>"

section \<open>Operations\<close>

text \<open>\<open>pushOrClose f close\<close>: \<open>None\<close> is the panic on a nil callback that is not a close.\<close>

definition pushOrClose :: "'f option \<Rightarrow> bool \<Rightarrow> 'f cbq \<Rightarrow> bool option \<times> 'f cbq" where
  "pushOrClose f close q =
    (if q_closed q then (Some False, q)
     else if \<not> close \<and> f = None then (None, q)
     else
       let cb = q_fresh q;
           nodes = (q_nodes q)(cb := AsyncCB f None);
           q1 = q\<lparr>q_nodes := nodes, q_fresh := Suc cb\<rparr>;
           q2 = (case q_tail q of
                   Some t \<Rightarrow> q1\<lparr>q_nodes := nodes(t := AsyncCB (cb_fn (nodes t)) (Some cb))\<rparr>
                 | None \<Rightarrow> q1\<lparr>q_head := Some cb\<rparr>);
           q3 = q2\<lparr>q_tail := Some cb\<rparr>;
           q4 = (if close then q3\<lparr>q_closed := True\<rparr> else q3)
       in (Some True, q4\<lparr>q_notify := True\<rparr>))"

definition push :: "'f \<Rightarrow> 'f cbq \<Rightarrow> bool \<times> 'f cbq" where
  "push f q = (case pushOrClose (Some f) False q of (r, q') \<Rightarrow> (r = Some True, q'))"

text \<open>\<open>close\<close> without its wait: the wait is for \<open>q_close_ch\<close>.\<close>

definition close_queue :: "'f cbq \<Rightarrow> 'f cbq" where
  "close_queue q = snd (pushOrClose None True q)"

text \<open>The dispatcher's lock hold: take the head off.\<close>

definition take_head :: "'f cbq \<Rightarrow> 'f asyncCB option \<times> 'f cbq" where
  "take_head q = (case q_head q of
     None \<Rightarrow> (None, q)
   | Some c \<Rightarrow>
       let cur = q_nodes q c;
           q1 = q\<lparr>q_head := cb_next cur\<rparr>;
           q2 = (if q_tail q = Some c then q1\<lparr>q_tail := None\<rparr> else q1)
       in (Some cur, q2))"

text \<open>
  One step of \<open>dispatch\<close>: at the loop's start it takes the head and then waits, stops or runs the
  callback; when waiting it goes on as soon as it is notified; a callback that returns brings it
  back to the start.
\<close>

definition dispatch_step :: "'f cbq \<Rightarrow> 'f cbq" where
  "dispatch_step q = (case q_disp q of
     Looping \<Rightarrow>
       (case take_head q of
          (None, q') \<Rightarrow> q'\<lparr>q_disp := Waiting\<rparr>
        | (Some cur, q') \<Rightarrow> (case cb_fn cur of
              None \<Rightarrow> q'\<lparr>q_close_ch := True, q_disp := Stopped\<rparr>
            | Some f \<Rightarrow> q'\<lparr>q_disp := Running f\<rparr>))
   | Waiting \<Rightarrow> if q_notify q then q\<lparr>q_notify := False, q_disp := Looping\<rparr> else q
   | Running f \<Rightarrow> q\<lparr>q_disp := Looping\<rparr>
   | Stopped \<Rightarrow> q)"

section \<open>The list a queue represents\<close>

text \<open>The addresses reached from a node: the fuel is the number of nodes ever allocated.\<close>

fun follow :: "nat \<Rightarrow> (nat \<Rightarrow> 'f asyncCB) \<Rightarrow> nat option \<Rightarrow> nat list" where
  "follow 0 nodes p = []"
| "follow (Suc n) nodes None = []"
| "follow (Suc n) nodes (Some a) = a # follow n nodes (cb_next (nodes a))"

definition qlist :: "'f cbq \<Rightarrow> 'f option list" where
  "qlist q = map (cb_fn \<circ> q_nodes q) (follow (q_fresh q) (q_nodes q) (q_head q))"

text \<open>\<open>linked nodes p as\<close>: from pointer \<open>p\<close> the next pointers lead through \<open>as\<close> to nil.\<close>

fun linked :: "(nat \<Rightarrow> 'f asyncCB) \<Rightarrow> nat option \<Rightarrow> nat list \<Rightarrow> bool" where
  "linked nodes p [] \<longleftrightarrow> p = None"
| "linked nodes p (a # as) \<longleftrightarrow> p = Some a \<and> linked nodes (cb_next (nodes a)) as"

definition queue_rep :: "'f cbq \<Rightarrow> nat list \<Rightarrow> bool" where
  "queue_rep q as \<longleftrightarrow> linked (q_nodes q) (q_head q) as \<and> distinct as
     \<and> (\<forall>a \<in> set as. a < q_fresh q)
     \<and> q_tail q = (if as = [] then None else Some (last as))"

definition queue_inv :: "'f cbq \<Rightarrow> bool" where
  "queue_inv q \<longleftrightarrow> (\<exists>as. queue_rep q as)"

lemma linked_upd: "a \<notin> set as \<Longrightarrow> linked (nodes(a := x)) p as = linked nodes p as"
  by (induction as arbitrary: p) auto

lemma linked_snoc:
  "linked nodes p as \<Longrightarrow> as \<noteq> [] \<Longrightarrow> distinct as \<Longrightarrow> c \<notin> set as \<Longrightarrow> cb_next (nodes c) = None
    \<Longrightarrow> linked (nodes(last as := AsyncCB (cb_fn (nodes (last as))) (Some c))) p (as @ [c])"
proof (induction as arbitrary: p)
  case (Cons a as)
  then show ?case by (cases "as = []") (auto simp: linked_upd)
qed simp

lemma follow_linked: "linked nodes p as \<Longrightarrow> length as \<le> n \<Longrightarrow> follow n nodes p = as"
proof (induction as arbitrary: n p)
  case Nil
  then show ?case by (cases n) auto
next
  case (Cons a as)
  then show ?case by (cases n) auto
qed

lemma rep_length: "queue_rep q as \<Longrightarrow> length as \<le> q_fresh q"
proof -
  assume r: "queue_rep q as"
  then have "set as \<subseteq> {..<q_fresh q}" and "card (set as) = length as"
    by (auto simp: queue_rep_def distinct_card)
  then show ?thesis using card_mono[of "{..<q_fresh q}" "set as"] by simp
qed

lemma qlist_rep: "queue_rep q as \<Longrightarrow> qlist q = map (cb_fn \<circ> q_nodes q) as"
  using follow_linked[OF _ rep_length] by (auto simp: qlist_def queue_rep_def)

lemma queue_rep_new: "queue_rep new_queue []"
  by (simp add: queue_rep_def new_queue_def)

lemma qlist_new [simp]: "qlist new_queue = []"
  using qlist_rep[OF queue_rep_new] by simp

text \<open>Fields outside the list do not matter for it.\<close>

lemma queue_rep_frame [simp]:
  "queue_rep (q\<lparr>q_closed := b\<rparr>) as = queue_rep q as"
  "queue_rep (q\<lparr>q_notify := b\<rparr>) as = queue_rep q as"
  "queue_rep (q\<lparr>q_close_ch := b\<rparr>) as = queue_rep q as"
  "queue_rep (q\<lparr>q_disp := d\<rparr>) as = queue_rep q as"
  by (simp_all add: queue_rep_def)

lemma queue_inv_frame [simp]:
  "queue_inv (q\<lparr>q_closed := b\<rparr>) = queue_inv q" "queue_inv (q\<lparr>q_notify := b\<rparr>) = queue_inv q"
  "queue_inv (q\<lparr>q_close_ch := b\<rparr>) = queue_inv q" "queue_inv (q\<lparr>q_disp := d\<rparr>) = queue_inv q"
  by (simp_all add: queue_inv_def)

lemma qlist_frame [simp]:
  "qlist (q\<lparr>q_closed := b\<rparr>) = qlist q" "qlist (q\<lparr>q_notify := b\<rparr>) = qlist q"
  "qlist (q\<lparr>q_close_ch := b\<rparr>) = qlist q" "qlist (q\<lparr>q_disp := d\<rparr>) = qlist q"
  by (simp_all add: qlist_def)

text \<open>The heart of \<open>pushOrClose\<close>: a new node behind the tail.\<close>

lemma pushOrClose_rep:
  assumes "queue_rep q as" "\<not> q_closed q" "close \<or> f \<noteq> None"
  shows "fst (pushOrClose f close q) = Some True
    \<and> queue_rep (snd (pushOrClose f close q)) (as @ [q_fresh q])
    \<and> qlist (snd (pushOrClose f close q)) = qlist q @ [f]"
proof -
  let ?c = "q_fresh q" and ?q' = "snd (pushOrClose f close q)"
  have new: "?c \<notin> set as" using assms(1) by (auto simp: queue_rep_def)
  have rep: "queue_rep ?q' (as @ [?c]) \<and> map (cb_fn \<circ> q_nodes ?q') as = map (cb_fn \<circ> q_nodes q) as
      \<and> cb_fn (q_nodes ?q' ?c) = f"
  proof (cases "as = []")
    case True
    then show ?thesis using assms by (auto simp: queue_rep_def pushOrClose_def Let_def)
  next
    case False
    let ?n = "(q_nodes q)(?c := AsyncCB f None)"
    have "linked ?n (q_head q) as"
      using assms(1) new by (simp add: queue_rep_def linked_upd)
    with False new assms(1)
    have "linked (?n(last as := AsyncCB (cb_fn (?n (last as))) (Some ?c))) (q_head q) (as @ [?c])"
      by (intro linked_snoc) (auto simp: queue_rep_def)
    moreover have "last as \<noteq> ?c"
      using last_in_set[OF False] new by metis
    moreover have "q_tail q = Some (last as)"
      using False assms(1) by (simp add: queue_rep_def)
    ultimately show ?thesis
      using False assms new by (auto simp: queue_rep_def pushOrClose_def Let_def less_Suc_eq)
  qed
  then show ?thesis
    using assms qlist_rep[OF assms(1)] qlist_rep[of ?q' "as @ [?c]"]
    by (simp add: pushOrClose_def Let_def)
qed

lemma pushOrClose_closed: "q_closed q \<Longrightarrow> pushOrClose f close q = (Some False, q)"
  by (simp add: pushOrClose_def)

lemma take_head_rep:
  assumes "queue_rep q as"
  shows "(case as of
      [] \<Rightarrow> take_head q = (None, q)
    | a # as' \<Rightarrow> fst (take_head q) = Some (q_nodes q a) \<and> queue_rep (snd (take_head q)) as')
    \<and> q_nodes (snd (take_head q)) = q_nodes q \<and> q_closed (snd (take_head q)) = q_closed q
    \<and> q_notify (snd (take_head q)) = q_notify q \<and> q_disp (snd (take_head q)) = q_disp q
    \<and> q_close_ch (snd (take_head q)) = q_close_ch q"
proof (cases as)
  case Nil
  then show ?thesis using assms by (simp add: queue_rep_def take_head_def)
next
  case (Cons a as')
  have "a = last (a # as') \<longleftrightarrow> as' = []"
    using assms Cons by (auto simp: queue_rep_def)
  then show ?thesis using assms Cons
    by (auto simp: queue_rep_def take_head_def Let_def)
qed

section \<open>The interface\<close>

datatype 'f queue_op = Push 'f | Close | Take

text \<open>A sequence of operations by any goroutines: what was accepted and what was taken, in order.\<close>

fun run_ops :: "('f \<Rightarrow> 'q \<Rightarrow> bool \<times> 'q) \<Rightarrow> ('q \<Rightarrow> 'q) \<Rightarrow> ('q \<Rightarrow> 'f option option \<times> 'q)
    \<Rightarrow> ('q \<Rightarrow> bool) \<Rightarrow> 'f queue_op list \<Rightarrow> 'q \<Rightarrow> 'f option list \<times> 'f option list \<times> 'q" where
  "run_ops put shut poll is_closed [] q = ([], [], q)"
| "run_ops put shut poll is_closed (Push f # ops) q =
    (case put f q of (b, q') \<Rightarrow> case run_ops put shut poll is_closed ops q' of (acc, out, q'') \<Rightarrow>
       ((if b then Some f # acc else acc), out, q''))"
| "run_ops put shut poll is_closed (Close # ops) q =
    (case run_ops put shut poll is_closed ops (shut q) of (acc, out, q'') \<Rightarrow>
       ((if is_closed q then acc else None # acc), out, q''))"
| "run_ops put shut poll is_closed (Take # ops) q =
    (case poll q of (x, q') \<Rightarrow> case run_ops put shut poll is_closed ops q' of (acc, out, q'') \<Rightarrow>
       (acc, (case x of None \<Rightarrow> out | Some y \<Rightarrow> y # out), q''))"

text \<open>
  What the client relies on: an accepted callback goes to the end, the dispatcher takes from the
  front, nothing is accepted after a close. \<open>contents\<close> lists what is queued, \<open>None\<close> being the
  close marker.
\<close>

locale callback_queue =
  fixes contents :: "'q \<Rightarrow> 'f option list"
    and invar :: "'q \<Rightarrow> bool"
    and is_closed :: "'q \<Rightarrow> bool"
    and put :: "'f \<Rightarrow> 'q \<Rightarrow> bool \<times> 'q"
    and shut :: "'q \<Rightarrow> 'q"
    and poll :: "'q \<Rightarrow> 'f option option \<times> 'q"
  assumes put_open: "invar q \<Longrightarrow> \<not> is_closed q \<Longrightarrow> fst (put f q)
      \<and> contents (snd (put f q)) = contents q @ [Some f] \<and> \<not> is_closed (snd (put f q))"
    and put_closed: "is_closed q \<Longrightarrow> put f q = (False, q)"
    and shut_open: "invar q \<Longrightarrow> \<not> is_closed q \<Longrightarrow> contents (shut q) = contents q @ [None] \<and> is_closed (shut q)"
    and shut_closed: "is_closed q \<Longrightarrow> shut q = q"
    and poll_empty: "invar q \<Longrightarrow> contents q = [] \<Longrightarrow> poll q = (None, q)"
    and poll_cons: "invar q \<Longrightarrow> contents q = x # xs \<Longrightarrow> fst (poll q) = Some x
      \<and> contents (snd (poll q)) = xs \<and> is_closed (snd (poll q)) = is_closed q"
    and invar_put: "invar q \<Longrightarrow> invar (snd (put f q))"
    and invar_shut: "invar q \<Longrightarrow> invar (shut q)"
    and invar_poll: "invar q \<Longrightarrow> invar (snd (poll q))"
begin

lemma run_ops_fifo:
  "invar q \<Longrightarrow> run_ops put shut poll is_closed ops q = (acc, out, q') \<Longrightarrow> contents q @ acc = out @ contents q' \<and> invar q'"
proof (induction ops arbitrary: q acc out)
  case (Cons op ops)
  show ?case
  proof (cases op)
    case (Push f)
    then show ?thesis using Cons put_open[of q f] put_closed[of q f] invar_put[of q f]
      by (cases "is_closed q") (fastforce split: prod.splits)+
  next
    case Close
    then show ?thesis using Cons shut_open[of q] shut_closed[of q] invar_shut[of q]
      by (cases "is_closed q") (fastforce split: prod.splits)+
  next
    case Take
    then show ?thesis using Cons poll_empty[of q] poll_cons[of q] invar_poll[of q]
      by (cases "contents q") (fastforce split: prod.splits)+
  qed
qed simp

text \<open>After a close nothing is accepted.\<close>

lemma run_ops_closed:
  "invar q \<Longrightarrow> is_closed q \<Longrightarrow> run_ops put shut poll is_closed ops q = (acc, out, q') \<Longrightarrow> acc = []"
proof (induction ops arbitrary: q acc out)
  case (Cons op ops)
  show ?case
  proof (cases op)
    case (Push f)
    then show ?thesis using Cons by (auto simp: put_closed split: prod.splits)
  next
    case Close
    then show ?thesis using Cons by (auto simp: shut_closed split: prod.splits)
  next
    case Take
    have "is_closed (snd (poll q))"
      using poll_empty[of q] poll_cons[of q] Cons.prems by (cases "contents q") auto
    with Take show ?thesis using Cons invar_poll[of q] by (auto split: prod.splits)
  qed
qed simp

end

lemma queue_inv_push: "queue_inv q \<Longrightarrow> queue_inv (snd (push f q))"
  using pushOrClose_rep[of q _ False "Some f"] pushOrClose_closed[of q "Some f" False]
  by (cases "q_closed q") (auto simp: push_def queue_inv_def split_beta)

lemma queue_inv_close: "queue_inv q \<Longrightarrow> queue_inv (close_queue q)"
  using pushOrClose_rep[of q _ True None] pushOrClose_closed[of q None True]
  by (cases "q_closed q") (auto simp: close_queue_def queue_inv_def)

lemma queue_inv_take: "queue_inv q \<Longrightarrow> queue_inv (snd (take_head q))"
proof -
  assume "queue_inv q"
  then obtain as where r: "queue_rep q as" by (auto simp: queue_inv_def)
  show ?thesis
    using take_head_rep[OF r] r by (cases as) (auto simp: queue_inv_def)
qed

text \<open>\<open>poll\<close> as the dispatcher sees it: the callback of the node it took.\<close>

definition poll_head :: "'f cbq \<Rightarrow> 'f option option \<times> 'f cbq" where
  "poll_head q = (case take_head q of (c, q') \<Rightarrow> (map_option cb_fn c, q'))"

lemma qlist_take:
  assumes "queue_inv q"
  shows "fst (poll_head q) = (case qlist q of [] \<Rightarrow> None | x # _ \<Rightarrow> Some x)
    \<and> qlist (snd (poll_head q)) = tl (qlist q)"
proof -
  obtain as where r: "queue_rep q as" using assms by (auto simp: queue_inv_def)
  note t = take_head_rep[OF r] and l = qlist_rep[OF r]
  show ?thesis
  proof (cases as)
    case Nil
    then show ?thesis using t l by (simp add: poll_head_def)
  next
    case (Cons a as')
    then have "queue_rep (snd (take_head q)) as'" using t by simp
    from qlist_rep[OF this] Cons t l show ?thesis
      by (simp add: poll_head_def split_beta)
  qed
qed

interpretation cbq: callback_queue qlist queue_inv q_closed push close_queue poll_head
proof
  fix q :: "'a cbq" and f
  show "fst (push f q) \<and> qlist (snd (push f q)) = qlist q @ [Some f] \<and> \<not> q_closed (snd (push f q))"
    if i: "queue_inv q" "\<not> q_closed q"
  proof -
    obtain as where "queue_rep q as" using i by (auto simp: queue_inv_def)
    from pushOrClose_rep[OF this i(2), of False "Some f"] i(2) show ?thesis
      by (auto simp: push_def split_beta) (simp add: pushOrClose_def Let_def split: option.splits)
  qed
  show "push f q = (False, q)" if "q_closed q"
    using that by (simp add: push_def pushOrClose_def)
  show "qlist (close_queue q) = qlist q @ [None] \<and> q_closed (close_queue q)"
    if i: "queue_inv q" "\<not> q_closed q"
  proof -
    obtain as where "queue_rep q as" using i by (auto simp: queue_inv_def)
    from pushOrClose_rep[OF this i(2), of True None] i(2) show ?thesis
      by (auto simp: close_queue_def) (simp add: pushOrClose_def Let_def)
  qed
  show "close_queue q = q" if "q_closed q"
    using that by (simp add: close_queue_def pushOrClose_def)
  show "poll_head q = (None, q)" if i: "queue_inv q" "qlist q = []"
  proof -
    obtain as where r: "queue_rep q as" using i(1) unfolding queue_inv_def by blast
    with i qlist_rep[OF r] take_head_rep[OF r] show ?thesis by (simp add: poll_head_def)
  qed
  show "fst (poll_head q) = Some x \<and> qlist (snd (poll_head q)) = xs
      \<and> q_closed (snd (poll_head q)) = q_closed q" if i: "queue_inv q" "qlist q = x # xs" for x xs
  proof -
    obtain as where r: "queue_rep q as" using i(1) unfolding queue_inv_def by blast
    with i qlist_take[of q] take_head_rep[OF r] show ?thesis by (simp add: poll_head_def split_beta)
  qed
  show "queue_inv (snd (push f q))" if "queue_inv q" using that by (rule queue_inv_push)
  show "queue_inv (close_queue q)" if "queue_inv q" using that by (rule queue_inv_close)
  show "queue_inv (snd (poll_head q))" if "queue_inv q"
    using queue_inv_take[OF that] by (simp add: poll_head_def split_beta)
qed

text \<open>
  C29: whatever goroutines push, close or take in whatever order, the callbacks come out in the order
  in which they were accepted, none lost and none twice; and a queue that is closed accepts nothing.
\<close>

theorem queue_fifo:
  assumes "run_ops push close_queue poll_head q_closed ops new_queue = (accepted, taken, q)"
  shows "accepted = taken @ qlist q
    \<and> (\<forall>ops' acc' out' q'. q_closed q \<and>
         run_ops push close_queue poll_head q_closed ops' q = (acc', out', q') \<longrightarrow> acc' = [])"
proof -
  have "queue_inv new_queue" using queue_rep_new by (auto simp: queue_inv_def)
  from cbq.run_ops_fifo[OF this assms] have "accepted = taken @ qlist q" "queue_inv q" by simp_all
  then show ?thesis using cbq.run_ops_closed by blast
qed

theorem queue_fifo_witness:
  "\<exists>q. run_ops push close_queue poll_head q_closed
      [Push (1::nat), Push 2, Take, Close, Push 3, Take] new_queue = ([Some 1, Some 2, None], [Some 1, Some 2], q)
    \<and> qlist q = [None]"
proof -
  obtain a b q where r: "run_ops push close_queue poll_head q_closed
      [Push (1::nat), Push 2, Take, Close, Push 3, Take] new_queue = (a, b, q)"
    by (metis prod_cases3)
  moreover from r have "a = [Some 1, Some 2, None] \<and> b = [Some 1, Some 2]"
    by (auto simp: push_def close_queue_def pushOrClose_def new_queue_def poll_head_def take_head_def Let_def)
  ultimately show ?thesis using queue_fifo[OF r] by auto
qed

section \<open>The dispatcher never sleeps over work\<close>

text \<open>What other goroutines do to the queue, and the dispatcher's own step.\<close>

inductive queue_step :: "'f cbq \<Rightarrow> 'f cbq \<Rightarrow> bool" where
  step_push: "queue_step q (snd (push f q))"
| step_close: "queue_step q (close_queue q)"
| step_dispatch: "queue_step q (dispatch_step q)"

definition queue_init :: "'f cbq \<Rightarrow> bool" where
  "queue_init q \<longleftrightarrow> q = new_queue"

definition no_marker :: "'f option list \<Rightarrow> bool" where
  "no_marker xs \<longleftrightarrow> None \<notin> set xs"

definition disp_inv :: "'f cbq \<Rightarrow> bool" where
  "disp_inv q \<longleftrightarrow> queue_inv q
     \<and> (q_disp q = Waiting \<and> qlist q \<noteq> [] \<longrightarrow> q_notify q)
     \<and> (\<not> q_closed q \<longrightarrow> no_marker (qlist q) \<and> \<not> q_close_ch q \<and> q_disp q \<noteq> Stopped)
     \<and> (q_closed q \<longrightarrow>
          (if q_close_ch q then qlist q = [] \<and> q_disp q = Stopped
           else q_disp q \<noteq> Stopped \<and> qlist q \<noteq> [] \<and> last (qlist q) = None \<and> no_marker (butlast (qlist q))))"

lemma disp_inv_new: "disp_inv new_queue"
  using queue_rep_new by (auto simp: disp_inv_def queue_inv_def no_marker_def) (auto simp: new_queue_def)

lemma new_queue_fields [simp]: "queue_inv new_queue" "\<not> q_closed new_queue"
  using disp_inv_new unfolding disp_inv_def by (blast, simp add: new_queue_def)

lemma pushOrClose_frame:
  "q_disp (snd (pushOrClose f c q)) = q_disp q" "q_close_ch (snd (pushOrClose f c q)) = q_close_ch q"
  "\<not> q_closed q \<Longrightarrow> c \<or> f \<noteq> None \<Longrightarrow> q_notify (snd (pushOrClose f c q))"
  "\<not> q_closed q \<Longrightarrow> c \<or> f \<noteq> None \<Longrightarrow> q_closed (snd (pushOrClose f c q)) = c"
  by (auto simp: pushOrClose_def Let_def split: option.splits)

lemma disp_inv_push:
  assumes "disp_inv q" shows "disp_inv (snd (push f q))"
proof (cases "q_closed q")
  case True
  then show ?thesis using assms by (simp add: cbq.put_closed)
next
  case False
  note p = cbq.put_open[of q f, OF _ False]
  have "q_disp (snd (push f q)) = q_disp q" "q_close_ch (snd (push f q)) = q_close_ch q"
    "q_notify (snd (push f q))"
    using False pushOrClose_frame[where f = "Some f" and c = False and q = q] by (auto simp: push_def split_beta)
  then show ?thesis using assms False p queue_inv_push[of q f]
    by (auto simp: disp_inv_def no_marker_def)
qed

lemma disp_inv_close:
  assumes "disp_inv q" shows "disp_inv (close_queue q)"
proof (cases "q_closed q")
  case True
  then show ?thesis using assms by (simp add: cbq.shut_closed)
next
  case False
  have "q_disp (close_queue q) = q_disp q" "q_close_ch (close_queue q) = q_close_ch q"
    "q_notify (close_queue q)"
    using False pushOrClose_frame[where f = None and c = True and q = q] by (auto simp: close_queue_def)
  then show ?thesis using assms False cbq.shut_open[of q] queue_inv_close[of q]
    by (auto simp: disp_inv_def no_marker_def)
qed

lemma dispatch_looping:
  assumes "queue_inv q" "q_disp q = Looping"
  shows "case qlist q of
      [] \<Rightarrow> dispatch_step q = q\<lparr>q_disp := Waiting\<rparr>
    | x # xs \<Rightarrow> qlist (dispatch_step q) = xs \<and> queue_inv (dispatch_step q)
        \<and> q_closed (dispatch_step q) = q_closed q \<and> q_notify (dispatch_step q) = q_notify q
        \<and> (case x of
             None \<Rightarrow> q_close_ch (dispatch_step q) \<and> q_disp (dispatch_step q) = Stopped
           | Some f \<Rightarrow> q_close_ch (dispatch_step q) = q_close_ch q \<and> q_disp (dispatch_step q) = Running f)"
proof -
  obtain as where r: "queue_rep q as" using assms by (auto simp: queue_inv_def)
  note t = take_head_rep[OF r] and l = qlist_rep[OF r]
  show ?thesis
  proof (cases as)
    case Nil
    then show ?thesis using t l assms by (simp add: dispatch_step_def)
  next
    case (Cons a as')
    obtain c q' where th: "take_head q = (c, q')" by (cases "take_head q")
    have "qlist q' = map (cb_fn \<circ> q_nodes q) as'" "queue_inv q'" "c = Some (q_nodes q a)"
      using t Cons qlist_rep[of q' as'] by (auto simp: th queue_inv_def)
    then show ?thesis using t l Cons assms th
      by (auto simp: dispatch_step_def split: option.splits)
  qed
qed

lemma disp_inv_dispatch:
  assumes "disp_inv q" shows "disp_inv (dispatch_step q)"
proof (cases "q_disp q")
  case Looping
  note d = dispatch_looping[OF _ Looping]
  show ?thesis
  proof (cases "qlist q")
    case Nil
    with d assms Looping show ?thesis
      by (auto simp: disp_inv_def no_marker_def split: if_splits)
  next
    case (Cons x xs)
    with d assms Looping show ?thesis
      by (cases x; cases xs rule: rev_cases)
         (auto simp: disp_inv_def no_marker_def butlast_append split: if_splits)
  qed
next
  case Waiting
  then show ?thesis using assms by (auto simp: dispatch_step_def disp_inv_def split: if_splits)
next
  case (Running f)
  then show ?thesis using assms by (auto simp: dispatch_step_def disp_inv_def split: if_splits)
next
  case Stopped
  then show ?thesis using assms by (simp add: dispatch_step_def)
qed

interpretation qsys: safe_system queue_init queue_step disp_inv
proof
  show "disp_inv q" if "queue_init q" for q :: "'a cbq"
    using that disp_inv_new by (simp add: queue_init_def)
  show "disp_inv q'" if "disp_inv q" "queue_step q q'" for q q' :: "'a cbq"
    using that(2,1) by (induction rule: queue_step.induct)
      (auto intro: disp_inv_push disp_inv_close disp_inv_dispatch)
qed

text \<open>The dispatcher alone: \<open>n\<close> steps, and the callbacks it started meanwhile.\<close>

fun dispatch_n :: "nat \<Rightarrow> 'f cbq \<Rightarrow> 'f list \<times> 'f cbq" where
  "dispatch_n 0 q = ([], q)"
| "dispatch_n (Suc n) q =
    (let q' = dispatch_step q;
         started = (case (q_disp q, q_disp q') of (Looping, Running f) \<Rightarrow> [f] | _ \<Rightarrow> []);
         rest = dispatch_n n q'
     in (started @ fst rest, snd rest))"

lemma dispatch_n_add:
  "dispatch_n (m + n) q = (fst (dispatch_n m q) @ fst (dispatch_n n (snd (dispatch_n m q))),
     snd (dispatch_n n (snd (dispatch_n m q))))"
  by (induction m arbitrary: q) (simp_all add: Let_def)

text \<open>Unless stopped, the dispatcher is back at the start of its loop after one step, if there is work.\<close>

lemma dispatch_to_loop:
  assumes "disp_inv q" "qlist q \<noteq> []"
  shows "\<exists>n \<le> 1. fst (dispatch_n n q) = [] \<and> qlist (snd (dispatch_n n q)) = qlist q
    \<and> q_disp (snd (dispatch_n n q)) = Looping \<and> disp_inv (snd (dispatch_n n q))
    \<and> q_closed (snd (dispatch_n n q)) = q_closed q"
proof (cases "q_disp q = Looping")
  case True
  then show ?thesis using assms by (intro exI[of _ 0]) simp
next
  case False
  have "disp_inv (dispatch_step q)" using assms(1) by (rule disp_inv_dispatch)
  moreover have "q_disp q \<noteq> Stopped" using assms by (auto simp: disp_inv_def split: if_splits)
  ultimately show ?thesis
    using assms False by (intro exI[of _ 1]) (cases "q_disp q", auto simp: dispatch_step_def disp_inv_def)
qed

lemma dispatch_next:
  assumes "disp_inv q" "qlist q = x # xs"
  shows "\<exists>n \<le> 2. fst (dispatch_n n q) = (case x of None \<Rightarrow> [] | Some f \<Rightarrow> [f])
    \<and> qlist (snd (dispatch_n n q)) = xs \<and> disp_inv (snd (dispatch_n n q))
    \<and> q_closed (snd (dispatch_n n q)) = q_closed q"
proof -
  obtain n where n: "n \<le> 1" "fst (dispatch_n n q) = []" "qlist (snd (dispatch_n n q)) = x # xs"
    "q_disp (snd (dispatch_n n q)) = Looping" "disp_inv (snd (dispatch_n n q))"
    "q_closed (snd (dispatch_n n q)) = q_closed q"
    using dispatch_to_loop[OF assms(1)] assms(2) by auto
  let ?q = "snd (dispatch_n n q)"
  have qi: "queue_inv ?q" using n(5) by (simp add: disp_inv_def)
  have one: "fst (dispatch_n 1 ?q) = (case x of None \<Rightarrow> [] | Some f \<Rightarrow> [f])"
    "snd (dispatch_n 1 ?q) = dispatch_step ?q" "qlist (dispatch_step ?q) = xs"
    "q_closed (dispatch_step ?q) = q_closed q"
    using dispatch_looping[OF qi n(4)] n(3,4,6) by (auto split: option.splits)
  show ?thesis
    using n(1,2) one disp_inv_dispatch[OF n(5)]
    by (intro exI[of _ "n + 1"]) (simp only: dispatch_n_add[of n 1 q] fst_conv snd_conv, simp)
qed

lemma dispatch_all:
  "disp_inv q \<Longrightarrow> \<exists>n \<le> 2 * length (qlist q). fst (dispatch_n n q) = map the (filter (\<lambda>x. x \<noteq> None) (qlist q))
    \<and> qlist (snd (dispatch_n n q)) = [] \<and> disp_inv (snd (dispatch_n n q))
    \<and> q_closed (snd (dispatch_n n q)) = q_closed q"
proof (induction "qlist q" arbitrary: q)
  case Nil
  then show ?case by (intro exI[of _ 0]) simp
next
  case (Cons x xs)
  obtain n where n: "n \<le> 2" "fst (dispatch_n n q) = (case x of None \<Rightarrow> [] | Some f \<Rightarrow> [f])"
    "qlist (snd (dispatch_n n q)) = xs" "disp_inv (snd (dispatch_n n q))"
    "q_closed (snd (dispatch_n n q)) = q_closed q"
    using dispatch_next[OF Cons.prems Cons.hyps(2)[symmetric]] by auto
  obtain k where k: "k \<le> 2 * length xs"
    "fst (dispatch_n k (snd (dispatch_n n q))) = map the (filter (\<lambda>x. x \<noteq> None) xs)"
    "qlist (snd (dispatch_n k (snd (dispatch_n n q)))) = []"
    "disp_inv (snd (dispatch_n k (snd (dispatch_n n q))))"
    "q_closed (snd (dispatch_n k (snd (dispatch_n n q)))) = q_closed q"
    using Cons.hyps(1)[of "snd (dispatch_n n q)"] n by auto
  show ?case
    using n k Cons.hyps(2)[symmetric]
    by (intro exI[of _ "n + k"]) (auto simp: dispatch_n_add split: option.splits)
qed

text \<open>
  C30: no lost wake-up. In every reachable state of the queue, whatever the other goroutines did, the
  dispatcher left alone starts all queued callbacks, in order, within two steps each, and if the
  queue was closed it then stops and signals the closer, so \<open>close\<close> returns after everything
  pushed before it has run.
\<close>

theorem queue_drains:
  assumes "reach queue_init queue_step q"
  shows "\<exists>n \<le> 2 * length (qlist q).
      fst (dispatch_n n q) = map the (filter (\<lambda>x. x \<noteq> None) (qlist q))
    \<and> qlist (snd (dispatch_n n q)) = []
    \<and> (q_closed q \<longrightarrow> q_close_ch (snd (dispatch_n n q)))"
proof -
  from qsys.invariant[OF assms] dispatch_all[of q] obtain n where "n \<le> 2 * length (qlist q)"
    "fst (dispatch_n n q) = map the (filter (\<lambda>x. x \<noteq> None) (qlist q))"
    "qlist (snd (dispatch_n n q)) = []" "disp_inv (snd (dispatch_n n q))"
    "q_closed (snd (dispatch_n n q)) = q_closed q" by blast
  then show ?thesis by (intro exI[of _ n]) (auto simp: disp_inv_def split: if_splits)
qed

theorem queue_drains_witness:
  "\<exists>n \<le> 4. fst (dispatch_n n (close_queue (snd (push (7::nat) new_queue)))) = [7]
     \<and> q_close_ch (snd (dispatch_n n (close_queue (snd (push (7::nat) new_queue)))))"
proof -
  let ?q = "close_queue (snd (push (7::nat) new_queue))"
  have "reach queue_init queue_step ?q"
  proof (rule reach_step[where step = queue_step, OF _ step_close],
      rule reach_step[where step = queue_step, OF _ step_push], rule reach_init)
    show "queue_init new_queue" by (simp add: queue_init_def)
  qed
  moreover have "qlist ?q = [Some 7, None]" "q_closed ?q"
    using cbq.put_open[of new_queue "7::nat"] cbq.shut_open[of "snd (push (7::nat) new_queue)"]
      queue_inv_push[of new_queue "7::nat"] by simp_all
  ultimately show ?thesis using queue_drains[of ?q] by auto
qed

section \<open>The goroutine id\<close>

text \<open>
  \<open>goroutineID\<close> parses the header of the goroutine's stack trace, of which the runtime fills at
  most 64 bytes into the buffer; \<open>parse_uint\<close> is \<open>strconv.ParseUint(s, 10, 64)\<close>.
\<close>

fun digits_value :: "nat \<Rightarrow> string \<Rightarrow> nat option" where
  "digits_value acc [] = Some acc"
| "digits_value acc (c # cs) =
    (if 48 \<le> (of_char c :: nat) \<and> (of_char c :: nat) \<le> 57
     then digits_value (10 * acc + (of_char c - 48)) cs else None)"

definition parse_uint :: "string \<Rightarrow> nat option" where
  "parse_uint s = (if s = [] then None
     else case digits_value 0 s of None \<Rightarrow> None | Some n \<Rightarrow> if n < 2 ^ 64 then Some n else None)"

definition trim_prefix :: "string \<Rightarrow> string \<Rightarrow> string" where
  "trim_prefix p s = (if take (length p) s = p then drop (length p) s else s)"

definition goroutineID :: "string \<Rightarrow> nat" where
  "goroutineID stack =
    (let b = trim_prefix ''goroutine '' (take 64 stack);
         i = length (takeWhile (\<lambda>c. c \<noteq> CHR '' '') b)
     in if 0 < i \<and> i < length b
        then (case parse_uint (take i b) of Some gid \<Rightarrow> gid | None \<Rightarrow> 0)
        else 0)"

definition inDispatch :: "nat \<Rightarrow> nat \<Rightarrow> bool" where
  "inDispatch dispatcher caller \<longleftrightarrow> dispatcher \<noteq> 0 \<and> dispatcher = caller"

lemma of_char_digit: "n < 10 \<Longrightarrow> (of_char (char_of (48 + n) :: char) :: nat) = 48 + n"
  by (simp add: of_char_mod_256)

lemma digits_value_append:
  "digits_value acc xs = Some a \<Longrightarrow> digits_value acc (xs @ ys) = digits_value a ys"
  by (induction xs arbitrary: acc) (auto split: if_splits)

lemma digits_value_show: "digits_value 0 (show_nat n) = Some n"
proof (induction n rule: show_nat.induct)
  case (1 n)
  show ?case
  proof (cases "n < 10")
    case True
    then show ?thesis by (simp add: show_nat.simps[of n] of_char_digit)
  next
    case False
    have "n mod 10 < 10" by simp
    then have d: "digits_value (n div 10) [char_of (48 + n mod 10)] = Some (10 * (n div 10) + n mod 10)"
      using of_char_digit[of "n mod 10"] by simp
    have "digits_value 0 (show_nat n) = digits_value (n div 10) [char_of (48 + n mod 10)]"
      using False 1 digits_value_append by (simp add: show_nat.simps[of n])
    with d show ?thesis by (simp add: div_mult_mod_eq mult.commute)
  qed
qed

lemma show_nat_length: "n < 10 ^ k \<Longrightarrow> 0 < k \<Longrightarrow> length (show_nat n) \<le> k"
proof (induction n arbitrary: k rule: show_nat.induct)
  case (1 n)
  show ?case
  proof (cases "n < 10")
    case True
    then show ?thesis using "1.prems" by (simp add: show_nat.simps[of n])
  next
    case False
    obtain j where j: "k = Suc j" using "1.prems"(2) by (cases k) auto
    with "1.prems" False have k: "k = Suc j" "0 < j" by (auto intro: Nat.gr0I)
    then have "n div 10 < 10 ^ j" using "1.prems" by (simp add: less_mult_imp_div_less mult.commute)
    from "1.IH"[OF False this k(2)] False k show ?thesis by (simp add: show_nat.simps[of n])
  qed
qed

lemma show_nat_digits: "c \<in> set (show_nat n) \<Longrightarrow> c \<noteq> CHR '' ''"
proof (induction n rule: show_nat.induct)
  case (1 n)
  have digit: "m < 10 \<Longrightarrow> (char_of (48 + m) :: char) \<noteq> CHR '' ''" for m :: nat
  proof
    assume "m < 10" "(char_of (48 + m) :: char) = CHR '' ''"
    then have "48 + m = (of_char (CHR '' '') :: nat)" using of_char_digit[of m] by metis
    then show False by simp
  qed
  show ?case
  proof (cases "n < 10")
    case True
    then show ?thesis using "1.prems" digit[of n] by (simp add: show_nat.simps[of n])
  next
    case False
    have "n mod 10 < 10" by simp
    with False show ?thesis using 1 digit[of "n mod 10"] by (auto simp: show_nat.simps[of n])
  qed
qed

lemma show_nat_ne: "show_nat n \<noteq> []"
  by (simp add: show_nat.simps[of n])

lemma parse_uint_show: "n < 2 ^ 64 \<Longrightarrow> parse_uint (show_nat n) = Some n"
  by (simp add: parse_uint_def show_nat_ne digits_value_show)

text \<open>
  C40: the id is read back from the header for every id a goroutine can have, whatever follows it
  in the trace; so \<open>inDispatch\<close>, which compares two such ids, answers exactly whether the caller is
  the dispatcher goroutine.
\<close>

theorem goroutine_id_roundtrip:
  assumes "n < 2 ^ 64"
  shows "goroutineID (''goroutine '' @ show_nat n @ '' '' @ rest) = n"
proof -
  have len: "length (show_nat n) \<le> 20"
    using assms by (intro show_nat_length) auto
  define tail where "tail = take (53 - length (show_nat n)) rest"
  have "54 - length (show_nat n) = Suc (53 - length (show_nat n))" using len by simp
  then have "take 64 (''goroutine '' @ show_nat n @ '' '' @ rest) = ''goroutine '' @ show_nat n @ '' '' @ tail"
    using len by (simp add: tail_def)
  then have b: "trim_prefix ''goroutine '' (take 64 (''goroutine '' @ show_nat n @ '' '' @ rest))
      = show_nat n @ '' '' @ tail"
    by (simp add: trim_prefix_def)
  have "takeWhile (\<lambda>c. c \<noteq> CHR '' '') (show_nat n @ '' '' @ tail) = show_nat n"
    using show_nat_digits by (simp add: takeWhile_append2)
  then show ?thesis
    using show_nat_ne[of n] parse_uint_show[OF assms] by (simp only: goroutineID_def b Let_def) simp
qed

theorem goroutine_id_roundtrip_witness:
  "goroutineID ''goroutine 18 [running]:'' = 18"
proof -
  have "show_nat 18 = ''18''" by code_simp
  then show ?thesis using goroutine_id_roundtrip[of 18 "''[running]:''"] by simp
qed

end
