(* ===== verification/Transport.thy ===== *)
theory Transport
  imports Delta
begin

text \<open>
  The WebSocket transport of \<^verbatim>\<open>transport_websocket.go\<close>: the translation of a close frame into a
  disconnect, closing, the reader goroutine, \<open>Read\<close> and \<open>Write\<close>. The connection
  (\<^verbatim>\<open>github.com/gorilla/websocket\<close>), the JSON decoding of a close reason and the frame decoder are
  parameters; what the transport does to the connection is a log.
\<close>

section \<open>Close frames\<close>

text \<open>An error of \<open>ReadMessage\<close>: a close error with its code and text, or any other error.\<close>

datatype ws_error = CloseError int string | OtherReadError

text \<open>
  \<open>json_disconnect\<close> is \<open>json.Unmarshal\<close> into a disconnect (\<open>None\<close>: it failed), \<open>too_big\<close> the
  constant \<open>websocket.CloseMessageTooBig\<close>.
\<close>

definition extractDisconnectWebsocket ::
  "(string \<Rightarrow> disconnect option) \<Rightarrow> u32 \<Rightarrow> ws_error option \<Rightarrow> disconnect option" where
  "extractDisconnectWebsocket json_disconnect too_big err = (case err of
     Some (CloseError closeCode text) \<Rightarrow>
       (case json_disconnect text of
          Some d \<Rightarrow> Some d
        | None \<Rightarrow>
            let code = word_of_int closeCode;
                reconnect = reconnect_code code
            in if code < 3000 then
                 (if code = too_big then Some (mk_disconnect disconnectMessageSizeLimit text False)
                  else Some (mk_disconnect connectingTransportClosed text reconnect))
               else Some (mk_disconnect code text reconnect))
   | _ \<Rightarrow> None)"



section \<open>The transport\<close>

datatype conn_op =
    SetWriteDeadline "duration option"
  | WriteText bytes
  | WriteBinary bytes
  | WriteCloseFrame
  | ConnClose

record ws_transport =
  ws_closed :: bool
  ws_close_ch :: bool
  ws_protocol :: ptype
  ws_disconnect :: "disconnect option"
  ws_replies :: "pb_reply list"
  ws_reply_closed :: bool
  ws_conn :: "conn_op list"

text \<open>\<open>ws_replies\<close> are the replies handed over \<open>replyCh\<close>, oldest first.\<close>

definition new_ws :: "ptype \<Rightarrow> ws_transport" where
  "new_ws ty = \<lparr>ws_closed = False, ws_close_ch = False, ws_protocol = ty, ws_disconnect = None,
     ws_replies = [], ws_reply_closed = False, ws_conn = []\<rparr>"

definition ws_close :: "ws_transport \<Rightarrow> ws_transport" where
  "ws_close t =
    (if ws_closed t then t
     else t\<lparr>ws_closed := True, ws_close_ch := True, ws_conn := ws_conn t @ [WriteCloseFrame, ConnClose]\<rparr>)"

text \<open>\<open>fails\<close> says whether the connection's write fails; the deadline is cleared in any case.\<close>

definition ws_writeData :: "bool \<Rightarrow> bytes \<Rightarrow> duration \<Rightarrow> ws_transport \<Rightarrow> bool \<times> ws_transport" where
  "ws_writeData fails data timeout t =
    (let t1 = (if timeout > 0 then t\<lparr>ws_conn := ws_conn t @ [SetWriteDeadline (Some timeout)]\<rparr> else t);
         t2 = t1\<lparr>ws_conn := ws_conn t1 @ [if ws_protocol t = TypeJSON then WriteText data else WriteBinary data]\<rparr>;
         t3 = (if timeout > 0 then t2\<lparr>ws_conn := ws_conn t2 @ [SetWriteDeadline None]\<rparr> else t2)
     in (fails, t3))"

definition ws_Write :: "(command \<Rightarrow> bytes option) \<Rightarrow> bool \<Rightarrow> command \<Rightarrow> duration \<Rightarrow> ws_transport
    \<Rightarrow> bool \<times> ws_transport" where
  "ws_Write encode fails cmd timeout t = (case encode cmd of
     None \<Rightarrow> (True, t)
   | Some data \<Rightarrow> ws_writeData fails data timeout t)"

section \<open>The reader goroutine\<close>

text \<open>
  \<open>decode ty data\<close>: the replies a frame's decoder yields, and whether it then reports the end of
  the data (\<open>True\<close>) or an error. When the transport is closed while a reply is handed over, the
  select may take either branch: \<open>picks\<close> lists what it takes, \<open>True\<close> for the close.
\<close>

fun send_replies :: "bool list \<Rightarrow> pb_reply list \<Rightarrow> ws_transport \<Rightarrow> bool \<times> bool list \<times> ws_transport" where
  "send_replies picks [] t = (True, picks, t)"
| "send_replies picks (r # rs) t =
    (if ws_close_ch t \<and> (case picks of p # _ \<Rightarrow> p | [] \<Rightarrow> True) then (False, tl picks, t)
     else send_replies (if ws_close_ch t then tl picks else picks) rs
            (t\<lparr>ws_replies := ws_replies t @ [r]\<rparr>))"

text \<open>What the reader's deferred calls do when it returns.\<close>

definition reader_exit :: "ws_transport \<Rightarrow> ws_transport" where
  "reader_exit t = ws_close (t\<lparr>ws_reply_closed := True\<rparr>)"

text \<open>
  The reader over the results of \<open>ReadMessage\<close>: messages, then an error. When the list ends without
  an error the reader is still blocked in \<open>ReadMessage\<close>.
\<close>

datatype ws_read = ReadMessage bytes | ReadError ws_error

fun ws_reader :: "(ptype \<Rightarrow> bytes \<Rightarrow> pb_reply list \<times> bool) \<Rightarrow> (string \<Rightarrow> disconnect option) \<Rightarrow> u32
    \<Rightarrow> bool list \<Rightarrow> ws_read list \<Rightarrow> ws_transport \<Rightarrow> ws_transport" where
  "ws_reader decode json too_big picks [] t = t"
| "ws_reader decode json too_big picks (ReadError e # ms) t =
     reader_exit (t\<lparr>ws_disconnect := extractDisconnectWebsocket json too_big (Some e)\<rparr>)"
| "ws_reader decode json too_big picks (ReadMessage data # ms) t =
    (case decode (ws_protocol t) data of (rs, eof) \<Rightarrow>
       case send_replies picks rs t of (sent, picks', t') \<Rightarrow>
         if \<not> sent then reader_exit t'
         else if \<not> eof then
           reader_exit (t'\<lparr>ws_disconnect := Some (mk_disconnect disconnectBadProtocol ''decode error'' False)\<rparr>)
         else ws_reader decode json too_big picks' ms t')"

text \<open>\<open>Read\<close> when the client has taken \<open>n\<close> replies: blocks (\<open>None\<close>), a reply, or the end.\<close>

datatype read_result = GotReply pb_reply | GotEOF "disconnect option"

definition ws_Read :: "nat \<Rightarrow> ws_transport \<Rightarrow> read_result option" where
  "ws_Read n t = (if n < length (ws_replies t) then Some (GotReply (ws_replies t ! n))
     else if ws_reply_closed t then Some (GotEOF (ws_disconnect t)) else None)"

section \<open>Properties\<close>

lemma ws_close_twice: "ws_close (ws_close t) = ws_close t"
  by (simp add: ws_close_def)

lemma ws_close_conn: "ws_closed t \<Longrightarrow> ws_conn (ws_close t) = ws_conn t"
  by (simp add: ws_close_def)

lemma reader_exit_simps [simp]:
  "ws_closed (reader_exit t)" "ws_reply_closed (reader_exit t)"
  "ws_replies (reader_exit t) = ws_replies t" "ws_disconnect (reader_exit t) = ws_disconnect t"
  by (simp_all add: reader_exit_def ws_close_def)

text \<open>The replies of the frames up to the first bad one, and how the reader ends.\<close>

fun good_replies :: "(bytes \<Rightarrow> pb_reply list \<times> bool) \<Rightarrow> ws_read list \<Rightarrow> pb_reply list" where
  "good_replies decode [] = []"
| "good_replies decode (ReadError e # ms) = []"
| "good_replies decode (ReadMessage data # ms) =
    (case decode data of (rs, eof) \<Rightarrow> rs @ (if eof then good_replies decode ms else []))"

fun reader_end :: "(bytes \<Rightarrow> pb_reply list \<times> bool) \<Rightarrow> ws_read list \<Rightarrow> ws_error option option" where
  "reader_end decode [] = None"
| "reader_end decode (ReadError e # ms) = Some (Some e)"
| "reader_end decode (ReadMessage data # ms) =
    (if snd (decode data) then reader_end decode ms else Some None)"

lemma send_replies_open:
  "\<not> ws_close_ch t \<Longrightarrow> send_replies picks rs t = (True, picks, t\<lparr>ws_replies := ws_replies t @ rs\<rparr>)"
  by (induction rs arbitrary: t) auto

lemma ws_reader_open:
  assumes "\<not> ws_close_ch t"
  shows "ws_replies (ws_reader decode json too_big picks ms t)
      = ws_replies t @ good_replies (decode (ws_protocol t)) ms
    \<and> (case reader_end (decode (ws_protocol t)) ms of
         None \<Rightarrow> ws_reply_closed (ws_reader decode json too_big picks ms t) = ws_reply_closed t
       | Some (Some e) \<Rightarrow> ws_reply_closed (ws_reader decode json too_big picks ms t)
           \<and> ws_disconnect (ws_reader decode json too_big picks ms t)
             = extractDisconnectWebsocket json too_big (Some e)
       | Some None \<Rightarrow> ws_reply_closed (ws_reader decode json too_big picks ms t)
           \<and> ws_disconnect (ws_reader decode json too_big picks ms t)
             = Some (mk_disconnect disconnectBadProtocol ''decode error'' False))"
  using assms
proof (induction ms arbitrary: t)
  case (Cons m ms)
  show ?case
  proof (cases m)
    case (ReadMessage data)
    obtain rs eof where d: "decode (ws_protocol t) data = (rs, eof)"
      by (cases "decode (ws_protocol t) data")
    show ?thesis
      unfolding ReadMessage
      using Cons.IH[of "t\<lparr>ws_replies := ws_replies t @ rs\<rparr>"] Cons.prems d
      by (cases eof) (auto simp: send_replies_open split: option.splits)
  qed simp
qed simp

text \<open>The transport after its reader has seen \<open>ms\<close>.\<close>

definition ws_session :: "(ptype \<Rightarrow> bytes \<Rightarrow> pb_reply list \<times> bool) \<Rightarrow> (string \<Rightarrow> disconnect option) \<Rightarrow> u32
    \<Rightarrow> bool list \<Rightarrow> ws_read list \<Rightarrow> ptype \<Rightarrow> ws_transport" where
  "ws_session decode json too_big picks ms ty = ws_reader decode json too_big picks ms (new_ws ty)"

text \<open>
  C34: as long as the client does not close the transport, \<open>Read\<close> returns the decoded replies of all
  frames, in order, none lost or repeated; then, if a frame was malformed, the end of the stream
  with a bad-protocol disconnect that forbids a reconnect, and after a read error the disconnect
  taken from the close frame.
\<close>

theorem transport_reads_in_order:
  "(\<forall>n < length (good_replies (decode ty) ms). ws_Read n (ws_session decode json too_big picks ms ty) = Some (GotReply (good_replies (decode ty) ms ! n)))
    \<and> ws_Read (length (good_replies (decode ty) ms)) (ws_session decode json too_big picks ms ty) = (case reader_end (decode ty) ms of
         None \<Rightarrow> None
       | Some None \<Rightarrow> Some (GotEOF (Some (mk_disconnect disconnectBadProtocol ''decode error'' False)))
       | Some (Some e) \<Rightarrow> Some (GotEOF (extractDisconnectWebsocket json too_big (Some e))))"
  using ws_reader_open[of "new_ws ty" decode json too_big picks ms]
  by (auto simp: ws_session_def ws_Read_def new_ws_def split: option.splits)

theorem transport_reads_in_order_witness:
  "ws_Read 0 (ws_session (\<lambda>_ d. ([empty_reply 5], d = [])) (\<lambda>_. None) 1009 [] [ReadMessage []] TypeJSON)
    = Some (GotReply (empty_reply 5))"
  using transport_reads_in_order[where decode = "\<lambda>_ d. ([empty_reply 5], d = [])" and json = "\<lambda>_. None"
      and too_big = 1009 and picks = "[]" and ms = "[ReadMessage []]" and ty = TypeJSON] by simp

lemma send_replies_prefix:
  "send_replies picks rs t = (ok, picks', t') \<Longrightarrow>
    \<exists>k \<le> length rs. ws_replies t' = ws_replies t @ take k rs \<and> (ok \<longrightarrow> k = length rs)
      \<and> ws_close_ch t' = ws_close_ch t"
proof (induction rs arbitrary: picks t)
  case (Cons r rs)
  show ?case
  proof (cases "ws_close_ch t \<and> (case picks of p # _ \<Rightarrow> p | [] \<Rightarrow> True)")
    case True
    then show ?thesis using Cons.prems by (intro exI[of _ 0]) auto
  next
    case False
    with Cons.prems Cons.IH[of _ "t\<lparr>ws_replies := ws_replies t @ [r]\<rparr>"] obtain k where
      "k \<le> length rs" "ws_replies t' = ws_replies t @ r # take k rs" "ok \<longrightarrow> k = length rs"
      "ws_close_ch t' = ws_close_ch t" by auto
    then show ?thesis by (intro exI[of _ "Suc k"]) auto
  qed
qed auto

end
