(* ===== verification/World.thy ===== *)
theory World
  imports Settings TagsFilter CbQueue Transport
begin

text \<open>
  The state of a client with everything its goroutines share, and the primitive effects the
  operations of \<^verbatim>\<open>client.go\<close> and \<^verbatim>\<open>subscription.go\<close> are built from.

  The code runs in many goroutines that take the client lock \<open>c.mu\<close> and the subscription locks
  \<open>s.mu\<close>. A \<^emph>\<open>task\<close> is one segment of such a goroutine: the code from one acquisition of a lock
  to its release (or between two of them), which no other goroutine can interrupt. A goroutine
  is a list of tasks still to run; running a task changes the state and returns the tasks the
  goroutine goes on with. What a closure captures are the arguments of its task, so closures,
  callbacks and timers are data.
\<close>

section \<open>Names\<close>

type_synonym tr = nat
type_synonym sid = nat
type_synonym call = nat

text \<open>
  \<open>tr\<close>: a transport (a connection), \<open>sid\<close>: a \<open>*Subscription\<close>, \<open>call\<close>: one call of the
  application and the channels it waits on.
\<close>

datatype cstate = StateDisconnected | StateConnecting | StateConnected | StateClosed
datatype sstate = SubStateUnsubscribed | SubStateSubscribing | SubStateSubscribed

section \<open>Application calls\<close>

record history_options =
  ho_limit :: "32 word"
  ho_since :: "stream_position option"
  ho_reverse :: bool

text \<open>What a call does once the client is connected.\<close>

datatype operation =
    OpSend slice
  | OpRPC string slice
  | OpPublish channel slice
  | OpHistory channel history_options
  | OpPresence channel
  | OpPresenceStats channel

datatype call_result =
    ResNone
  | ResRPC slice
  | ResHistory "publication list" u64 string
  | ResPresence "(string \<times> client_info) list"
  | ResPresenceStats u32 u32

section \<open>Events\<close>

datatype event =
    EvConnecting u32 string
  | EvConnected string string slice
  | EvDisconnected u32 string
  | EvError err
  | EvMessage slice
  | EvServerSubscribed channel bool bool bool bool "stream_position option" slice
  | EvServerSubscribing channel
  | EvServerUnsubscribed channel
  | EvServerPublication channel publication
  | EvServerJoin channel client_info
  | EvServerLeave channel client_info
  | EvSubscribing sid u32 string
  | EvSubscribed sid bool bool bool bool "stream_position option" slice
  | EvUnsubscribed sid u32 string
  | EvSubError sid err
  | EvPublication sid publication
  | EvJoin sid client_info
  | EvLeave sid client_info

text \<open>
  A subscribed event carries wasRecovering, recovered, recoverable, positioned, the stream
  position if there is one, and the data. The handlers of a client and of a subscription that
  the application has set:
\<close>

datatype client_handler =
    HConnected | HDisconnected | HConnecting | HError | HMessage | HServerSubscribe
  | HServerSubscribing | HServerUnsubscribed | HServerPublication | HServerJoin | HServerLeave

datatype sub_handler =
  SHSubscribing | SHSubscribed | SHUnsubscribe | SHError | SHPublication | SHJoin | SHLeave

text \<open>
  What is queued for the dispatcher: calls of handlers, or the loops over recovered publications,
  which look at the state before each of them. Every queued closure has an identity, because
  goroutines wait for it.
\<close>

datatype job =
    JEvents "event list"
  | JServerPubs channel nat "pb_pub option list"
  | JSubPubs sid nat "(pb_pub \<times> publication) list"

section \<open>Requests\<close>

text \<open>
  The callback of a request and what it captures: the connect callback its attempt, transport,
  connect token and disconnect channel; the subscribe callback the connection generation and the
  subscribe attempt; the refresh callbacks the session they belong to.
\<close>

datatype callback =
    CbConnect nat tr string nat
  | CbSubscribe sid int nat
  | CbRefresh int
  | CbSubRefresh sid nat nat
  | CbUnsubscribe
  | CbCall call operation

record request =
  rq_cb :: callback
  rq_result :: replyResult

section \<open>Timers\<close>

text \<open>What the timers run when they fire.\<close>

datatype timer = TmReconnect | TmRefresh int | TmResubscribe sid | TmSubRefresh sid nat

section \<open>Subscriptions\<close>

record sub_config =
  sc_data :: slice
  sc_token :: string
  sc_get_token :: bool
  sc_positioned :: bool
  sc_recoverable :: bool
  sc_join_leave :: bool
  sc_delta :: string
  sc_tags_filter :: "pb_filter option"
  sc_min_resubscribe_delay :: duration
  sc_max_resubscribe_delay :: duration
  sc_get_state :: bool

definition DeltaTypeNone :: string where "DeltaTypeNone = []"
definition DeltaTypeFossil :: string where "DeltaTypeFossil = ''fossil''"

text \<open>
  The options that never change after \<open>newSubscription\<close> stay in \<open>s_cfg\<close>; the token and the tags
  filter are copied out because they do change.
\<close>

record sub =
  s_channel :: channel
  s_cfg :: sub_config
  s_state :: sstate
  s_events :: "sub_handler \<Rightarrow> bool"
  s_offset :: u64
  s_epoch :: string
  s_recover :: bool
  s_future_id :: nat
  s_futures :: "(nat, call \<times> operation) gomap"
  s_token :: string
  s_resubscribe_attempts :: nat
  s_strategy :: backoff_reconnect
  s_resubscribe_timer :: "nat option"
  s_refresh_timer :: "nat option"
  s_delta_negotiated :: bool
  s_prev_data :: slice
  s_tags_filter :: "pb_filter option"
  s_push_id :: int
  s_inflight :: bool
  s_attempt :: nat
  s_invalidations :: nat
  s_session :: nat

section \<open>The client\<close>

record server_sub =
  ss_offset :: u64
  ss_epoch :: string
  ss_recoverable :: bool

record client =
  c_cmd_id :: u32
  c_future_id :: nat
  c_endpoints :: "string list"
  c_round :: nat
  c_attempt :: nat
  c_ptype :: ptype
  c_cfg :: config
  c_token :: string
  c_data :: slice
  c_transport :: "tr option"
  c_disconnected_ch :: "nat option"
  c_state :: cstate
  c_connected :: bool
  c_subs :: "(channel, sid) gomap"
  c_server_subs :: "(channel, server_sub) gomap"
  c_subs_by_id :: "(int, sid) gomap"
  c_generation :: int
  c_requests :: "(u32, request) gomap"
  c_reconnect_attempts :: nat
  c_strategy :: backoff_reconnect
  c_events :: "client_handler \<Rightarrow> bool"
  c_send_pong :: bool
  c_delay_ping :: nat
  c_close_ch :: "nat option"
  c_futures :: "(nat, call \<times> operation) gomap"
  c_cb_queue :: bool
  c_reconnect_timer :: "nat option"
  c_refresh_timer :: "nat option"
  c_refresh_required :: bool

end
