(* ===== verification/Effects.thy ===== *)
theory Effects
  imports World
begin

text \<open>
  The tasks of the client's goroutines, the world they run in, and its primitive effects: reading
  and writing the client and its subscriptions, starting goroutines, arming and stopping timers,
  closing transports, queueing events.
\<close>

section \<open>Tasks\<close>

text \<open>Who waits for the error a connect attempt returns: a call of \<open>Connect\<close>, or nobody.\<close>

type_synonym caller = "call option"

text \<open>The connect pipeline (\<open>startConnecting\<close>, \<open>startReconnectingIf\<close> and the connect callback).\<close>

datatype connect_task =
    StartConnecting caller
  | StartReconnectingIf "nat option" caller
  | ConnectToken nat nat caller
  | GotConnectToken nat nat caller "err + string"
  | CallGetToken nat nat caller
  | Dial nat nat caller
  | ScheduleIfCurrent nat caller err
  | Dialed nat tr caller
  | ConnectReply nat tr string nat "err + pb_connect_result"
  | ConnectFailed nat tr string err
  | ConnectFailedClosed nat string err
  | ConnectOk nat tr nat pb_connect_result
  | ConnectSubs nat tr nat pb_connect_result "(channel \<times> pb_subscribe_result option) list"
  | ConnectUnsubs nat tr nat pb_connect_result
  | ConnectDone nat tr nat pb_connect_result

text \<open>The other tasks of the client.\<close>

datatype client_task =
    ReturnErr caller "err option"
  | HandleError err
  | MoveToDisconnected u32 string
  | MoveToDisconnectedFrom "tr option" u32 string
  | MoveToConnectingFrom "tr option" u32 string
  | ConnectingReported nat
  | HandleTransportDisconnect "tr option" "disconnect option"
  | InvalidateConnectionState
  | DisconnectCall call
  | CloseCall call
  | CloseReport cstate "channel list" call
  | CloseWaitReader call
  | CloseQueue bool call
  | Reader tr nat
  | WaitServerPing tr nat u32
  | HandlePush tr pb_push
  | HandleMessage slice
  | HandleServerPublication channel pb_pub
  | HandleServerJoin channel "pb_info option"
  | HandleServerLeave channel "pb_info option"
  | HandleServerSub channel pb_subscribe_push
  | HandleServerUnsub channel
  | SendRefresh int
  | CallGetTokenRefresh int
  | GotRefreshToken int "err + string"
  | RefreshSend int string
  | RefreshFailed int
  | RefreshReply int "err + pb_reply"

text \<open>Requests and the calls of the application.\<close>

datatype call_task =
    RunCallback callback "err + pb_reply"
  | AwaitReply u32
  | AwaitReplyOn u32 "nat option"
  | ClientCall call operation
  | OnConnect call operation
  | RunOperation call operation "err option"
  | FutureTimeout nat
  | SubCall sid call operation
  | OnSubscribe sid call operation
  | RunSubOperation sid call operation "err option"
  | SubFutureTimeout sid nat

text \<open>Subscriptions.\<close>

datatype sub_task =
    SubscribeCall sid call
  | SubscribeRegistered sid call
  | SubscribeStart sid call
  | SubscribeConnected sid call
  | UnsubscribeCall sid call
  | Unsubscribe sid call
  | RemoveCall sid call
  | RemoveEntry sid call
  | Resubscribe sid
  | GetState sid
  | CallGetState sid nat nat
  | GetStateFailed sid nat
  | ContinueResubscribe sid bool
  | CallGetSubToken sid nat nat
  | SendSubscribe sid nat nat string
  | SubscribeError sid err nat int
  | SubscribeUnrecoverable sid nat int
  | SubscribeErrorReported sid err nat int
  | MoveToSubscribed sid pb_subscribe_result int nat
  | DeltaFailed sid u64 err
  | EmitError sid err
  | HandlePublication sid pb_pub
  | HandleJoin sid "pb_info option"
  | HandleLeave sid "pb_info option"
  | HandleUnsubscribe sid pb_unsubscribe
  | MoveToSubscribing sid u32 string
  | MoveToUnsubscribed sid u32 string
  | InvalidateState sid
  | SubRefresh sid nat
  | CallGetSubTokenRefresh sid nat nat
  | SubRefreshSend sid nat nat string
  | SubRefreshReply sid nat nat "err + pb_reply"
  | SubRefreshWrite sid nat nat string
  | SubRefreshArm sid nat u32
  | SubRefreshFatal sid nat nat u32 string

text \<open>
  A goroutine may also wait: for a queued event to have run, for a channel to be closed, for the
  closed queue to have been drained.
\<close>

datatype task =
    WaitEvent nat
  | WaitChan nat
  | WaitQueueClosed
  | TConnect connect_task
  | TClient client_task
  | TCall call_task
  | TSub sub_task

section \<open>The world\<close>

text \<open>
  What the program runs in: the delta codec, the back-off delays, and whether the \<open>n\<close>-th write
  to a connection fails.
\<close>

record environment =
  en_codec :: codec
  en_for_attempt :: "backoff_reconnect \<Rightarrow> nat \<Rightarrow> duration"
  en_write_fails :: "nat \<Rightarrow> bool"

text \<open>
  A thread is a goroutine: whether it runs inside an event handler, that is on the dispatcher
  goroutine, and the tasks it has yet to run.
\<close>

record world =
  w_env :: environment
  w_cl :: client
  w_heap :: "(sid, sub) gomap"
  w_next_sid :: sid
  w_next :: nat
  w_next_call :: call
  w_timers :: "(nat, timer \<times> duration) gomap"
  w_threads :: "(bool \<times> task list) list"
  w_queue :: "(nat \<times> job) cbq"
  w_ran :: "nat list"
  w_chans :: "nat list"
  w_wire :: "(tr \<times> command) list"
  w_closed_tr :: "tr list"
  w_dials :: "string list"
  w_results :: "(call \<times> (err + call_result)) list"
  w_returns :: "(call \<times> err option) list"
  w_delivered :: "event list"
  w_ctx_done :: "call list"
  w_panic :: bool
  w_lost :: "callback list"

text \<open>
  \<open>w_ran\<close>: the queued closures that have run (or never will, because the queue was closed);
  \<open>w_chans\<close>: the channels that have been closed; \<open>w_wire\<close>: the commands written;
  \<open>w_delivered\<close>: the events the handlers got; \<open>w_panic\<close>: a nil pointer was dereferenced;
  \<open>w_lost\<close>: bookkeeping that the code does not have, the callbacks of requests whose id was given
  out again while they were still waiting (after \<open>2^32 - 1\<close> commands).
\<close>

type_synonym 'a op = "(world, 'a) state"

section \<open>Reading and writing\<close>

abbreviation getc :: "(client \<Rightarrow> 'a) \<Rightarrow> 'a op" where
  "getc f \<equiv> gets (\<lambda>w. f (w_cl w))"

text \<open>The zero value of a subscription stands for what no pointer leads to.\<close>

definition no_sub :: sub where
  "no_sub = \<lparr>s_channel = [], s_cfg = \<lparr>sc_data = None, sc_token = [], sc_get_token = False,
     sc_positioned = False, sc_recoverable = False, sc_join_leave = False, sc_delta = DeltaTypeNone,
     sc_tags_filter = None, sc_min_resubscribe_delay = 0, sc_max_resubscribe_delay = 0,
     sc_get_state = False\<rparr>, s_state = SubStateUnsubscribed, s_events = (\<lambda>_. False), s_offset = 0,
     s_epoch = [], s_recover = False, s_future_id = 0, s_futures = [], s_token = [],
     s_resubscribe_attempts = 0, s_strategy = newBackoffReconnect 0 0, s_resubscribe_timer = None,
     s_refresh_timer = None, s_delta_negotiated = False, s_prev_data = None, s_tags_filter = None,
     s_push_id = 0, s_inflight = False, s_attempt = 0, s_invalidations = 0, s_session = 0\<rparr>"

definition sub_at :: "world \<Rightarrow> sid \<Rightarrow> sub" where
  "sub_at w s = (case gm_get (w_heap w) s of None \<Rightarrow> no_sub | Some x \<Rightarrow> x)"

lemma sub_at_frames [simp]:
  "sub_at (w\<lparr>w_cl := c\<rparr>) s = sub_at w s" "sub_at (w\<lparr>w_threads := th\<rparr>) s = sub_at w s"
  "sub_at (w\<lparr>w_timers := ti\<rparr>) s = sub_at w s"
  "sub_at (w\<lparr>w_heap := gm_put s' x (w_heap w)\<rparr>) s = (if s = s' then x else sub_at w s)"
  by (simp_all add: sub_at_def)

abbreviation gets_of :: "sid \<Rightarrow> (sub \<Rightarrow> 'a) \<Rightarrow> 'a op" where
  "gets_of s f \<equiv> gets (\<lambda>w. f (sub_at w s))"

definition modc :: "(client \<Rightarrow> client) \<Rightarrow> unit op" where
  "modc f = modify (\<lambda>w. w\<lparr>w_cl := f (w_cl w)\<rparr>)"

definition mods :: "sid \<Rightarrow> (sub \<Rightarrow> sub) \<Rightarrow> unit op" where
  "mods s f = modify (\<lambda>w. w\<lparr>w_heap := gm_put s (f (sub_at w s)) (w_heap w)\<rparr>)"

definition fresh :: "nat op" where
  "fresh = do { n \<leftarrow> gets w_next; modify (\<lambda>w. w\<lparr>w_next := Suc n\<rparr>); ret n }"

definition spawn :: "task list \<Rightarrow> unit op" where
  "spawn ts = modify (\<lambda>w. w\<lparr>w_threads := w_threads w @ [(False, ts)]\<rparr>)"

definition panic :: "unit op" where
  "panic = modify (\<lambda>w. w\<lparr>w_panic := True\<rparr>)"

definition add_result :: "call \<Rightarrow> err + call_result \<Rightarrow> unit op" where
  "add_result k r = modify (\<lambda>w. w\<lparr>w_results := w_results w @ [(k, r)]\<rparr>)"

definition return_to :: "caller \<Rightarrow> err option \<Rightarrow> unit op" where
  "return_to k e = (case k of None \<Rightarrow> ret ()
     | Some c \<Rightarrow> modify (\<lambda>w. w\<lparr>w_returns := w_returns w @ [(c, e)]\<rparr>))"

definition close_chan :: "nat \<Rightarrow> unit op" where
  "close_chan ch = modify (\<lambda>w. w\<lparr>w_chans := ch # w_chans w\<rparr>)"

text \<open>Closing a transport: closing it again does nothing (see \<open>ws_close\<close>).\<close>

definition close_transport :: "tr \<Rightarrow> unit op" where
  "close_transport t = modify (\<lambda>w. w\<lparr>w_closed_tr := List.insert t (w_closed_tr w)\<rparr>)"

section \<open>Timers\<close>

definition after_func :: "duration \<Rightarrow> timer \<Rightarrow> nat op" where
  "after_func d tm = do {
     n \<leftarrow> fresh;
     modify (\<lambda>w. w\<lparr>w_timers := gm_put n (tm, d) (w_timers w)\<rparr>);
     ret n }"

definition stop_timer :: "nat option \<Rightarrow> unit op" where
  "stop_timer t = (case t of None \<Rightarrow> ret ()
     | Some n \<Rightarrow> modify (\<lambda>w. w\<lparr>w_timers := gm_del n (w_timers w)\<rparr>))"

section \<open>The callback queue\<close>

text \<open>\<open>push_job\<close> pushes a closure and says whether it was accepted, with its identity.\<close>

definition push_job :: "job \<Rightarrow> (bool \<times> nat) op" where
  "push_job j = do {
     n \<leftarrow> fresh;
     q \<leftarrow> gets w_queue;
     (case push (n, j) q of (ok, q') \<Rightarrow> do {
        modify (\<lambda>w. w\<lparr>w_queue := q'\<rparr>);
        ret (ok, n) }) }"

text \<open>\<open>queueEvent\<close>: the returned channel is closed at once when the queue is closed.\<close>

definition queueEvent :: "job \<Rightarrow> nat op" where
  "queueEvent j = do {
     (ok, n) \<leftarrow> push_job j;
     when_do (\<not> ok) (modify (\<lambda>w. w\<lparr>w_ran := n # w_ran w\<rparr>));
     ret n }"

text \<open>
  \<open>waitEvent\<close>: wait for a queued event; a goroutine that is inside an event handler goes on
  without waiting, it would wait for itself.
\<close>

definition waitEvent :: "bool \<Rightarrow> nat option \<Rightarrow> task list" where
  "waitEvent in_handler d = (case d of None \<Rightarrow> []
     | Some n \<Rightarrow> if in_handler then [] else [WaitEvent n])"

definition queue_if :: "bool \<Rightarrow> job \<Rightarrow> nat option op" where
  "queue_if has_handler j =
     (if has_handler then do { n \<leftarrow> queueEvent j; ret (Some n) } else ret None)"

definition runHandlerSync :: "job \<Rightarrow> task list op" where
  "runHandlerSync j = do {
     alive \<leftarrow> getc c_cb_queue;
     if \<not> alive then ret []
     else do {
       (ok, n) \<leftarrow> push_job j;
       ret (if ok then [WaitEvent n] else []) } }"

definition runHandlerAsync :: "job \<Rightarrow> unit op" where
  "runHandlerAsync j = do {
     alive \<leftarrow> getc c_cb_queue;
     if \<not> alive then ret () else do { _ \<leftarrow> push_job j; ret () } }"

definition runHandlerSyncReentrant :: "bool \<Rightarrow> job \<Rightarrow> task list op" where
  "runHandlerSyncReentrant in_handler j = do {
     alive \<leftarrow> getc c_cb_queue;
     if alive \<and> in_handler then do { runHandlerAsync j; ret [] }
     else runHandlerSync j }"

definition handleError :: "bool \<Rightarrow> err \<Rightarrow> task list op" where
  "handleError in_handler e = do {
     ev \<leftarrow> getc c_events;
     if ev HError then runHandlerSyncReentrant in_handler (JEvents [EvError e]) else ret [] }"

definition emitError :: "sid \<Rightarrow> err \<Rightarrow> task list op" where
  "emitError s e = do {
     ev \<leftarrow> gets_of s s_events;
     if ev SHError then runHandlerSync (JEvents [EvSubError s e]) else ret [] }"

section \<open>What the primitives leave alone\<close>

text \<open>
  A frame fact per primitive: it holds for every projection that does not look at the fields the
  primitive writes.
\<close>

lemma keeps_modc [keeps_intro]:
  "(\<And>w. f (w\<lparr>w_cl := g (w_cl w)\<rparr>) = f w) \<Longrightarrow> keeps f (modc g)"
  by (simp add: keeps_def modc_def)

lemma keeps_mods [keeps_intro]:
  "(\<And>w. f (w\<lparr>w_heap := gm_put s (g (sub_at w s)) (w_heap w)\<rparr>) = f w) \<Longrightarrow> keeps f (mods s g)"
  by (simp add: keeps_def mods_def)

lemma pres_modc [pres_intro]:
  "(\<And>w. I w \<Longrightarrow> I (w\<lparr>w_cl := g (w_cl w)\<rparr>)) \<Longrightarrow> pres I (modc g)"
  by (simp add: pres_def modc_def)

lemma pres_mods [pres_intro]:
  "(\<And>w. I w \<Longrightarrow> I (w\<lparr>w_heap := gm_put s (g (sub_at w s)) (w_heap w)\<rparr>)) \<Longrightarrow> pres I (mods s g)"
  by (simp add: pres_def mods_def)

end
