(* ===== verification/Requests.thy ===== *)
theory Requests
  imports Effects
begin

text \<open>
  Commands and their replies: command ids, the request registry, sending, the connect futures and
  the calls of the application (\<open>Send\<close>, \<open>RPC\<close>, \<open>Publish\<close>, \<open>History\<close>, \<open>Presence\<close>, \<open>PresenceStats\<close>)
  of \<^verbatim>\<open>client.go\<close>.

  \<open>sendAsyncOn\<close> is one step here although it is three in the code (register, write, and on a failed
  write take the request back). A teardown that runs in between takes the request and reports it as
  disconnected, which is the outcome of a successful write followed by that teardown.
\<close>

section \<open>Command ids\<close>

text \<open>The loop adds one until the id is not 0; it runs at most twice.\<close>

function next_id :: "u32 \<Rightarrow> u32" where
  "next_id c = (let i = c + 1 in if i \<noteq> 0 then i else next_id i)"
  by pat_completeness auto
termination
  by (relation "measure (\<lambda>c. if c = 0 then 0 else 1)") (auto simp: Let_def)

declare next_id.simps [simp del]

lemma next_id_eq: "next_id c = (if c + 1 = 0 then 1 else c + 1)"
  using next_id.simps[of c] next_id.simps[of 0] by (simp add: Let_def)

text \<open>\<open>n\<close> ids taken one after the other.\<close>

fun ids_from :: "u32 \<Rightarrow> nat \<Rightarrow> u32 list" where
  "ids_from c 0 = []"
| "ids_from c (Suc n) = next_id c # ids_from (next_id c) n"

lemma unat_next_id: "unat (next_id c) = (if unat c + 1 < 2 ^ 32 then unat c + 1 else 1)"
proof (cases "c + 1 = 0")
  case True
  then have "c = - 1" by (simp only: eq_neg_iff_add_eq_0)
  then show ?thesis by (simp add: next_id_eq unsigned_minus_1_eq_mask mask_eq_exp_minus_1)
next
  case False
  then have "unat (c + 1) = unat c + 1" using unatSuc[of c] by (simp only: add.commute[of c 1]) simp
  moreover have "unat (c + 1) < 2 ^ 32" using unsigned_less[of "c + 1"] by simp
  ultimately show ?thesis using False by (simp add: next_id_eq)
qed

lemma unat_ids_from:
  "unat c + n < 2 ^ 32 \<Longrightarrow> map unat (ids_from c n) = [unat c + 1 ..< unat c + 1 + n]"
proof (induction n arbitrary: c)
  case (Suc n)
  then have "unat (next_id c) = unat c + 1" by (simp add: unat_next_id)
  with Suc show ?case by (simp add: upt_conv_Cons)
qed simp

lemma ids_from_nonzero: "0 \<notin> set (ids_from c n)"
proof (induction n arbitrary: c)
  case (Suc n)
  have "next_id c \<noteq> 0" by (simp add: next_id_eq)
  with Suc show ?case by (metis ids_from.simps(2) set_ConsD)
qed simp

definition nextCmdID :: "u32 op" where
  "nextCmdID = do {
     c \<leftarrow> getc c_cmd_id;
     modc (\<lambda>x. x\<lparr>c_cmd_id := next_id c\<rparr>);
     ret (next_id c) }"

section \<open>The request registry\<close>

text \<open>A map entry that is still there would be overwritten; \<open>w_lost\<close> remembers it.\<close>

definition addRequest :: "u32 \<Rightarrow> replyResult \<Rightarrow> callback \<Rightarrow> unit op" where
  "addRequest i result cb = do {
     reqs \<leftarrow> getc c_requests;
     (case gm_get reqs i of
        None \<Rightarrow> ret ()
      | Some q \<Rightarrow> modify (\<lambda>w. w\<lparr>w_lost := rq_cb q # w_lost w\<rparr>));
     modc (\<lambda>c. c\<lparr>c_requests := gm_put i \<lparr>rq_cb = cb, rq_result = result\<rparr> (c_requests c)\<rparr>) }"

definition popRequest :: "u32 \<Rightarrow> request option op" where
  "popRequest i = do {
     reqs \<leftarrow> getc c_requests;
     (case gm_pop i reqs of (r, reqs') \<Rightarrow> do {
        modc (\<lambda>c. c\<lparr>c_requests := reqs'\<rparr>);
        ret r }) }"

section \<open>Sending\<close>

definition sendOn :: "tr \<Rightarrow> command \<Rightarrow> err option op" where
  "sendOn t cmd = do {
     n \<leftarrow> gets (\<lambda>w. length (w_wire w));
     fails \<leftarrow> gets (\<lambda>w. en_write_fails (w_env w) n);
     modify (\<lambda>w. w\<lparr>w_wire := w_wire w @ [(t, cmd)]\<rparr>);
     if fails then do {
       spawn [TClient (HandleTransportDisconnect (Some t)
                (Some (mk_disconnect connectingTransportClosed ''write error'' True)))];
       ret (Some (Sentinel ErrClientDisconnected)) }
     else ret None }"

definition send :: "command \<Rightarrow> err option op" where
  "send cmd = do {
     t \<leftarrow> getc c_transport;
     (case t of
        None \<Rightarrow> ret (Some (Sentinel ErrClientDisconnected))
      | Some t \<Rightarrow> sendOn t cmd) }"

definition sendAsyncOn :: "tr option \<Rightarrow> command \<Rightarrow> callback \<Rightarrow> err option op" where
  "sendAsyncOn t cmd cb = do {
     addRequest (cmd_id cmd) (replyResultOf cmd) cb;
     err \<leftarrow> (case t of Some t \<Rightarrow> sendOn t cmd | None \<Rightarrow> send cmd);
     (case err of
        Some e \<Rightarrow> do {
          r \<leftarrow> popRequest (cmd_id cmd);
          (case r of None \<Rightarrow> ret None | Some _ \<Rightarrow> ret (Some e)) }
      | None \<Rightarrow> do {
          spawn [TCall (AwaitReply (cmd_id cmd))];
          ret None }) }"

definition sendAsync :: "command \<Rightarrow> callback \<Rightarrow> err option op" where
  "sendAsync cmd cb = sendAsyncOn None cmd cb"

text \<open>
  The goroutine behind a request: it waits for the read timeout or for the close channel of the
  client, and whoever pops the request runs its callback. \<open>timed_out\<close> says which of the two the
  select sees.
\<close>

definition awaitReply :: "u32 \<Rightarrow> task list op" where
  "awaitReply i = do {
     ch \<leftarrow> getc c_close_ch;
     ret [TCall (AwaitReplyOn i ch)] }"

definition popAndFail :: "u32 \<Rightarrow> err \<Rightarrow> task list op" where
  "popAndFail i e = do {
     r \<leftarrow> popRequest i;
     (case r of None \<Rightarrow> ret [] | Some q \<Rightarrow> ret [TCall (RunCallback (rq_cb q) (Inl e))]) }"

definition awaitReplyOn :: "bool \<Rightarrow> u32 \<Rightarrow> nat option \<Rightarrow> task list op" where
  "awaitReplyOn timed_out i ch = do {
     closed \<leftarrow> gets w_chans;
     if timed_out then popAndFail i (Sentinel ErrTimeout)
     else if (case ch of None \<Rightarrow> False | Some n \<Rightarrow> n \<in> set closed)
       then popAndFail i (Sentinel ErrClientDisconnected)
     else ret [TCall (AwaitReplyOn i ch)] }"

section \<open>The operations behind the calls of the application\<close>

definition send_operation :: "call \<Rightarrow> operation \<Rightarrow> command \<Rightarrow> unit op" where
  "send_operation k oper cmd = do {
     e \<leftarrow> sendAsync cmd (CbCall k oper);
     (case e of None \<Rightarrow> ret () | Some e \<Rightarrow> add_result k (Inl e)) }"

definition sendRPC :: "call \<Rightarrow> string \<Rightarrow> slice \<Rightarrow> unit op" where
  "sendRPC k method data = do {
     i \<leftarrow> nextCmdID;
     send_operation k (OpRPC method data) ((new_command i)\<lparr>cmd_rpc := Some (method, data)\<rparr>) }"

definition sendPublish :: "call \<Rightarrow> channel \<Rightarrow> slice \<Rightarrow> unit op" where
  "sendPublish k ch data = do {
     i \<leftarrow> nextCmdID;
     send_operation k (OpPublish ch data) ((new_command i)\<lparr>cmd_publish := Some (ch, data)\<rparr>) }"

definition history_request :: "channel \<Rightarrow> history_options \<Rightarrow> history_req" where
  "history_request ch opts = \<lparr>hq_channel = ch, hq_limit = ho_limit opts, hq_reverse = ho_reverse opts,
     hq_since = (case ho_since opts of None \<Rightarrow> None
       | Some sp \<Rightarrow> Some \<lparr>sp_offset = sp_offset sp, sp_epoch = sp_epoch sp\<rparr>)\<rparr>"

definition sendHistory :: "call \<Rightarrow> channel \<Rightarrow> history_options \<Rightarrow> unit op" where
  "sendHistory k ch opts = do {
     i \<leftarrow> nextCmdID;
     send_operation k (OpHistory ch opts) ((new_command i)\<lparr>cmd_history := Some (history_request ch opts)\<rparr>) }"

definition sendPresence :: "call \<Rightarrow> channel \<Rightarrow> unit op" where
  "sendPresence k ch = do {
     i \<leftarrow> nextCmdID;
     send_operation k (OpPresence ch) ((new_command i)\<lparr>cmd_presence := Some ch\<rparr>) }"

definition sendPresenceStats :: "call \<Rightarrow> channel \<Rightarrow> unit op" where
  "sendPresenceStats k ch = do {
     i \<leftarrow> nextCmdID;
     send_operation k (OpPresenceStats ch) ((new_command i)\<lparr>cmd_presence_stats := Some ch\<rparr>) }"

definition send_message :: "call \<Rightarrow> slice \<Rightarrow> unit op" where
  "send_message k data = do {
     e \<leftarrow> send ((new_command 0)\<lparr>cmd_send := Some data\<rparr>);
     add_result k (case e of None \<Rightarrow> Inr ResNone | Some e \<Rightarrow> Inl e) }"

text \<open>
  The functions the calls register with \<open>onConnect\<close>. \<open>Send\<close> looks at the error first, the
  others at the context.
\<close>

definition run_send :: "call \<Rightarrow> slice \<Rightarrow> err option \<Rightarrow> unit op" where
  "run_send k data err = do {
     cancelled \<leftarrow> gets w_ctx_done;
     (case err of
        Some e \<Rightarrow> add_result k (Inl e)
      | None \<Rightarrow> if k \<in> set cancelled then add_result k (Inl (Sentinel ErrContext))
                else send_message k data) }"

definition run_rpc :: "call \<Rightarrow> string \<Rightarrow> slice \<Rightarrow> err option \<Rightarrow> unit op" where
  "run_rpc k method data err = do {
     cancelled \<leftarrow> gets w_ctx_done;
     if k \<in> set cancelled then add_result k (Inl (Sentinel ErrContext))
     else (case err of Some e \<Rightarrow> add_result k (Inl e) | None \<Rightarrow> sendRPC k method data) }"

definition run_publish :: "call \<Rightarrow> channel \<Rightarrow> slice \<Rightarrow> err option \<Rightarrow> unit op" where
  "run_publish k ch data err = do {
     cancelled \<leftarrow> gets w_ctx_done;
     if k \<in> set cancelled then add_result k (Inl (Sentinel ErrContext))
     else (case err of Some e \<Rightarrow> add_result k (Inl e) | None \<Rightarrow> sendPublish k ch data) }"

definition run_history :: "call \<Rightarrow> channel \<Rightarrow> history_options \<Rightarrow> err option \<Rightarrow> unit op" where
  "run_history k ch opts err = do {
     cancelled \<leftarrow> gets w_ctx_done;
     if k \<in> set cancelled then add_result k (Inl (Sentinel ErrContext))
     else (case err of Some e \<Rightarrow> add_result k (Inl e) | None \<Rightarrow> sendHistory k ch opts) }"

definition run_presence :: "call \<Rightarrow> channel \<Rightarrow> err option \<Rightarrow> unit op" where
  "run_presence k ch err = do {
     cancelled \<leftarrow> gets w_ctx_done;
     if k \<in> set cancelled then add_result k (Inl (Sentinel ErrContext))
     else (case err of Some e \<Rightarrow> add_result k (Inl e) | None \<Rightarrow> sendPresence k ch) }"

definition run_presence_stats :: "call \<Rightarrow> channel \<Rightarrow> err option \<Rightarrow> unit op" where
  "run_presence_stats k ch err = do {
     cancelled \<leftarrow> gets w_ctx_done;
     if k \<in> set cancelled then add_result k (Inl (Sentinel ErrContext))
     else (case err of Some e \<Rightarrow> add_result k (Inl e) | None \<Rightarrow> sendPresenceStats k ch) }"

text \<open>An operation stands for the function its call registers.\<close>

definition runOperation :: "call \<Rightarrow> operation \<Rightarrow> err option \<Rightarrow> unit op" where
  "runOperation k oper err = (case oper of
     OpSend data \<Rightarrow> run_send k data err
   | OpRPC method data \<Rightarrow> run_rpc k method data err
   | OpPublish ch data \<Rightarrow> run_publish k ch data err
   | OpHistory ch opts \<Rightarrow> run_history k ch opts err
   | OpPresence ch \<Rightarrow> run_presence k ch err
   | OpPresenceStats ch \<Rightarrow> run_presence_stats k ch err)"

lemmas runOperation_defs = runOperation_def run_send_def run_rpc_def run_publish_def run_history_def
  run_presence_def run_presence_stats_def

text \<open>The callbacks of these requests. A nil result is a nil dereference.\<close>

definition history_result :: "pb_history_result \<Rightarrow> call_result option" where
  "history_result h = (case deref_pubs (hr_publications h) of
     None \<Rightarrow> None
   | Some ps \<Rightarrow> Some (ResHistory (map (\<lambda>p. the (pubFromProto (Some p))) ps) (hr_offset h) (hr_epoch h)))"

definition read_operation :: "operation \<Rightarrow> pb_reply \<Rightarrow> call_result option" where
  "read_operation oper r = (case oper of
     OpRPC method data \<Rightarrow> (case r_rpc r of None \<Rightarrow> None | Some d \<Rightarrow> Some (ResRPC d))
   | OpHistory ch opts \<Rightarrow> (case r_history r of None \<Rightarrow> None | Some h \<Rightarrow> history_result h)
   | OpPresence ch \<Rightarrow> (case r_presence r of None \<Rightarrow> None
       | Some p \<Rightarrow> Some (ResPresence (map (\<lambda>(u, i). (u, infoFromProto i)) p)))
   | OpPresenceStats ch \<Rightarrow> (case r_presence_stats r of None \<Rightarrow> None
       | Some s \<Rightarrow> Some (ResPresenceStats (ps_num_clients s) (ps_num_users s)))
   | _ \<Rightarrow> Some ResNone)"

definition operationReply :: "call \<Rightarrow> operation \<Rightarrow> err + pb_reply \<Rightarrow> unit op" where
  "operationReply k oper r = (case r of
     Inl e \<Rightarrow> add_result k (Inl e)
   | Inr reply \<Rightarrow> (case r_error reply of
       Some e \<Rightarrow> add_result k (Inl (errorFromProto e))
     | None \<Rightarrow> (case read_operation oper reply of
         None \<Rightarrow> panic
       | Some x \<Rightarrow> add_result k (Inr x))))"

section \<open>Connect futures\<close>

definition nextFutureID :: "nat op" where
  "nextFutureID = do {
     n \<leftarrow> getc c_future_id;
     modc (\<lambda>c. c\<lparr>c_future_id := Suc n\<rparr>);
     ret (Suc n) }"

text \<open>Called with the client lock held; the functions run in that lock hold.\<close>

definition resolveConnectFutures :: "err option \<Rightarrow> unit op" where
  "resolveConnectFutures err = do {
     futs \<leftarrow> getc c_futures;
     for_each (\<lambda>(k, oper). runOperation k oper err) (gm_vals futs);
     modc (\<lambda>c. c\<lparr>c_futures := []\<rparr>) }"

definition onConnect :: "call \<Rightarrow> operation \<Rightarrow> task list op" where
  "onConnect k oper = do {
     st \<leftarrow> getc c_state;
     (case st of
        StateConnected \<Rightarrow> ret [TCall (RunOperation k oper None)]
      | StateDisconnected \<Rightarrow> ret [TCall (RunOperation k oper (Some (Sentinel ErrClientDisconnected)))]
      | StateClosed \<Rightarrow> ret [TCall (RunOperation k oper (Some (Sentinel ErrClientClosed)))]
      | StateConnecting \<Rightarrow> do {
          i \<leftarrow> nextFutureID;
          modc (\<lambda>c. c\<lparr>c_futures := gm_put i (k, oper) (c_futures c)\<rparr>);
          spawn [TCall (FutureTimeout i)];
          ret [] }) }"

text \<open>The read timeout of a future; one already resolved is gone.\<close>

definition futureTimeout :: "nat \<Rightarrow> unit op" where
  "futureTimeout i = do {
     futs \<leftarrow> getc c_futures;
     (case gm_get futs i of
        None \<Rightarrow> ret ()
      | Some (k, oper) \<Rightarrow> do {
          modc (\<lambda>c. c\<lparr>c_futures := gm_del i (c_futures c)\<rparr>);
          runOperation k oper (Some (Sentinel ErrTimeout)) }) }"

text \<open>\<open>Send\<close>, \<open>RPC\<close>, \<open>Publish\<close>, \<open>History\<close>, \<open>Presence\<close> and \<open>PresenceStats\<close> of the client.\<close>

definition clientCall :: "call \<Rightarrow> operation \<Rightarrow> task list op" where
  "clientCall k oper = do {
     st \<leftarrow> getc c_state;
     if st = StateClosed then do {
       add_result k (Inl (Sentinel ErrClientClosed)); ret [] }
     else ret [TCall (OnConnect k oper)] }"

section \<open>Properties\<close>

text \<open>
  C31: a command never carries id 0, which is what tells a reply from a ping or push, and the loop
  that guarantees it ends: of any \<open>n < 2^32\<close> ids taken in a row no two are equal, also across the
  wrap-around of the counter.
\<close>

theorem cmd_ids_distinct:
  assumes "n < 2 ^ 32"
  shows "0 \<notin> set (ids_from c n) \<and> distinct (ids_from c n)"
proof -
  define k where "k = 2 ^ 32 - 1 - unat c"
  have c: "unat c < 2 ^ 32" using unsigned_less[of c] by simp
  have split_ids: "ids_from c (a + b) = ids_from c a @ ids_from (last (c # ids_from c a)) b" for a b c
    by (induction a arbitrary: c) auto
  have inj: "distinct xs" if "distinct (map unat xs)" for xs :: "u32 list"
    using that by (simp add: distinct_map)
  show ?thesis
  proof (cases "n \<le> k")
    case True
    then have "map unat (ids_from c n) = [unat c + 1 ..< unat c + 1 + n]"
      using c by (intro unat_ids_from) (simp add: k_def)
    then show ?thesis using ids_from_nonzero inj by (metis distinct_upt)
  next
    case False
    let ?m = "last (c # ids_from c k)"
    have mk: "map unat (ids_from c k) = [unat c + 1 ..< 2 ^ 32]"
      using c unat_ids_from[of c k] by (simp add: k_def)
    have m: "unat ?m = 2 ^ 32 - 1"
    proof (cases k)
      case 0
      then show ?thesis using c by (simp add: k_def)
    next
      case (Suc j)
      then have ne: "ids_from c k \<noteq> []" by simp
      then have "unat ?m = last (map unat (ids_from c k))" by (simp add: last_map)
      also have "\<dots> = 2 ^ 32 - 1"
        using Suc unfolding mk by (intro last_upt) (simp add: k_def)
      finally show ?thesis .
    qed
    obtain j where j: "n = k + Suc j" using False by (metis add_Suc_right less_imp_Suc_add not_le)
    have first: "unat (next_id ?m) = 1" using m by (simp add: unat_next_id)
    have jb: "1 + j < 2 ^ 32" "Suc j \<le> unat c" using j assms c by (auto simp: k_def)
    have rest: "map unat (ids_from ?m (Suc j)) = [1 ..< Suc (Suc j)]"
      using unat_ids_from[of "next_id ?m" j] first jb by (simp add: upt_conv_Cons)
    have "map unat (ids_from c n) = [unat c + 1 ..< 2 ^ 32] @ [1 ..< Suc (Suc j)]"
      using split_ids[of c k "Suc j"] mk rest j by simp
    moreover have "distinct ([unat c + 1 ..< 2 ^ 32] @ [1 ..< Suc (Suc j)])" using jb by auto
    ultimately show ?thesis using ids_from_nonzero inj by metis
  qed
qed

theorem cmd_ids_distinct_witness:
  "ids_from (- 2) 3 = [- 1, 1, 2] \<and> distinct (ids_from (- 2) 3)"
proof
  show "ids_from (- 2) 3 = [- 1, 1, 2]" by (simp add: numeral_3_eq_3 next_id_eq)
  show "distinct (ids_from (- 2) 3)" using cmd_ids_distinct[of 3 "- 2"] by simp
qed

end
