(* ===== verification/Subscriptions.thy ===== *)
theory Subscriptions
  imports Requests
begin

text \<open>
  The operations of a subscription, \<^verbatim>\<open>subscription.go\<close>: its state transitions, the subscribe
  flow (state and token of the application, the subscribe command, its reply or error, the retry
  timer), publications, unsubscribe pushes, state invalidation and the token refresh. The first
  argument of an operation is the subscription; \<open>h\<close> says whether the goroutine runs inside an
  event handler.
\<close>

section \<open>Creation and the registry of channel ids\<close>

definition zero_config :: sub_config where
  "zero_config = \<lparr>sc_data = None, sc_token = [], sc_get_token = False, sc_positioned = False,
     sc_recoverable = False, sc_join_leave = False, sc_delta = DeltaTypeNone, sc_tags_filter = None,
     sc_min_resubscribe_delay = 0, sc_max_resubscribe_delay = 0, sc_get_state = False\<rparr>"

definition newSubscription :: "channel \<Rightarrow> sub_config option \<Rightarrow> sub" where
  "newSubscription ch config =
    (let cfg = (case config of None \<Rightarrow> zero_config | Some c \<Rightarrow> c)
     in \<lparr>s_channel = ch, s_cfg = cfg, s_state = SubStateUnsubscribed, s_events = (\<lambda>_. False),
         s_offset = 0, s_epoch = [], s_recover = False, s_future_id = 0, s_futures = [],
         s_token = sc_token cfg, s_resubscribe_attempts = 0,
         s_strategy = newBackoffReconnect (sc_min_resubscribe_delay cfg) (sc_max_resubscribe_delay cfg),
         s_resubscribe_timer = None, s_refresh_timer = None, s_delta_negotiated = False,
         s_prev_data = None, s_tags_filter = sc_tags_filter cfg, s_push_id = 0, s_inflight = False,
         s_attempt = 0, s_invalidations = 0, s_session = 0\<rparr>)"

definition NewSubscription :: "channel \<Rightarrow> sub_config option \<Rightarrow> (err + sid) op" where
  "NewSubscription ch config = do {
     subs \<leftarrow> getc c_subs;
     if gm_get subs ch \<noteq> None then ret (Inl (Sentinel ErrDuplicateSubscription))
     else if (case config of None \<Rightarrow> False
              | Some c \<Rightarrow> sc_tags_filter c \<noteq> None \<and> sc_delta c \<noteq> DeltaTypeNone)
       then ret (Inl (Other ''cannot use delta and tags filter together''))
     else do {
       s \<leftarrow> gets w_next_sid;
       modify (\<lambda>w. w\<lparr>w_next_sid := Suc s, w_heap := w_heap w @ [(s, newSubscription ch config)]\<rparr>);
       modc (\<lambda>c. c\<lparr>c_subs := gm_put ch s (c_subs c)\<rparr>);
       ret (Inr s) } }"

definition SetTagsFilter :: "sid \<Rightarrow> pb_filter option \<Rightarrow> err option op" where
  "SetTagsFilter s tagsFilter = do {
     cfg \<leftarrow> gets_of s s_cfg;
     if tagsFilter \<noteq> None \<and> sc_delta cfg \<noteq> DeltaTypeNone
     then ret (Some (Other ''cannot use delta and tags filter together''))
     else do { mods s (\<lambda>x. x\<lparr>s_tags_filter := tagsFilter\<rparr>); ret None } }"

definition updateSubscriptionPushID :: "sid \<Rightarrow> int \<Rightarrow> int \<Rightarrow> unit op" where
  "updateSubscriptionPushID s oldID newID = do {
     reg \<leftarrow> getc c_subs_by_id;
     when_do (oldID > 0 \<and> gm_get reg oldID = Some s)
       (modc (\<lambda>c. c\<lparr>c_subs_by_id := gm_del oldID (c_subs_by_id c)\<rparr>));
     when_do (newID > 0) (modc (\<lambda>c. c\<lparr>c_subs_by_id := gm_put newID s (c_subs_by_id c)\<rparr>)) }"

section \<open>Futures of a subscription\<close>

text \<open>Each runs on a goroutine of its own.\<close>

definition resolveSubFutures :: "sid \<Rightarrow> err option \<Rightarrow> unit op" where
  "resolveSubFutures s err = do {
     futs \<leftarrow> gets_of s s_futures;
     for_each (\<lambda>(k, oper). spawn [TCall (RunSubOperation s k oper err)]) (gm_vals futs);
     mods s (\<lambda>x. x\<lparr>s_futures := []\<rparr>) }"

definition onSubscribe :: "sid \<Rightarrow> call \<Rightarrow> operation \<Rightarrow> unit op" where
  "onSubscribe s k oper = do {
     st \<leftarrow> gets_of s s_state;
     (case st of
        SubStateSubscribed \<Rightarrow> spawn [TCall (RunSubOperation s k oper None)]
      | SubStateUnsubscribed \<Rightarrow>
          spawn [TCall (RunSubOperation s k oper (Some (Sentinel ErrSubscriptionUnsubscribed)))]
      | SubStateSubscribing \<Rightarrow> do {
          i \<leftarrow> gets_of s s_future_id;
          mods s (\<lambda>x. x\<lparr>s_future_id := Suc i, s_futures := gm_put (Suc i) (k, oper) (s_futures x)\<rparr>);
          spawn [TCall (SubFutureTimeout s (Suc i))] }) }"

text \<open>The function a call on a subscription registers: it goes on with the client's call.\<close>

definition runSubOperation :: "sid \<Rightarrow> call \<Rightarrow> operation \<Rightarrow> err option \<Rightarrow> task list op" where
  "runSubOperation s k oper err = do {
     cancelled \<leftarrow> gets w_ctx_done;
     if k \<in> set cancelled then do { add_result k (Inl (Sentinel ErrContext)); ret [] }
     else (case err of
        Some e \<Rightarrow> do { add_result k (Inl e); ret [] }
      | None \<Rightarrow> ret [TCall (OnConnect k oper)]) }"

definition subFutureTimeout :: "sid \<Rightarrow> nat \<Rightarrow> task list op" where
  "subFutureTimeout s i = do {
     futs \<leftarrow> gets_of s s_futures;
     (case gm_get futs i of
        None \<Rightarrow> ret []
      | Some (k, oper) \<Rightarrow> do {
          mods s (\<lambda>x. x\<lparr>s_futures := gm_del i (s_futures x)\<rparr>);
          runSubOperation s k oper (Some (Sentinel ErrTimeout)) }) }"

text \<open>\<open>Publish\<close>, \<open>History\<close>, \<open>Presence\<close> and \<open>PresenceStats\<close> of a subscription.\<close>

definition subCall :: "sid \<Rightarrow> call \<Rightarrow> operation \<Rightarrow> task list op" where
  "subCall s k oper = do {
     st \<leftarrow> gets_of s s_state;
     if st = SubStateUnsubscribed then do {
       add_result k (Inl (Sentinel ErrSubscriptionUnsubscribed)); ret [] }
     else ret [TCall (OnSubscribe s k oper)] }"

section \<open>State transitions\<close>

definition queueSubscribingLocked :: "sid \<Rightarrow> u32 \<Rightarrow> string \<Rightarrow> unit op" where
  "queueSubscribingLocked s code reason = do {
     ev \<leftarrow> gets_of s s_events;
     when_do (ev SHSubscribing)
       (do { _ \<leftarrow> queueEvent (JEvents [EvSubscribing s code reason]); ret () }) }"

definition stop_sub_timers :: "sid \<Rightarrow> unit op" where
  "stop_sub_timers s = do {
     t \<leftarrow> gets_of s s_resubscribe_timer;
     stop_timer t;
     r \<leftarrow> gets_of s s_refresh_timer;
     stop_timer r }"

definition moveToUnsubscribedLocked :: "sid \<Rightarrow> u32 \<Rightarrow> string \<Rightarrow> err \<Rightarrow> unit op" where
  "moveToUnsubscribedLocked s code reason futuresErr = do {
     mods s (\<lambda>x. x\<lparr>s_attempt := Suc (s_attempt x), s_resubscribe_attempts := 0\<rparr>);
     stop_sub_timers s;
     st \<leftarrow> gets_of s s_state;
     resolveSubFutures s (Some futuresErr);
     mods s (\<lambda>x. x\<lparr>s_state := SubStateUnsubscribed\<rparr>);
     pid \<leftarrow> gets_of s s_push_id;
     when_do (pid \<noteq> 0) (do {
       updateSubscriptionPushID s pid 0;
       mods s (\<lambda>x. x\<lparr>s_push_id := 0\<rparr>) });
     ev \<leftarrow> gets_of s s_events;
     when_do (st \<noteq> SubStateUnsubscribed \<and> ev SHUnsubscribe)
       (do { _ \<leftarrow> queueEvent (JEvents [EvUnsubscribed s code reason]); ret () }) }"

definition moveToUnsubscribed :: "sid \<Rightarrow> u32 \<Rightarrow> string \<Rightarrow> unit op" where
  "moveToUnsubscribed s code reason =
     moveToUnsubscribedLocked s code reason (Sentinel ErrSubscriptionUnsubscribed)"

definition moveToSubscribingLocked :: "sid \<Rightarrow> u32 \<Rightarrow> string \<Rightarrow> unit op" where
  "moveToSubscribingLocked s code reason = do {
     st \<leftarrow> gets_of s s_state;
     if st = SubStateUnsubscribed then ret ()
     else do {
       mods s (\<lambda>x. x\<lparr>s_resubscribe_attempts := 0\<rparr>);
       stop_sub_timers s;
       mods s (\<lambda>x. x\<lparr>s_state := SubStateSubscribing\<rparr>);
       when_do (st \<noteq> SubStateSubscribing) (queueSubscribingLocked s code reason) } }"

definition scheduleResubscribe :: "sid \<Rightarrow> unit op" where
  "scheduleResubscribe s = do {
     t \<leftarrow> gets_of s s_resubscribe_timer;
     stop_timer t;
     mods s (\<lambda>x. x\<lparr>s_resubscribe_timer := None\<rparr>);
     fa \<leftarrow> gets (\<lambda>w. en_for_attempt (w_env w));
     strategy \<leftarrow> gets_of s s_strategy;
     attempts \<leftarrow> gets_of s s_resubscribe_attempts;
     mods s (\<lambda>x. x\<lparr>s_resubscribe_attempts := Suc (s_resubscribe_attempts x)\<rparr>);
     n \<leftarrow> after_func (timeBeforeNextAttempt fa strategy attempts) (TmResubscribe s);
     mods s (\<lambda>x. x\<lparr>s_resubscribe_timer := Some n\<rparr>) }"

definition arm_sub_refresh :: "sid \<Rightarrow> u32 \<Rightarrow> unit op" where
  "arm_sub_refresh s ttl = do {
     st \<leftarrow> gets_of s s_state;
     if st \<noteq> SubStateSubscribed then ret ()
     else do {
       t \<leftarrow> gets_of s s_refresh_timer;
       stop_timer t;
       session \<leftarrow> gets_of s s_session;
       n \<leftarrow> after_func (sub_refresh_delay ttl) (TmSubRefresh s session);
       mods s (\<lambda>x. x\<lparr>s_refresh_timer := Some n\<rparr>) } }"

section \<open>Commands of a subscription\<close>

definition unsubscribe_failed :: "unit op" where
  "unsubscribe_failed = spawn [TClient (HandleTransportDisconnect None
     (Some (mk_disconnect connectingUnsubscribeError ''unsubscribe error'' True)))]"

definition sendUnsubscribe :: "channel \<Rightarrow> unit op" where
  "sendUnsubscribe ch = do {
     i \<leftarrow> nextCmdID;
     e \<leftarrow> sendAsync ((new_command i)\<lparr>cmd_unsubscribe := Some ch\<rparr>) CbUnsubscribe;
     (case e of None \<Rightarrow> ret () | Some _ \<Rightarrow> unsubscribe_failed) }"

definition unsubscribeReply :: "err + pb_reply \<Rightarrow> unit op" where
  "unsubscribeReply r = (case r of
     Inl e \<Rightarrow> unsubscribe_failed
   | Inr reply \<Rightarrow> (case r_error reply of Some e \<Rightarrow> unsubscribe_failed | None \<Rightarrow> ret ()))"

definition sendUnsubscribeLocked :: "sid \<Rightarrow> unit op" where
  "sendUnsubscribeLocked s = do {
     connected \<leftarrow> getc c_connected;
     if \<not> connected then ret ()
     else do {
       ch \<leftarrow> gets_of s s_channel;
       sendUnsubscribe ch } }"

definition subscribe_request :: "channel \<Rightarrow> slice \<Rightarrow> bool \<Rightarrow> stream_position \<Rightarrow> string \<Rightarrow> bool \<Rightarrow> bool
    \<Rightarrow> bool \<Rightarrow> string \<Rightarrow> pb_filter option \<Rightarrow> u64 \<Rightarrow> subscribe_req" where
  "subscribe_request ch data recover sp token positioned recoverable joinLeave deltaType tagsFilter flag =
    (let params = empty_subscribe_req\<lparr>sq_channel := ch\<rparr>;
         params = (if recover then params
             \<lparr>sq_recover := True, sq_offset := (if sp_offset sp > 0 then sp_offset sp else 0),
              sq_epoch := sp_epoch sp\<rparr> else params);
         params = params\<lparr>sq_token := token, sq_data := data, sq_positioned := positioned,
             sq_recoverable := recoverable, sq_join_leave := joinLeave, sq_flag := flag\<rparr>;
         params = (if deltaType \<noteq> DeltaTypeNone then params\<lparr>sq_delta := deltaType\<rparr> else params)
     in (case tagsFilter of None \<Rightarrow> params | Some f \<Rightarrow> params\<lparr>sq_tf := Some f\<rparr>))"

definition sendSubscribe :: "subscribe_req \<Rightarrow> callback \<Rightarrow> err option op" where
  "sendSubscribe params cb = do {
     i \<leftarrow> nextCmdID;
     sendAsync ((new_command i)\<lparr>cmd_subscribe := Some params\<rparr>) cb }"

definition sendSubRefresh :: "channel \<Rightarrow> string \<Rightarrow> callback \<Rightarrow> unit op" where
  "sendSubRefresh ch token cb = do {
     i \<leftarrow> nextCmdID;
     _ \<leftarrow> sendAsync ((new_command i)\<lparr>cmd_sub_refresh := Some (ch, token)\<rparr>) cb;
     ret () }"

section \<open>Subscribe and Unsubscribe of the application\<close>

definition subscribeCall :: "sid \<Rightarrow> call \<Rightarrow> task list op" where
  "subscribeCall s k = do {
     st \<leftarrow> getc c_state;
     if st = StateClosed then do { return_to (Some k) (Some (Sentinel ErrClientClosed)); ret [] }
     else ret [TSub (SubscribeRegistered s k)] }"

definition isRegistered :: "sid \<Rightarrow> bool op" where
  "isRegistered s = do {
     subs \<leftarrow> getc c_subs;
     ch \<leftarrow> gets_of s s_channel;
     ret (gm_get subs ch = Some s) }"

definition subscribeRegistered :: "sid \<Rightarrow> call \<Rightarrow> task list op" where
  "subscribeRegistered s k = do {
     ok \<leftarrow> isRegistered s;
     if \<not> ok then do {
       return_to (Some k) (Some (Other ''subscription was removed from the client'')); ret [] }
     else ret [TSub (SubscribeStart s k)] }"

definition subscribeStart :: "sid \<Rightarrow> call \<Rightarrow> task list op" where
  "subscribeStart s k = do {
     st \<leftarrow> gets_of s s_state;
     if st = SubStateSubscribed \<or> st = SubStateSubscribing
     then do { return_to (Some k) None; ret [] }
     else do {
       mods s (\<lambda>x. x\<lparr>s_state := SubStateSubscribing\<rparr>);
       queueSubscribingLocked s subscribingSubscribeCalled ''subscribe called'';
       ret [TSub (SubscribeConnected s k)] } }"

definition subscribeConnected :: "sid \<Rightarrow> call \<Rightarrow> task list op" where
  "subscribeConnected s k = do {
     st \<leftarrow> getc c_state;
     if st \<noteq> StateConnected then do { return_to (Some k) None; ret [] }
     else ret [TSub (Resubscribe s), TClient (ReturnErr (Some k) None)] }"

definition unsubscribeCall :: "sid \<Rightarrow> call \<Rightarrow> task list op" where
  "unsubscribeCall s k = do {
     st \<leftarrow> getc c_state;
     if st = StateClosed then do { return_to (Some k) (Some (Sentinel ErrClientClosed)); ret [] }
     else ret [TSub (Unsubscribe s k)] }"

definition unsubscribe :: "sid \<Rightarrow> u32 \<Rightarrow> string \<Rightarrow> bool \<Rightarrow> unit op" where
  "unsubscribe s code reason send_it = do {
     st \<leftarrow> gets_of s s_state;
     when_do (send_it \<and> st \<noteq> SubStateUnsubscribed) (sendUnsubscribeLocked s);
     moveToUnsubscribedLocked s code reason (Sentinel ErrSubscriptionUnsubscribed) }"

definition removeCall :: "sid \<Rightarrow> call \<Rightarrow> task list op" where
  "removeCall s k = do {
     st \<leftarrow> gets_of s s_state;
     if st \<noteq> SubStateUnsubscribed then do {
       return_to (Some k) (Some (Other ''subscription must be unsubscribed to be removed'')); ret [] }
     else ret [TSub (RemoveEntry s k)] }"

definition removeEntry :: "sid \<Rightarrow> call \<Rightarrow> unit op" where
  "removeEntry s k = do {
     ok \<leftarrow> isRegistered s;
     ch \<leftarrow> gets_of s s_channel;
     when_do ok (modc (\<lambda>c. c\<lparr>c_subs := gm_del ch (c_subs c)\<rparr>));
     return_to (Some k) None }"

end
