(* ===== verification/SubscribeFlow.thy ===== *)
theory SubscribeFlow
  imports Subscriptions
begin

text \<open>
  The subscribe flow of \<^verbatim>\<open>subscription.go\<close>: what a subscription does between a subscribe that is
  due and the subscribed state, and what the server and the application do to it meanwhile.

  \<open>inflight\<close> is set by \<open>resubscribe\<close> and cleared where that subscribe ends; in between the
  goroutines \<open>GetState\<close>, \<open>CallGetState\<close>, \<open>ContinueResubscribe\<close>, \<open>CallGetSubToken\<close> and
  \<open>SendSubscribe\<close>, or the pending request, carry the subscribe. An operation that the code
  continues on the same goroutine is returned as the next task.
\<close>

section \<open>Starting a subscribe\<close>

definition resubscribe :: "sid \<Rightarrow> task list op" where
  "resubscribe s = do {
     st \<leftarrow> gets_of s s_state;
     if st \<noteq> SubStateSubscribing then ret []
     else do {
       inflight \<leftarrow> gets_of s s_inflight;
       if inflight then ret []
       else do {
         connected \<leftarrow> getc c_connected;
         if \<not> connected then ret []
         else do {
           cfg \<leftarrow> gets_of s s_cfg;
           recover \<leftarrow> gets_of s s_recover;
           token \<leftarrow> gets_of s s_token;
           mods s (\<lambda>x. x\<lparr>s_inflight := True\<rparr>);
           if sc_get_state cfg \<and> \<not> recover then do {
             spawn [TSub (GetState s)]; ret [] }
           else if token = [] \<and> sc_get_token cfg then do {
             spawn [TSub (ContinueResubscribe s True)]; ret [] }
           else ret [TSub (ContinueResubscribe s False)] } } } }"

text \<open>
  \<open>getStateAndResubscribe\<close>: it notes the attempt and the invalidations, calls \<open>GetState\<close> without
  the lock, and looks again. \<open>res\<close> is what the application's \<open>GetState\<close> returned.
\<close>

definition getState :: "sid \<Rightarrow> task list op" where
  "getState s = do {
     attempt \<leftarrow> gets_of s s_attempt;
     invalidations \<leftarrow> gets_of s s_invalidations;
     ret [TSub (CallGetState s attempt invalidations)] }"

definition end_inflight :: "sid \<Rightarrow> unit op" where
  "end_inflight s = mods s (\<lambda>x. x\<lparr>s_inflight := False\<rparr>)"

definition gotState :: "err + stream_position \<Rightarrow> sid \<Rightarrow> nat \<Rightarrow> nat \<Rightarrow> task list op" where
  "gotState res s attempt invalidations = do {
     st \<leftarrow> gets_of s s_state;
     a \<leftarrow> gets_of s s_attempt;
     i \<leftarrow> gets_of s s_invalidations;
     if st \<noteq> SubStateSubscribing then do { end_inflight s; ret [] }
     else if a \<noteq> attempt \<or> i \<noteq> invalidations then do {
       end_inflight s; ret [TSub (Resubscribe s)] }
     else (case res of
        Inl e \<Rightarrow> do {
          end_inflight s;
          ret [TSub (EmitError s (SubscriptionGetStateError e)), TSub (GetStateFailed s attempt)] }
      | Inr sp \<Rightarrow> do {
          mods s (\<lambda>x. x\<lparr>s_recover := True, s_offset := sp_offset sp, s_epoch := sp_epoch sp\<rparr>);
          ret [TSub (ContinueResubscribe s True)] }) }"

section \<open>Is this attempt still current\<close>

text \<open>
  \<open>lockCurrentAttempt\<close> and \<open>lockCurrentSubscribe\<close>: whether the lock is kept, and otherwise what the
  goroutine does next.
\<close>

definition noConnGeneration :: int where "noConnGeneration = - 1"

definition lockCurrentAttempt :: "sid \<Rightarrow> nat \<Rightarrow> (bool \<times> task list) op" where
  "lockCurrentAttempt s attempt = do {
     st \<leftarrow> gets_of s s_state;
     a \<leftarrow> gets_of s s_attempt;
     if st = SubStateSubscribing \<and> a = attempt then ret (True, [])
     else ret (False, if st = SubStateSubscribing then [TSub (Resubscribe s)] else []) }"

definition lockCurrentSubscribe :: "sid \<Rightarrow> nat \<Rightarrow> int \<Rightarrow> (bool \<times> task list) op" where
  "lockCurrentSubscribe s attempt connGeneration =
     (if connGeneration = noConnGeneration then lockCurrentAttempt s attempt
      else do {
        st \<leftarrow> gets_of s s_state;
        a \<leftarrow> gets_of s s_attempt;
        g \<leftarrow> getc c_generation;
        if st = SubStateSubscribing \<and> a = attempt \<and> g = connGeneration then ret (True, [])
        else ret (False, if st = SubStateSubscribing then [TSub (Resubscribe s)] else []) })"

definition getStateFailed :: "sid \<Rightarrow> nat \<Rightarrow> task list op" where
  "getStateFailed s attempt = do {
     (ok, ts) \<leftarrow> lockCurrentAttempt s attempt;
     when_do ok (scheduleResubscribe s);
     ret ts }"

section \<open>Token and subscribe command\<close>

text \<open>\<open>continueResubscribe\<close> in three segments: before, during and after \<open>GetToken\<close>.\<close>

definition continueResubscribe :: "sid \<Rightarrow> bool \<Rightarrow> task list op" where
  "continueResubscribe s async = do {
     token \<leftarrow> gets_of s s_token;
     cfg \<leftarrow> gets_of s s_cfg;
     attempt \<leftarrow> gets_of s s_attempt;
     invalidations \<leftarrow> gets_of s s_invalidations;
     if token = [] \<and> sc_get_token cfg then
       (if \<not> async then do { spawn [TSub (ContinueResubscribe s True)]; ret [] }
        else ret [TSub (CallGetSubToken s attempt invalidations)])
     else ret [TSub (SendSubscribe s attempt invalidations token)] }"

definition getSubscriptionToken :: "bool \<Rightarrow> err + string \<Rightarrow> err + string" where
  "getSubscriptionToken has_handler res = (if has_handler then res
     else Inl (Other ''GetToken must be set to get subscription token''))"

definition gotSubToken :: "err + string \<Rightarrow> sid \<Rightarrow> nat \<Rightarrow> nat \<Rightarrow> task list op" where
  "gotSubToken res s attempt invalidations = do {
     cfg \<leftarrow> gets_of s s_cfg;
     st \<leftarrow> gets_of s s_state;
     a \<leftarrow> gets_of s s_attempt;
     i \<leftarrow> gets_of s s_invalidations;
     if st \<noteq> SubStateSubscribing then do { end_inflight s; ret [] }
     else if a \<noteq> attempt \<or> i \<noteq> invalidations then do {
       end_inflight s; ret [TSub (Resubscribe s)] }
     else (case getSubscriptionToken (sc_get_token cfg) res of
        Inl e \<Rightarrow> do {
          end_inflight s;
          if errors_is e ErrUnauthorized then do {
            moveToUnsubscribedLocked s unsubscribedUnauthorized ''unauthorized''
              (Sentinel ErrSubscriptionUnsubscribed);
            ret [] }
          else ret [TSub (SubscribeError s e attempt noConnGeneration)] }
      | Inr token \<Rightarrow>
          if token = [] then do {
            end_inflight s;
            moveToUnsubscribedLocked s unsubscribedUnauthorized ''unauthorized''
              (Sentinel ErrSubscriptionUnsubscribed);
            ret [] }
          else do {
            mods s (\<lambda>x. x\<lparr>s_token := token\<rparr>);
            ret [TSub (SendSubscribe s attempt invalidations token)] }) }"

text \<open>What a subscribe asks for: the position to recover from is sent only when there is one.\<close>

definition subscribe_params :: "sub \<Rightarrow> string \<Rightarrow> subscribe_req" where
  "subscribe_params x token =
    (let cfg = s_cfg x;
         sp = (if s_recover x then \<lparr>sp_offset = s_offset x, sp_epoch = s_epoch x\<rparr>
               else \<lparr>sp_offset = 0, sp_epoch = []\<rparr>)
     in subscribe_request (s_channel x) (sc_data cfg) (s_recover x) sp token (sc_positioned cfg)
          (sc_recoverable cfg) (sc_join_leave cfg) (sc_delta cfg) (s_tags_filter x)
          (subscribe_flag (sc_get_state cfg)))"

definition sendSubscribeNow :: "sid \<Rightarrow> nat \<Rightarrow> nat \<Rightarrow> string \<Rightarrow> unit op" where
  "sendSubscribeNow s attempt invalidations token = do {
     st \<leftarrow> gets_of s s_state;
     a \<leftarrow> gets_of s s_attempt;
     i \<leftarrow> gets_of s s_invalidations;
     connected \<leftarrow> getc c_connected;
     if st \<noteq> SubStateSubscribing then end_inflight s
     else if a \<noteq> attempt \<or> i \<noteq> invalidations then do {
       end_inflight s;
       spawn [TSub (Resubscribe s)] }
     else if \<not> connected then end_inflight s
     else do {
       params \<leftarrow> gets_of s (\<lambda>x. subscribe_params x token);
       g \<leftarrow> getc c_generation;
       e \<leftarrow> sendSubscribe params (CbSubscribe s g attempt);
       (case e of None \<Rightarrow> ret ()
        | Some _ \<Rightarrow> do { end_inflight s; scheduleResubscribe s }) } }"

section \<open>A subscribe that failed\<close>

definition subscribeError :: "sid \<Rightarrow> err \<Rightarrow> nat \<Rightarrow> int \<Rightarrow> task list op" where
  "subscribeError s e attempt connGeneration = do {
     (ok, ts) \<leftarrow> lockCurrentSubscribe s attempt connGeneration;
     cfg \<leftarrow> gets_of s s_cfg;
     if \<not> ok then ret ts
     else if errors_is e ErrTimeout then do {
       spawn [TClient (HandleTransportDisconnect None
         (Some (mk_disconnect connectingSubscribeTimeout ''subscribe timeout'' True)))];
       ret [] }
     else if (case errors_as e of None \<Rightarrow> False
              | Some x \<Rightarrow> e_code x = errorCodeUnrecoverablePosition) \<and> sc_get_state cfg
       then ret [TSub (SubscribeUnrecoverable s attempt connGeneration)]
     else ret [TSub (EmitError s (SubscriptionSubscribeError e)),
               TSub (SubscribeErrorReported s e attempt connGeneration)] }"

definition subscribeUnrecoverable :: "sid \<Rightarrow> nat \<Rightarrow> int \<Rightarrow> task list op" where
  "subscribeUnrecoverable s attempt connGeneration = do {
     (ok, ts) \<leftarrow> lockCurrentSubscribe s attempt connGeneration;
     when_do ok (do {
       mods s (\<lambda>x. x\<lparr>s_recover := False, s_offset := 0, s_epoch := [], s_prev_data := None\<rparr>);
       scheduleResubscribe s });
     ret ts }"

definition subscribeErrorReported :: "sid \<Rightarrow> err \<Rightarrow> nat \<Rightarrow> int \<Rightarrow> task list op" where
  "subscribeErrorReported s e attempt connGeneration = do {
     (ok, ts) \<leftarrow> lockCurrentSubscribe s attempt connGeneration;
     when_do ok (case errors_as e of
        None \<Rightarrow> scheduleResubscribe s
      | Some x \<Rightarrow>
          if e_code x \<noteq> 109 \<and> \<not> e_temporary x
          then moveToUnsubscribedLocked s (e_code x) (e_message x) e
          else do {
            when_do (e_code x = 109) (mods s (\<lambda>x. x\<lparr>s_token := []\<rparr>));
            scheduleResubscribe s });
     ret ts }"

section \<open>A subscribe that succeeded\<close>

definition deltaFailed :: "bool \<Rightarrow> sid \<Rightarrow> u64 \<Rightarrow> err \<Rightarrow> task list op" where
  "deltaFailed in_handler s offset e = do {
     ch \<leftarrow> gets_of s s_channel;
     ts \<leftarrow> handleError in_handler (DeltaError ch offset e);
     ret (ts @ [TClient (MoveToDisconnected disconnectBadProtocol ''delta error'')]) }"

definition pub_event :: "pb_pub \<Rightarrow> slice \<Rightarrow> publication" where
  "pub_event p d = (the (pubFromProto (Some p)))\<lparr>pub_data := d\<rparr>"

definition subscribed_event :: "sid \<Rightarrow> pb_subscribe_result \<Rightarrow> event" where
  "subscribed_event s res = EvSubscribed s (sr_was_recovering res) (sr_recovered res)
     (sr_recoverable res) (sr_positioned res)
     (if sr_positioned res \<or> sr_recoverable res
      then Some \<lparr>sp_offset = sr_offset res, sp_epoch = sr_epoch res\<rparr> else None)
     (sr_data res)"

text \<open>
  The part of \<open>moveToSubscribed\<close> after the deltas are decoded; \<open>datas\<close> are their data.
\<close>

definition enterSubscribed :: "bool \<Rightarrow> sid \<Rightarrow> pb_subscribe_result \<Rightarrow> pb_pub list \<Rightarrow> slice list \<Rightarrow> task list op" where
  "enterSubscribed in_handler s res pubs datas = do {
     mods s (\<lambda>x. x\<lparr>s_state := SubStateSubscribed, s_session := Suc (s_session x)\<rparr>);
     session \<leftarrow> gets_of s s_session;
     when_do (sr_expires res) (arm_sub_refresh s (sr_ttl res));
     when_do (sr_recoverable res) (mods s (\<lambda>x. x\<lparr>s_recover := True\<rparr>));
     mods s (\<lambda>x. x\<lparr>s_resubscribe_attempts := 0\<rparr>);
     t \<leftarrow> gets_of s s_resubscribe_timer;
     stop_timer t;
     resolveSubFutures s None;
     mods s (\<lambda>x. if sr_epoch res \<noteq> [] \<or> s_epoch x = []
                 then x\<lparr>s_offset := sr_offset res, s_epoch := sr_epoch res\<rparr> else x);
     oldPushID \<leftarrow> gets_of s s_push_id;
     mods s (\<lambda>x. x\<lparr>s_push_id := sr_id res\<rparr>);
     updateSubscriptionPushID s oldPushID (sr_id res);
     ev \<leftarrow> gets_of s s_events;
     d1 \<leftarrow> queue_if (ev SHSubscribed) (JEvents [subscribed_event s res]);
     d2 \<leftarrow> queue_if (pubs \<noteq> []) (JSubPubs s session (zip pubs (map2 pub_event pubs datas)));
     ret (waitEvent in_handler (case d2 of None \<Rightarrow> d1 | Some n \<Rightarrow> Some n)) }"

definition moveToSubscribed :: "bool \<Rightarrow> sid \<Rightarrow> pb_subscribe_result \<Rightarrow> int \<Rightarrow> nat \<Rightarrow> task list op" where
  "moveToSubscribed in_handler s res connGeneration attempt = do {
     st \<leftarrow> gets_of s s_state;
     a \<leftarrow> gets_of s s_attempt;
     g \<leftarrow> getc c_generation;
     if st \<noteq> SubStateSubscribing then ret []
     else if a \<noteq> attempt then ret [TSub (Resubscribe s)]
     else if connGeneration \<noteq> g then do { scheduleResubscribe s; ret [] }
     else do {
       mods s (\<lambda>x. x\<lparr>s_delta_negotiated := sr_delta res\<rparr>);
       cd \<leftarrow> gets (\<lambda>w. en_codec (w_env w));
       ty \<leftarrow> getc c_ptype;
       prev \<leftarrow> gets_of s s_prev_data;
       (case deref_pubs (sr_publications res) of
          None \<Rightarrow> do { panic; ret [] }
        | Some pubs \<Rightarrow> (case applyDeltas cd ty (sr_delta res) prev pubs of
            (Inl (e, offset), prev') \<Rightarrow> do {
              mods s (\<lambda>x. x\<lparr>s_prev_data := prev'\<rparr>);
              ret [TSub (DeltaFailed s offset e)] }
          | (Inr datas, prev') \<Rightarrow> do {
              mods s (\<lambda>x. x\<lparr>s_prev_data := prev'\<rparr>);
              enterSubscribed in_handler s res pubs datas })) } }"

section \<open>Pushes of the server\<close>

definition adopt_position :: "pb_pub \<Rightarrow> sub \<Rightarrow> sub" where
  "adopt_position p x =
    (if pp_offset p > 0 then
       (let x = x\<lparr>s_offset := pp_offset p\<rparr>
        in if s_epoch x = [] \<and> pp_epoch p \<noteq> [] \<and> pp_channel p = []
           then x\<lparr>s_epoch := pp_epoch p\<rparr> else x)
     else x)"

definition handlePublication :: "bool \<Rightarrow> sid \<Rightarrow> pb_pub \<Rightarrow> task list op" where
  "handlePublication in_handler s p = do {
     st \<leftarrow> gets_of s s_state;
     if st \<noteq> SubStateSubscribed then ret []
     else do {
       cd \<leftarrow> gets (\<lambda>w. en_codec (w_env w));
       ty \<leftarrow> getc c_ptype;
       neg \<leftarrow> gets_of s s_delta_negotiated;
       prev \<leftarrow> gets_of s s_prev_data;
       (case applyDelta cd ty neg prev p of
          (Inl e, prev') \<Rightarrow> do {
            mods s (\<lambda>x. x\<lparr>s_prev_data := prev'\<rparr>);
            ret [TSub (DeltaFailed s (pp_offset p) e)] }
        | (Inr d, prev') \<Rightarrow> do {
            mods s (\<lambda>x. adopt_position p (x\<lparr>s_prev_data := prev'\<rparr>));
            ev \<leftarrow> gets_of s s_events;
            n \<leftarrow> queue_if (ev SHPublication) (JEvents [EvPublication s (pub_event p d)]);
            ret (waitEvent in_handler n) }) } }"

definition handleJoin :: "bool \<Rightarrow> sid \<Rightarrow> pb_info option \<Rightarrow> task list op" where
  "handleJoin in_handler s info = do {
     st \<leftarrow> gets_of s s_state;
     if st \<noteq> SubStateSubscribed then ret []
     else do {
       ev \<leftarrow> gets_of s s_events;
       n \<leftarrow> queue_if (ev SHJoin) (JEvents [EvJoin s (infoFromProto info)]);
       ret (waitEvent in_handler n) } }"

definition handleLeave :: "bool \<Rightarrow> sid \<Rightarrow> pb_info option \<Rightarrow> task list op" where
  "handleLeave in_handler s info = do {
     st \<leftarrow> gets_of s s_state;
     if st \<noteq> SubStateSubscribed then ret []
     else do {
       ev \<leftarrow> gets_of s s_events;
       n \<leftarrow> queue_if (ev SHLeave) (JEvents [EvLeave s (infoFromProto info)]);
       ret (waitEvent in_handler n) } }"

text \<open>The loop over the recovered publications, one of its rounds, on the dispatcher.\<close>

definition deliver_sub_pub :: "sid \<Rightarrow> nat \<Rightarrow> pb_pub \<times> publication \<Rightarrow> bool op" where
  "deliver_sub_pub s session pe = do {
     st \<leftarrow> gets_of s s_state;
     cur \<leftarrow> gets_of s s_session;
     if st \<noteq> SubStateSubscribed \<or> cur \<noteq> session then ret False
     else do {
       mods s (adopt_position (fst pe));
       ev \<leftarrow> gets_of s s_events;
       when_do (ev SHPublication)
         (modify (\<lambda>w. w\<lparr>w_delivered := w_delivered w @ [EvPublication s (snd pe)]\<rparr>));
       ret True } }"

definition invalidateState :: "sid \<Rightarrow> unit op" where
  "invalidateState s = do {
     pid \<leftarrow> gets_of s s_push_id;
     when_do (pid \<noteq> 0) (do {
       updateSubscriptionPushID s pid 0;
       mods s (\<lambda>x. x\<lparr>s_push_id := 0\<rparr>) });
     cfg \<leftarrow> gets_of s s_cfg;
     when_do (sc_get_token cfg) (mods s (\<lambda>x. x\<lparr>s_token := []\<rparr>));
     mods s (\<lambda>x. x\<lparr>s_invalidations := Suc (s_invalidations x), s_offset := 0,
       s_epoch := stateInvalidatedEpoch, s_prev_data := None\<rparr>) }"

text \<open>
  A push from code 2500 on: the subscription moves to subscribing and subscribes again, in \<open>handleUnsubscribe\<close>
  one call after the other.
\<close>

definition subscribeAgain :: "sid \<Rightarrow> u32 \<Rightarrow> string \<Rightarrow> task list op" where
  "subscribeAgain s code reason = do {
     moveToSubscribingLocked s code reason;
     ret [TSub (Resubscribe s)] }"

definition handleUnsubscribe :: "sid \<Rightarrow> pb_unsubscribe \<Rightarrow> task list op" where
  "handleUnsubscribe s u =
     (if unsubscribe_final (pu_code u) then do {
        inflight \<leftarrow> gets_of s s_inflight;
        when_do inflight (sendUnsubscribeLocked s);
        moveToUnsubscribedLocked s (pu_code u) (pu_reason u) (Sentinel ErrSubscriptionUnsubscribed);
        ret [] }
      else ret ((if pu_code u = unsubscribedStateInvalidated then [TSub (InvalidateState s)] else [])
        @ [TSub (MoveToSubscribing s (pu_code u) (pu_reason u))]))"

section \<open>Token refresh\<close>

definition isRefreshCurrent :: "sid \<Rightarrow> nat \<Rightarrow> nat \<Rightarrow> bool op" where
  "isRefreshCurrent s session invalidations = gets_of s (\<lambda>x.
     s_state x = SubStateSubscribed \<and> s_session x = session \<and> s_invalidations x = invalidations)"

definition unsubscribeIfRefreshCurrent :: "sid \<Rightarrow> nat \<Rightarrow> nat \<Rightarrow> u32 \<Rightarrow> string \<Rightarrow> unit op" where
  "unsubscribeIfRefreshCurrent s session invalidations code reason = do {
     ok \<leftarrow> isRefreshCurrent s session invalidations;
     when_do ok (do {
       sendUnsubscribeLocked s;
       moveToUnsubscribedLocked s code reason (Sentinel ErrSubscriptionUnsubscribed) }) }"

definition refresh :: "sid \<Rightarrow> nat \<Rightarrow> task list op" where
  "refresh s session = do {
     invalidations \<leftarrow> gets_of s s_invalidations;
     ok \<leftarrow> isRefreshCurrent s session invalidations;
     ret (if ok then [TSub (CallGetSubTokenRefresh s session invalidations)] else []) }"

definition gotRefreshSubToken :: "err + string \<Rightarrow> sid \<Rightarrow> nat \<Rightarrow> nat \<Rightarrow> task list op" where
  "gotRefreshSubToken res s session invalidations = do {
     cfg \<leftarrow> gets_of s s_cfg;
     ok \<leftarrow> isRefreshCurrent s session invalidations;
     if \<not> ok then ret []
     else (case getSubscriptionToken (sc_get_token cfg) res of
        Inl e \<Rightarrow>
          if errors_is e ErrUnauthorized
          then ret [TSub (SubRefreshFatal s session invalidations unsubscribedUnauthorized ''unauthorized'')]
          else ret [TSub (EmitError s (SubscriptionRefreshError e)), TSub (SubRefreshArm s session 10)]
      | Inr token \<Rightarrow>
          if token = []
          then ret [TSub (SubRefreshFatal s session invalidations unsubscribedUnauthorized ''unauthorized'')]
          else ret [TSub (SubRefreshSend s session invalidations token)]) }"

definition subRefreshArm :: "sid \<Rightarrow> nat \<Rightarrow> u32 \<Rightarrow> unit op" where
  "subRefreshArm s session ttl = do {
     cur \<leftarrow> gets_of s s_session;
     when_do (cur = session) (arm_sub_refresh s ttl) }"

text \<open>The token is kept, then sent without the lock.\<close>

definition subRefreshSend :: "sid \<Rightarrow> nat \<Rightarrow> nat \<Rightarrow> string \<Rightarrow> task list op" where
  "subRefreshSend s session invalidations token = do {
     ok \<leftarrow> isRefreshCurrent s session invalidations;
     if \<not> ok then ret []
     else do {
       mods s (\<lambda>x. x\<lparr>s_token := token\<rparr>);
       ret [TSub (SubRefreshWrite s session invalidations token)] } }"

definition subRefreshWrite :: "sid \<Rightarrow> nat \<Rightarrow> nat \<Rightarrow> string \<Rightarrow> unit op" where
  "subRefreshWrite s session invalidations token = do {
     ch \<leftarrow> gets_of s s_channel;
     sendSubRefresh ch token (CbSubRefresh s session invalidations) }"

definition subRefreshReply :: "sid \<Rightarrow> nat \<Rightarrow> nat \<Rightarrow> err + pb_refresh_result option \<Rightarrow> task list op" where
  "subRefreshReply s session invalidations r = do {
     ok \<leftarrow> isRefreshCurrent s session invalidations;
     if \<not> ok then ret []
     else (case r of
        Inl e \<Rightarrow> ret (TSub (EmitError s (SubscriptionRefreshError e))
          # (case errors_as e of
               Some x \<Rightarrow> if \<not> e_temporary x
                 then [TSub (SubRefreshFatal s session invalidations (e_code x) (e_message x))]
                 else [TSub (SubRefreshArm s session 10)]
             | None \<Rightarrow> [TSub (SubRefreshArm s session 10)]))
      | Inr None \<Rightarrow> do { panic; ret [] }
      | Inr (Some result) \<Rightarrow>
          ret (if rr_expires result then [TSub (SubRefreshArm s session (rr_ttl result))] else [])) }"

end
