(* ===== verification/ClientState.thy ===== *)
theory ClientState
  imports SubscribeFlow
begin

text \<open>
  The state transitions of the client, \<^verbatim>\<open>client.go\<close>: leaving the connected state, the three
  teardowns (to disconnected, to connecting, to closed), disconnect reports, and the calls of the
  application that change the state. A teardown is one lock hold of the client, in which the
  subscriptions move too and the events are queued.
\<close>

section \<open>The primitive transitions\<close>

definition setStateLocked :: "cstate \<Rightarrow> unit op" where
  "setStateLocked st = modc (\<lambda>c. c\<lparr>c_state := st, c_connected := (st = StateConnected)\<rparr>)"

definition setTransportLocked :: "tr option \<Rightarrow> unit op" where
  "setTransportLocked t = modc (\<lambda>c. c\<lparr>c_transport := t\<rparr>)"

definition isCurrentAttemptLocked :: "nat \<Rightarrow> bool op" where
  "isCurrentAttemptLocked attempt =
     getc (\<lambda>c. c_state c = StateConnecting \<and> c_attempt c = attempt)"

definition isConnectedAttemptLocked :: "nat \<Rightarrow> bool op" where
  "isConnectedAttemptLocked attempt =
     getc (\<lambda>c. c_state c = StateConnected \<and> c_attempt c = attempt)"

definition clearConnectedState :: "unit op" where
  "clearConnectedState = do {
     modc (\<lambda>c. c\<lparr>c_generation := c_generation c + 1, c_subs_by_id := []\<rparr>);
     t \<leftarrow> getc c_reconnect_timer;
     stop_timer t;
     r \<leftarrow> getc c_refresh_timer;
     stop_timer r;
     modc (\<lambda>c. c\<lparr>c_reconnect_timer := None, c_refresh_timer := None\<rparr>);
     ch \<leftarrow> getc c_close_ch;
     (case ch of None \<Rightarrow> ret () | Some n \<Rightarrow> do {
        close_chan n;
        modc (\<lambda>c. c\<lparr>c_close_ch := None\<rparr>) });
     reqs \<leftarrow> getc c_requests;
     modc (\<lambda>c. c\<lparr>c_requests := []\<rparr>);
     for_each (\<lambda>q. spawn [TCall (RunCallback (rq_cb q) (Inl (Sentinel ErrClientDisconnected)))])
       (gm_vals reqs) }"

definition drop_transport :: "unit op" where
  "drop_transport = do {
     t \<leftarrow> getc c_transport;
     (case t of None \<Rightarrow> ret () | Some t \<Rightarrow> do {
        close_transport t;
        setTransportLocked None }) }"

definition subs_to_subscribing :: "unit op" where
  "subs_to_subscribing = do {
     subs \<leftarrow> getc c_subs;
     for_each (\<lambda>s. moveToSubscribingLocked s subscribingTransportClosed ''transport closed'')
       (gm_vals subs) }"

definition scheduleReconnectLocked :: "unit op" where
  "scheduleReconnectLocked = do {
     modc (\<lambda>c. c\<lparr>c_reconnect_attempts := Suc (c_reconnect_attempts c)\<rparr>);
     t \<leftarrow> getc c_reconnect_timer;
     stop_timer t;
     modc (\<lambda>c. c\<lparr>c_reconnect_timer := None\<rparr>);
     fa \<leftarrow> gets (\<lambda>w. en_for_attempt (w_env w));
     strategy \<leftarrow> getc c_strategy;
     attempts \<leftarrow> getc c_reconnect_attempts;
     n \<leftarrow> after_func (timeBeforeNextAttempt fa strategy attempts) TmReconnect;
     modc (\<lambda>c. c\<lparr>c_reconnect_timer := Some n\<rparr>) }"

section \<open>To disconnected\<close>

text \<open>\<open>ok\<close> is the outcome of \<open>current\<close>, checked in the same lock hold.\<close>

definition disconnect_now :: "u32 \<Rightarrow> string \<Rightarrow> unit op" where
  "disconnect_now code reason = do {
     modc (\<lambda>c. c\<lparr>c_attempt := Suc (c_attempt c)\<rparr>);
     drop_transport;
     prevState \<leftarrow> getc c_state;
     setStateLocked StateDisconnected;
     clearConnectedState;
     resolveConnectFutures (Some (Sentinel ErrClientDisconnected));
     subs_to_subscribing;
     serverSubs \<leftarrow> getc (\<lambda>c. gm_keys (c_server_subs c));
     ev \<leftarrow> getc c_events;
     when_do (prevState = StateConnected \<and> ev HServerSubscribing)
       (do { _ \<leftarrow> queueEvent (JEvents (map EvServerSubscribing serverSubs)); ret () });
     when_do (ev HDisconnected)
       (do { _ \<leftarrow> queueEvent (JEvents [EvDisconnected code reason]); ret () }) }"

definition moveToDisconnectedIf :: "(client \<Rightarrow> bool) \<Rightarrow> u32 \<Rightarrow> string \<Rightarrow> bool op" where
  "moveToDisconnectedIf current code reason = do {
     st \<leftarrow> getc c_state;
     ok \<leftarrow> getc current;
     if st = StateDisconnected \<or> st = StateClosed \<or> \<not> ok then ret False
     else do { disconnect_now code reason; ret True } }"

definition moveToDisconnected :: "u32 \<Rightarrow> string \<Rightarrow> bool op" where
  "moveToDisconnected code reason = moveToDisconnectedIf (\<lambda>_. True) code reason"

definition moveToDisconnectedFrom :: "tr option \<Rightarrow> u32 \<Rightarrow> string \<Rightarrow> bool op" where
  "moveToDisconnectedFrom t code reason =
     moveToDisconnectedIf (\<lambda>c. t = None \<or> c_transport c = t) code reason"

section \<open>To connecting\<close>

definition reconnect_now :: "bool \<Rightarrow> u32 \<Rightarrow> string \<Rightarrow> task list op" where
  "reconnect_now in_handler code reason = do {
     drop_transport;
     setStateLocked StateConnecting;
     teardownAttempt \<leftarrow> getc c_attempt;
     clearConnectedState;
     resolveConnectFutures (Some (Sentinel ErrClientDisconnected));
     subs_to_subscribing;
     serverSubs \<leftarrow> getc (\<lambda>c. gm_keys (c_server_subs c));
     ev \<leftarrow> getc c_events;
     d1 \<leftarrow> queue_if (ev HServerSubscribing) (JEvents (map EvServerSubscribing serverSubs));
     d2 \<leftarrow> queue_if (ev HConnecting) (JEvents [EvConnecting code reason]);
     ret (waitEvent in_handler (case d2 of None \<Rightarrow> d1 | Some n \<Rightarrow> Some n)
       @ [TClient (ConnectingReported teardownAttempt)]) }"

definition retry_connecting :: "tr \<Rightarrow> unit op" where
  "retry_connecting t = do {
     modc (\<lambda>c. c\<lparr>c_attempt := Suc (c_attempt c)\<rparr>);
     setTransportLocked None;
     close_transport t;
     clearConnectedState;
     scheduleReconnectLocked }"

definition moveToConnectingFrom :: "bool \<Rightarrow> tr option \<Rightarrow> u32 \<Rightarrow> string \<Rightarrow> task list op" where
  "moveToConnectingFrom in_handler t code reason = do {
     cur \<leftarrow> getc c_transport;
     st \<leftarrow> getc c_state;
     if t \<noteq> None \<and> cur \<noteq> t then ret []
     else (case (t, st) of
        (Some t', StateConnecting) \<Rightarrow> do { retry_connecting t'; ret [] }
      | _ \<Rightarrow>
          if st = StateDisconnected \<or> st = StateClosed \<or> st = StateConnecting then ret []
          else reconnect_now in_handler code reason) }"

text \<open>After the handlers ran: schedule the reconnect unless a newer attempt was started.\<close>

definition connectingReported :: "nat \<Rightarrow> unit op" where
  "connectingReported teardownAttempt = do {
     ok \<leftarrow> isCurrentAttemptLocked teardownAttempt;
     when_do ok scheduleReconnectLocked }"

section \<open>Disconnect reports\<close>

definition invalidateConnectionState :: "task list op" where
  "invalidateConnectionState = do {
     cfg \<leftarrow> getc c_cfg;
     when_do (cfg_get_token cfg) (modc (\<lambda>c. c\<lparr>c_token := [], c_refresh_required := True\<rparr>));
     subs \<leftarrow> getc (\<lambda>c. gm_vals (c_subs c));
     modc (\<lambda>c. c\<lparr>c_server_subs := map (\<lambda>(ch, s).
       (ch, s\<lparr>ss_offset := 0, ss_epoch := stateInvalidatedEpoch\<rparr>)) (c_server_subs c)\<rparr>);
     ret (map (\<lambda>s. TSub (InvalidateState s)) subs) }"

definition handleTransportDisconnect :: "tr option \<Rightarrow> disconnect option \<Rightarrow> task list op" where
  "handleTransportDisconnect t d0 = do {
     cur \<leftarrow> getc c_transport;
     (let d = (case d0 of None \<Rightarrow> mk_disconnect connectingTransportClosed ''transport closed'' True
               | Some d \<Rightarrow> d)
      in if t \<noteq> None \<and> cur \<noteq> t then ret []
         else ret ((if d_code d = disconnectedStateInvalidated then [TClient InvalidateConnectionState] else [])
           @ [TClient (if d_reconnect d then MoveToConnectingFrom t (d_code d) (d_reason d)
                       else MoveToDisconnectedFrom t (d_code d) (d_reason d))])) }"

section \<open>Calls of the application\<close>

definition setToken :: "string \<Rightarrow> unit op" where
  "setToken token = do {
     modc (\<lambda>c. c\<lparr>c_token := token\<rparr>);
     cfg \<leftarrow> getc c_cfg;
     when_do (\<not> cfg_get_token cfg) (modc (\<lambda>c. c\<lparr>c_refresh_required := False\<rparr>)) }"

definition disconnectCall :: "call \<Rightarrow> task list op" where
  "disconnectCall k = do {
     st \<leftarrow> getc c_state;
     if st = StateClosed then do { return_to (Some k) (Some (Sentinel ErrClientClosed)); ret [] }
     else ret [TClient (MoveToDisconnected disconnectedDisconnectCalled ''disconnect called''),
               TClient (ReturnErr (Some k) None)] }"

text \<open>
  \<open>Close\<close> in four segments: the transition, the events, the wait for the reader, the queue.
\<close>

definition close_now :: "unit op" where
  "close_now = do {
     setStateLocked StateClosed;
     modc (\<lambda>c. c\<lparr>c_attempt := Suc (c_attempt c)\<rparr>);
     drop_transport;
     clearConnectedState;
     resolveConnectFutures (Some (Sentinel ErrClientDisconnected)) }"

definition closeCall :: "call \<Rightarrow> task list op" where
  "closeCall k = do {
     prevState \<leftarrow> getc c_state;
     if prevState = StateClosed then do { return_to (Some k) None; ret [] }
     else do {
       close_now;
       subs \<leftarrow> gets (\<lambda>w. filter (\<lambda>s. s_state (sub_at w s) \<noteq> SubStateUnsubscribed)
                          (gm_vals (c_subs (w_cl w))));
       serverSubs \<leftarrow> getc (\<lambda>c. gm_keys (c_server_subs c));
       ret (map (\<lambda>s. TSub (MoveToUnsubscribed s unsubscribedClientClosed ''client closed'')) subs
         @ [TClient (CloseReport prevState serverSubs k)]) } }"

definition closeReport :: "cstate \<Rightarrow> channel list \<Rightarrow> call \<Rightarrow> task list op" where
  "closeReport prevState serverSubs k = do {
     ev \<leftarrow> getc c_events;
     when_do (ev HServerUnsubscribed) (runHandlerAsync (JEvents (map EvServerUnsubscribed serverSubs)));
     when_do (prevState \<noteq> StateDisconnected \<and> ev HDisconnected)
       (runHandlerAsync (JEvents [EvDisconnected disconnectedDisconnectCalled ''disconnect called'']));
     ret [TClient (CloseWaitReader k)] }"

definition closeWaitReader :: "bool \<Rightarrow> call \<Rightarrow> task list op" where
  "closeWaitReader in_handler k = do {
     ch \<leftarrow> getc c_disconnected_ch;
     alive \<leftarrow> getc c_cb_queue;
     ret ((case ch of None \<Rightarrow> [] | Some n \<Rightarrow> if alive \<and> in_handler then [] else [WaitChan n])
       @ [TClient (CloseQueue alive k)]) }"

definition closeQueue :: "bool \<Rightarrow> bool \<Rightarrow> call \<Rightarrow> task list op" where
  "closeQueue in_handler has_queue k = do {
     modc (\<lambda>c. c\<lparr>c_disconnected_ch := None, c_cb_queue := False\<rparr>);
     when_do has_queue (modify (\<lambda>w. w\<lparr>w_queue := close_queue (w_queue w)\<rparr>));
     ret ((if has_queue \<and> \<not> in_handler then [WaitQueueClosed] else [])
       @ [TClient (ReturnErr (Some k) None)]) }"

end
