(* ===== verification/Connect.thy ===== *)
theory Connect
  imports ClientState
begin

text \<open>
  Connecting, \<^verbatim>\<open>client.go\<close>: \<open>Connect\<close>, the connect attempt (token, dial, connect command), the
  connect callback with the server-side subscriptions, and the refresh of the connection token.

  An attempt has a number. Everything an attempt does is preceded, in the same lock hold, by the
  check that it is still the current one.
\<close>

section \<open>Starting an attempt\<close>

definition startConnecting :: "bool \<Rightarrow> caller \<Rightarrow> task list op" where
  "startConnecting in_handler k = do {
     st \<leftarrow> getc c_state;
     if st = StateClosed then do { return_to k (Some (Sentinel ErrClientClosed)); ret [] }
     else if st = StateConnected \<or> st = StateConnecting then do { return_to k None; ret [] }
     else do {
       ch \<leftarrow> getc c_close_ch;
       when_do (ch = None) (do {
         n \<leftarrow> fresh;
         modc (\<lambda>c. c\<lparr>c_close_ch := Some n\<rparr>) });
       setStateLocked StateConnecting;
       attempt \<leftarrow> getc c_attempt;
       ev \<leftarrow> getc c_events;
       d \<leftarrow> queue_if (ev HConnecting)
              (JEvents [EvConnecting connectingConnectCalled ''connect called'']);
       ret (waitEvent in_handler d @ [TConnect (StartReconnectingIf (Some attempt) k)]) } }"

definition startReconnectingIf :: "nat option \<Rightarrow> caller \<Rightarrow> task list op" where
  "startReconnectingIf expected k = do {
     modc (\<lambda>c. c\<lparr>c_round := Suc (c_round c)\<rparr>);
     round \<leftarrow> getc c_round;
     st \<leftarrow> getc c_state;
     a \<leftarrow> getc c_attempt;
     if st \<noteq> StateConnecting \<or> (case expected of None \<Rightarrow> False | Some e \<Rightarrow> a \<noteq> e)
     then do { return_to k None; ret [] }
     else do {
       modc (\<lambda>c. c\<lparr>c_attempt := Suc (c_attempt c)\<rparr>);
       attempt \<leftarrow> getc c_attempt;
       drop_transport;
       ret [TConnect (ConnectToken attempt round k)] } }"

section \<open>The connection token\<close>

text \<open>
  \<open>refreshToken\<close>: without \<open>GetToken\<close> it reports a configuration error and returns
  \<open>ErrUnauthorized\<close>; with it, the next task calls it. \<open>next\<close> receives the outcome.
\<close>

definition refreshToken :: "bool \<Rightarrow> task \<Rightarrow> (err + string \<Rightarrow> task) \<Rightarrow> task list op" where
  "refreshToken in_handler call_it next = do {
     cfg \<leftarrow> getc c_cfg;
     if \<not> cfg_get_token cfg then do {
       ts \<leftarrow> handleError in_handler
              (ConfigurationError (Other ''GetToken must be set to handle expired token''));
       ret (ts @ [next (Inl (Sentinel ErrUnauthorized))]) }
     else ret [call_it] }"

definition connectToken :: "bool \<Rightarrow> nat \<Rightarrow> nat \<Rightarrow> caller \<Rightarrow> task list op" where
  "connectToken in_handler attempt round k = do {
     refreshRequired \<leftarrow> getc c_refresh_required;
     token \<leftarrow> getc c_token;
     cfg \<leftarrow> getc c_cfg;
     if refreshRequired \<or> (token = [] \<and> cfg_get_token cfg)
     then refreshToken in_handler (TConnect (CallGetToken attempt round k))
            (\<lambda>r. TConnect (GotConnectToken attempt round k r))
     else ret [TConnect (Dial attempt round k)] }"

definition gotConnectToken :: "bool \<Rightarrow> nat \<Rightarrow> nat \<Rightarrow> caller \<Rightarrow> err + string \<Rightarrow> task list op" where
  "gotConnectToken in_handler attempt round k res = (case res of
     Inl e \<Rightarrow>
       if errors_is e ErrUnauthorized then do {
         cfg \<leftarrow> getc c_cfg;
         disconnected \<leftarrow> moveToDisconnectedIf (\<lambda>c.
           (c_state c = StateConnecting \<and> c_attempt c = attempt)
           \<and> (cfg_get_token cfg \<or> c_refresh_required c)) disconnectedUnauthorized ''unauthorized'';
         if disconnected \<or> cfg_get_token cfg then do { return_to k None; ret [] }
         else ret [TConnect (Dial attempt round k)] }
       else do {
         ts \<leftarrow> handleError in_handler (RefreshError e);
         ret (ts @ [TConnect (ScheduleIfCurrent attempt k e)]) }
   | Inr newToken \<Rightarrow> do {
       ok \<leftarrow> isCurrentAttemptLocked attempt;
       if \<not> ok then do { return_to k None; ret [] }
       else do {
         modc (\<lambda>c. c\<lparr>c_token := newToken\<rparr>);
         ret [TConnect (Dial attempt round k)] } })"

text \<open>After a failed token or dial: retry later, unless the attempt was superseded.\<close>

definition scheduleIfCurrent :: "nat \<Rightarrow> caller \<Rightarrow> err \<Rightarrow> unit op" where
  "scheduleIfCurrent attempt k e = do {
     ok \<leftarrow> isCurrentAttemptLocked attempt;
     if \<not> ok then return_to k None
     else do { scheduleReconnectLocked; return_to k (Some e) } }"

section \<open>Dial and connect command\<close>

text \<open>\<open>res\<close> is the error of \<open>newWebsocketTransport\<close>, if it fails.\<close>

definition dial :: "bool \<Rightarrow> err option \<Rightarrow> nat \<Rightarrow> nat \<Rightarrow> caller \<Rightarrow> task list op" where
  "dial in_handler res attempt round k = do {
     u \<leftarrow> getc (\<lambda>c. c_endpoints c ! (round mod length (c_endpoints c)));
     modify (\<lambda>w. w\<lparr>w_dials := w_dials w @ [u]\<rparr>);
     (case res of
        Some e \<Rightarrow> do {
          ts \<leftarrow> handleError in_handler (TransportError e);
          ret (ts @ [TConnect (ScheduleIfCurrent attempt k e)]) }
      | None \<Rightarrow> do {
          t \<leftarrow> fresh;
          ret [TConnect (Dialed attempt t k)] }) }"

text \<open>The connect request: server-side subscriptions that can be recovered ask for it.\<close>

definition recover_subs :: "(channel, server_sub) gomap \<Rightarrow> (channel, subscribe_req) gomap" where
  "recover_subs subs = map (\<lambda>(ch, s). (ch, empty_subscribe_req
     \<lparr>sq_recover := True, sq_epoch := ss_epoch s, sq_offset := ss_offset s\<rparr>))
     (filter (\<lambda>(ch, s). ss_recoverable s) subs)"

definition connect_request :: "client \<Rightarrow> connect_req" where
  "connect_request c = \<lparr>cq_token = c_token c, cq_name = cfg_name (c_cfg c),
     cq_version = cfg_version (c_cfg c), cq_data = c_data c, cq_subs = recover_subs (c_server_subs c)\<rparr>"

definition sendConnect :: "tr \<Rightarrow> callback \<Rightarrow> err option op" where
  "sendConnect t cb = do {
     i \<leftarrow> nextCmdID;
     req \<leftarrow> getc connect_request;
     sendAsyncOn (Some t) ((new_command i)\<lparr>cmd_connect := Some req\<rparr>) cb }"

definition dialed :: "bool \<Rightarrow> nat \<Rightarrow> tr \<Rightarrow> caller \<Rightarrow> task list op" where
  "dialed in_handler attempt t k = do {
     ok \<leftarrow> isCurrentAttemptLocked attempt;
     if \<not> ok then do { close_transport t; return_to k None; ret [] }
     else do {
       modc (\<lambda>c. c\<lparr>c_refresh_required := False\<rparr>);
       token \<leftarrow> getc c_token;
       ch \<leftarrow> fresh;
       modc (\<lambda>c. c\<lparr>c_disconnected_ch := Some ch\<rparr>);
       spawn [TClient (Reader t ch)];
       err \<leftarrow> sendConnect t (CbConnect attempt t token ch);
       (case err of
          Some e \<Rightarrow> do {
            close_transport t;
            scheduleReconnectLocked;
            ts \<leftarrow> handleError in_handler (ConnectError e);
            ret (ts @ [TClient (ReturnErr k (Some e))]) }
        | None \<Rightarrow> do {
            setTransportLocked (Some t);
            return_to k None;
            ret [] }) } }"

section \<open>The connect callback\<close>

definition connectReply :: "bool \<Rightarrow> nat \<Rightarrow> tr \<Rightarrow> string \<Rightarrow> nat \<Rightarrow> err + pb_connect_result \<Rightarrow> task list op" where
  "connectReply in_handler attempt t token ch r = do {
     ok \<leftarrow> isCurrentAttemptLocked attempt;
     if \<not> ok then do { close_transport t; ret [] }
     else (case r of
        Inl e \<Rightarrow> do {
          ts \<leftarrow> handleError in_handler (ConnectError e);
          ret (ts @ [TConnect (ConnectFailed attempt t token e)]) }
      | Inr res \<Rightarrow> ret [TConnect (ConnectOk attempt t ch res)]) }"

definition connectFailed :: "nat \<Rightarrow> tr \<Rightarrow> string \<Rightarrow> err \<Rightarrow> task list op" where
  "connectFailed attempt t token e = do {
     ok \<leftarrow> isCurrentAttemptLocked attempt;
     if \<not> ok then do { close_transport t; ret [] }
     else do {
       setTransportLocked None;
       close_transport t;
       ret [TConnect (ConnectFailedClosed attempt token e)] } }"

definition connectFailedClosed :: "nat \<Rightarrow> string \<Rightarrow> err \<Rightarrow> unit op" where
  "connectFailedClosed attempt carried e =
    (if isTokenExpiredError e then do {
       ok \<leftarrow> isCurrentAttemptLocked attempt;
       cfg \<leftarrow> getc c_cfg;
       token \<leftarrow> getc c_token;
       when_do ok (do {
         when_do (cfg_get_token cfg \<or> token = carried)
           (modc (\<lambda>c. c\<lparr>c_refresh_required := True\<rparr>));
         scheduleReconnectLocked }) }
     else if isServerError e \<and> \<not> isTemporaryError e then
       (case errors_as e of
          Some x \<Rightarrow> do {
            _ \<leftarrow> moveToDisconnectedIf (\<lambda>c. c_state c = StateConnecting \<and> c_attempt c = attempt)
                   (e_code x) (e_message x);
            ret () }
        | None \<Rightarrow> ret ())
     else do {
       ok \<leftarrow> isCurrentAttemptLocked attempt;
       when_do ok scheduleReconnectLocked })"

definition scheduleRefreshLocked :: "duration \<Rightarrow> unit op" where
  "scheduleRefreshLocked delay = do {
     t \<leftarrow> getc c_refresh_timer;
     stop_timer t;
     generation \<leftarrow> getc c_generation;
     n \<leftarrow> after_func (refresh_delay delay) (TmRefresh generation);
     modc (\<lambda>c. c\<lparr>c_refresh_timer := Some n\<rparr>) }"

definition connectOk :: "bool \<Rightarrow> nat \<Rightarrow> tr \<Rightarrow> nat \<Rightarrow> pb_connect_result \<Rightarrow> task list op" where
  "connectOk in_handler attempt t ch res = do {
     ok \<leftarrow> isCurrentAttemptLocked attempt;
     if \<not> ok then do { close_transport t; ret [] }
     else do {
       setStateLocked StateConnected;
       when_do (cr_expires res) (scheduleRefreshLocked (ttl_duration (cr_ttl res)));
       resolveConnectFutures None;
       ev \<leftarrow> getc c_events;
       d \<leftarrow> queue_if (ev HConnected) (JEvents [EvConnected (cr_client res) (cr_version res) (cr_data res)]);
       ret (waitEvent in_handler d @ [TConnect (ConnectSubs attempt t ch res (cr_subs res))]) } }"

section \<open>Server-side subscriptions of the connect reply\<close>

definition stored_server_sub :: "server_sub option \<Rightarrow> pb_subscribe_result \<Rightarrow> server_sub" where
  "stored_server_sub old r = (case old of
     Some s \<Rightarrow>
       (let s1 = (if sr_epoch r \<noteq> [] \<or> ss_epoch s = [] then
            (let s0 = s\<lparr>ss_epoch := sr_epoch r\<rparr>
             in if sr_publications r = [] then s0\<lparr>ss_offset := sr_offset r\<rparr> else s0)
          else s)
        in s1\<lparr>ss_recoverable := sr_recoverable r\<rparr>)
   | None \<Rightarrow> \<lparr>ss_offset = sr_offset r, ss_epoch = sr_epoch r, ss_recoverable = sr_recoverable r\<rparr>)"

definition server_subscribed :: "channel \<Rightarrow> pb_subscribe_result \<Rightarrow> event" where
  "server_subscribed ch r = EvServerSubscribed ch (sr_was_recovering r) (sr_recovered r)
     (sr_recoverable r) (sr_positioned r)
     (if sr_positioned r \<or> sr_recoverable r
      then Some \<lparr>sp_offset = sr_offset r, sp_epoch = sr_epoch r\<rparr> else None)
     (sr_data r)"

text \<open>One round of the loop over \<open>res.Subs\<close>; \<open>rest\<close> are the entries still to come.\<close>

definition connectSubs :: "bool \<Rightarrow> nat \<Rightarrow> tr \<Rightarrow> nat \<Rightarrow> pb_connect_result
    \<Rightarrow> (channel \<times> pb_subscribe_result option) list \<Rightarrow> task list op" where
  "connectSubs in_handler attempt t ch res rest = (case rest of
     [] \<Rightarrow> ret [TConnect (ConnectUnsubs attempt t ch res)]
   | (channel, subRes) # rest' \<Rightarrow> do {
       ok \<leftarrow> isConnectedAttemptLocked attempt;
       if \<not> ok then ret [TConnect (ConnectUnsubs attempt t ch res)]
       else (case subRes of
          None \<Rightarrow> do { panic; ret [] }
        | Some r \<Rightarrow> do {
            modc (\<lambda>c. c\<lparr>c_server_subs :=
              gm_put channel (stored_server_sub (gm_get (c_server_subs c) channel) r) (c_server_subs c)\<rparr>);
            ev \<leftarrow> getc c_events;
            d1 \<leftarrow> queue_if (ev HServerSubscribe) (JEvents [server_subscribed channel r]);
            d2 \<leftarrow> queue_if (sr_publications r \<noteq> []) (JServerPubs channel attempt (sr_publications r));
            ret (waitEvent in_handler (case d2 of None \<Rightarrow> d1 | Some n \<Rightarrow> Some n)
              @ [TConnect (ConnectSubs attempt t ch res rest')]) }) })"

text \<open>Events queued one by one, and the last of them.\<close>

fun queue_each :: "event list \<Rightarrow> nat option \<Rightarrow> nat option op" where
  "queue_each [] d = ret d"
| "queue_each (e # es) d = do {
     n \<leftarrow> queueEvent (JEvents [e]);
     queue_each es (Some n) }"

definition connectUnsubs :: "bool \<Rightarrow> nat \<Rightarrow> tr \<Rightarrow> nat \<Rightarrow> pb_connect_result \<Rightarrow> task list op" where
  "connectUnsubs in_handler attempt t ch res = do {
     ok \<leftarrow> isConnectedAttemptLocked attempt;
     if \<not> ok then ret []
     else do {
       gone \<leftarrow> getc (\<lambda>c. filter (\<lambda>x. x \<notin> set (gm_keys (cr_subs res))) (gm_keys (c_server_subs c)));
       modc (\<lambda>c. c\<lparr>c_server_subs :=
         filter (\<lambda>(x, _). x \<in> set (gm_keys (cr_subs res))) (c_server_subs c)\<rparr>);
       ev \<leftarrow> getc c_events;
       d \<leftarrow> (if ev HServerUnsubscribed then queue_each (map EvServerUnsubscribed gone) None
              else ret None);
       ret (waitEvent in_handler d @ [TConnect (ConnectDone attempt t ch res)]) } }"

definition connectDone :: "nat \<Rightarrow> tr \<Rightarrow> nat \<Rightarrow> pb_connect_result \<Rightarrow> task list op" where
  "connectDone attempt t ch res = do {
     modc (\<lambda>c. c\<lparr>c_reconnect_attempts := 0\<rparr>);
     ok \<leftarrow> isConnectedAttemptLocked attempt;
     if \<not> ok then ret []
     else do {
       when_do (cr_ping res > 0) (do {
         modc (\<lambda>c. c\<lparr>c_send_pong := cr_pong res\<rparr>);
         spawn [TClient (WaitServerPing t ch (cr_ping res))] });
       subs \<leftarrow> getc (\<lambda>c. gm_vals (c_subs c));
       ret (map (\<lambda>s. TSub (Resubscribe s)) subs) } }"

text \<open>A recovered publication of a server-side subscription, one round on the dispatcher.\<close>

definition adopt_server_position :: "pb_pub \<Rightarrow> server_sub \<Rightarrow> server_sub" where
  "adopt_server_position p s =
    (if pp_offset p > 0 then
       (let s = s\<lparr>ss_offset := pp_offset p\<rparr>
        in if ss_epoch s = [] \<and> pp_epoch p \<noteq> [] \<and> pp_channel p = []
           then s\<lparr>ss_epoch := pp_epoch p\<rparr> else s)
     else s)"

definition deliver_server_pub :: "channel \<Rightarrow> nat \<Rightarrow> pb_pub option \<Rightarrow> bool op" where
  "deliver_server_pub ch attempt pub = do {
     ok \<leftarrow> isConnectedAttemptLocked attempt;
     subs \<leftarrow> getc c_server_subs;
     ev \<leftarrow> getc c_events;
     (case gm_get subs ch of
        None \<Rightarrow> ret False
      | Some s \<Rightarrow>
          if \<not> ok then ret False
          else (case pub of
             None \<Rightarrow> do { panic; ret False }
           | Some p \<Rightarrow> do {
               modc (\<lambda>c. c\<lparr>c_server_subs := gm_put ch (adopt_server_position p s) (c_server_subs c)\<rparr>);
               when_do (ev HServerPublication) (modify (\<lambda>w. w\<lparr>w_delivered := w_delivered w
                 @ [EvServerPublication ch (pub_event p (pp_data p))]\<rparr>));
               ret True })) }"

section \<open>Refresh of the connection token\<close>

definition isConnRefreshCurrent :: "int \<Rightarrow> bool op" where
  "isConnRefreshCurrent generation =
     getc (\<lambda>c. c_state c = StateConnected \<and> c_generation c = generation)"

definition sendRefresh :: "bool \<Rightarrow> int \<Rightarrow> task list op" where
  "sendRefresh in_handler generation = do {
     ok \<leftarrow> isConnRefreshCurrent generation;
     if \<not> ok then ret []
     else refreshToken in_handler (TClient (CallGetTokenRefresh generation))
            (\<lambda>r. TClient (GotRefreshToken generation r)) }"

definition disconnect_refresh :: "int \<Rightarrow> u32 \<Rightarrow> string \<Rightarrow> unit op" where
  "disconnect_refresh generation code reason = do {
     _ \<leftarrow> moveToDisconnectedIf (\<lambda>c. c_state c = StateConnected \<and> c_generation c = generation) code reason;
     ret () }"

definition gotRefreshToken :: "bool \<Rightarrow> int \<Rightarrow> err + string \<Rightarrow> task list op" where
  "gotRefreshToken in_handler generation res = do {
     ok \<leftarrow> isConnRefreshCurrent generation;
     if \<not> ok then ret []
     else (case res of
        Inl e \<Rightarrow>
          if errors_is e ErrUnauthorized then do {
            disconnect_refresh generation disconnectedUnauthorized ''unauthorized''; ret [] }
          else do {
            ts \<leftarrow> handleError in_handler (RefreshError e);
            ret (ts @ [TClient (RefreshFailed generation)]) }
      | Inr token \<Rightarrow>
          if token = [] then do {
            disconnect_refresh generation disconnectedUnauthorized ''unauthorized''; ret [] }
          else do {
            modc (\<lambda>c. c\<lparr>c_token := token\<rparr>);
            ret [TClient (RefreshSend generation token)] }) }"

definition refreshSend :: "int \<Rightarrow> string \<Rightarrow> unit op" where
  "refreshSend generation token = do {
     i \<leftarrow> nextCmdID;
     _ \<leftarrow> sendAsync ((new_command i)\<lparr>cmd_refresh := Some token\<rparr>) (CbRefresh generation);
     ret () }"

definition handleRefreshError :: "int \<Rightarrow> unit op" where
  "handleRefreshError generation = do {
     ok \<leftarrow> isConnRefreshCurrent generation;
     when_do ok (scheduleRefreshLocked (10 * second)) }"

definition refreshReply :: "bool \<Rightarrow> int \<Rightarrow> err + pb_reply \<Rightarrow> task list op" where
  "refreshReply in_handler generation r = do {
     ok \<leftarrow> isConnRefreshCurrent generation;
     if \<not> ok then ret []
     else (case r of
        Inl e \<Rightarrow> do {
          ts \<leftarrow> handleError in_handler (RefreshError e);
          ret (ts @ [TClient (RefreshFailed generation)]) }
      | Inr reply \<Rightarrow> (case r_error reply of
          Some e \<Rightarrow>
            if e_temporary e then do {
              ts \<leftarrow> handleError in_handler (RefreshError (errorFromProto e));
              ret (ts @ [TClient (RefreshFailed generation)]) }
            else do { disconnect_refresh generation (e_code e) (e_message e); ret [] }
        | None \<Rightarrow> (case r_refresh reply of
            None \<Rightarrow> do { panic; ret [] }
          | Some x \<Rightarrow> do {
              when_do (rr_expires x) (scheduleRefreshLocked (ttl_duration (rr_ttl x)));
              ret [] }))) }"

end
