(* ===== verification/Pushes.thy ===== *)
theory Pushes
  imports Connect
begin

text \<open>
  What the reader goroutine does, \<^verbatim>\<open>client.go\<close>: reading, routing of replies and pushes, the
  server-side subscriptions, pings; and the callbacks of requests.
\<close>

section \<open>Callbacks of requests\<close>

text \<open>
  A callback gets an error (timeout, disconnect) or a reply. \<open>reply_result\<close> is what the wrappers
  of \<open>sendConnect\<close>, \<open>sendSubscribe\<close> and \<open>sendSubRefresh\<close> hand on.
\<close>

definition reply_result :: "(pb_reply \<Rightarrow> 'a) \<Rightarrow> err + pb_reply \<Rightarrow> err + 'a" where
  "reply_result get r = (case r of
     Inl e \<Rightarrow> Inl e
   | Inr reply \<Rightarrow> (case r_error reply of Some e \<Rightarrow> Inl (errorFromProto e) | None \<Rightarrow> Inr (get reply)))"

definition runCallback :: "callback \<Rightarrow> err + pb_reply \<Rightarrow> task list op" where
  "runCallback cb r = (case cb of
     CbConnect attempt t token ch \<Rightarrow>
       (case reply_result r_connect r of
          Inl e \<Rightarrow> ret [TConnect (ConnectReply attempt t token ch (Inl e))]
        | Inr (Some res) \<Rightarrow> ret [TConnect (ConnectReply attempt t token ch (Inr res))]
        | Inr None \<Rightarrow> do { panic; ret [] })
   | CbSubscribe s g attempt \<Rightarrow> do {
       end_inflight s;
       (case reply_result r_subscribe r of
          Inl e \<Rightarrow> ret [TSub (SubscribeError s e attempt g)]
        | Inr (Some res) \<Rightarrow> ret [TSub (MoveToSubscribed s res g attempt)]
        | Inr None \<Rightarrow> do { panic; ret [] }) }
   | CbRefresh g \<Rightarrow> ret [TClient (RefreshReply g r)]
   | CbSubRefresh s session invalidations \<Rightarrow> ret [TSub (SubRefreshReply s session invalidations r)]
   | CbUnsubscribe \<Rightarrow> do { unsubscribeReply r; ret [] }
   | CbCall k oper \<Rightarrow> do { operationReply k oper r; ret [] })"

section \<open>Server-side subscriptions\<close>

definition handleServerPublication :: "bool \<Rightarrow> channel \<Rightarrow> pb_pub \<Rightarrow> task list op" where
  "handleServerPublication in_handler ch p = do {
     subs \<leftarrow> getc c_server_subs;
     ev \<leftarrow> getc c_events;
     (case gm_get subs ch of
        None \<Rightarrow> ret []
      | Some s \<Rightarrow> do {
          when_do (ss_recoverable s)
            (modc (\<lambda>c. c\<lparr>c_server_subs := gm_put ch (adopt_server_position p s) (c_server_subs c)\<rparr>));
          n \<leftarrow> queue_if (ev HServerPublication)
            (JEvents [EvServerPublication ch (pub_event p (pp_data p))]);
          ret (waitEvent in_handler n) }) }"

definition handleServerJoin :: "bool \<Rightarrow> channel \<Rightarrow> pb_info option \<Rightarrow> task list op" where
  "handleServerJoin in_handler ch info = do {
     subs \<leftarrow> getc c_server_subs;
     ev \<leftarrow> getc c_events;
     (case gm_get subs ch of
        None \<Rightarrow> ret []
      | Some s \<Rightarrow> do {
          n \<leftarrow> queue_if (ev HServerJoin) (JEvents [EvServerJoin ch (infoFromProto info)]);
          ret (waitEvent in_handler n) }) }"

definition handleServerLeave :: "bool \<Rightarrow> channel \<Rightarrow> pb_info option \<Rightarrow> task list op" where
  "handleServerLeave in_handler ch info = do {
     subs \<leftarrow> getc c_server_subs;
     ev \<leftarrow> getc c_events;
     (case gm_get subs ch of
        None \<Rightarrow> ret []
      | Some s \<Rightarrow> do {
          n \<leftarrow> queue_if (ev HServerLeave) (JEvents [EvServerLeave ch (infoFromProto info)]);
          ret (waitEvent in_handler n) }) }"

definition handleServerSub :: "bool \<Rightarrow> channel \<Rightarrow> pb_subscribe_push \<Rightarrow> task list op" where
  "handleServerSub in_handler ch p = do {
     subs \<leftarrow> getc c_server_subs;
     ev \<leftarrow> getc c_events;
     (case gm_get subs ch of
        Some s \<Rightarrow> ret []
      | None \<Rightarrow> do {
          modc (\<lambda>c. c\<lparr>c_server_subs := gm_put ch \<lparr>ss_offset = psub_offset p, ss_epoch = psub_epoch p,
            ss_recoverable = psub_recoverable p\<rparr> (c_server_subs c)\<rparr>);
          n \<leftarrow> queue_if (ev HServerSubscribe)
            (JEvents [EvServerSubscribed ch False False (psub_recoverable p) (psub_positioned p)
               (if psub_positioned p \<or> psub_recoverable p
                then Some \<lparr>sp_offset = psub_offset p, sp_epoch = psub_epoch p\<rparr> else None)
               (psub_data p)]);
          ret (waitEvent in_handler n) }) }"

definition handleServerUnsub :: "bool \<Rightarrow> channel \<Rightarrow> task list op" where
  "handleServerUnsub in_handler ch = do {
     subs \<leftarrow> getc c_server_subs;
     ev \<leftarrow> getc c_events;
     (case gm_get subs ch of
        None \<Rightarrow> ret []
      | Some s \<Rightarrow> do {
          modc (\<lambda>c. c\<lparr>c_server_subs := gm_del ch (c_server_subs c)\<rparr>);
          n \<leftarrow> queue_if (ev HServerUnsubscribed) (JEvents [EvServerUnsubscribed ch]);
          ret (waitEvent in_handler n) }) }"

definition handleMessage :: "slice \<Rightarrow> task list op" where
  "handleMessage data = do {
     ev \<leftarrow> getc c_events;
     if ev HMessage then runHandlerSync (JEvents [EvMessage data]) else ret [] }"

section \<open>Routing\<close>

text \<open>The subscription a push is for: by its numeric id if it has one, else by its channel.\<close>

definition route :: "pb_push \<Rightarrow> client \<Rightarrow> sid option" where
  "route p c = (if pu_id p > 0 then gm_get (c_subs_by_id c) (pu_id p)
     else gm_get (c_subs c) (pu_channel p))"

definition unknown :: "pb_push \<Rightarrow> client_task \<Rightarrow> task list" where
  "unknown p t = (if pu_id p > 0 then [] else [TClient t])"

definition push_disconnect :: "pb_disconnect_push \<Rightarrow> disconnect" where
  "push_disconnect d = mk_disconnect (pd_code d) (pd_reason d) (reconnect_code (pd_code d))"

definition push_tasks :: "tr \<Rightarrow> pb_push \<Rightarrow> sid option \<Rightarrow> task list" where
  "push_tasks t p sub =
    (case pu_message p of Some m \<Rightarrow> [TClient (HandleMessage m)] | None \<Rightarrow>
     case pu_unsubscribe p of
       Some u \<Rightarrow> (case sub of None \<Rightarrow> [TClient (HandleServerUnsub (pu_channel p))]
                  | Some s \<Rightarrow> [TSub (HandleUnsubscribe s u)])
     | None \<Rightarrow>
     case pu_pub p of
       Some x \<Rightarrow> (case sub of None \<Rightarrow> unknown p (HandleServerPublication (pu_channel p) x)
                  | Some s \<Rightarrow> [TSub (HandlePublication s x)])
     | None \<Rightarrow>
     case pu_join p of
       Some i \<Rightarrow> (case sub of None \<Rightarrow> unknown p (HandleServerJoin (pu_channel p) i)
                  | Some s \<Rightarrow> [TSub (HandleJoin s i)])
     | None \<Rightarrow>
     case pu_leave p of
       Some i \<Rightarrow> (case sub of None \<Rightarrow> unknown p (HandleServerLeave (pu_channel p) i)
                  | Some s \<Rightarrow> [TSub (HandleLeave s i)])
     | None \<Rightarrow>
     case pu_subscribe p of
       Some x \<Rightarrow> (case sub of None \<Rightarrow> [TClient (HandleServerSub (pu_channel p) x)] | Some s \<Rightarrow> [])
     | None \<Rightarrow>
     case pu_disconnect p of
       Some d \<Rightarrow> [TClient (HandleTransportDisconnect (Some t) (Some (push_disconnect d)))]
     | None \<Rightarrow> [])"

definition handlePush :: "tr \<Rightarrow> pb_push \<Rightarrow> task list op" where
  "handlePush t p = do {
     sub \<leftarrow> getc (route p);
     ret (push_tasks t p sub) }"

text \<open>\<open>handle\<close>: a reply to a command, a ping, or a push.\<close>

definition handleReply :: "tr \<Rightarrow> pb_reply \<Rightarrow> task list op" where
  "handleReply t reply = do {
     req \<leftarrow> popRequest (r_id reply);
     (case req of
        None \<Rightarrow> ret []
      | Some q \<Rightarrow>
          if r_error reply = None \<and> malformedReply (rq_result q) reply
          then ret [TClient (MoveToDisconnectedFrom (Some t) disconnectBadProtocol ''malformed reply''),
                    TCall (RunCallback (rq_cb q) (Inl (Sentinel ErrClientDisconnected)))]
          else ret [TCall (RunCallback (rq_cb q) (Inr reply))]) }"

definition delay_ping_capacity :: nat where "delay_ping_capacity = 32"

definition handlePing :: "tr \<Rightarrow> unit op" where
  "handlePing t = do {
     modc (\<lambda>c. if c_delay_ping c < delay_ping_capacity
               then c\<lparr>c_delay_ping := Suc (c_delay_ping c)\<rparr> else c);
     pong \<leftarrow> getc (\<lambda>c. c_send_pong c \<and> c_transport c = Some t);
     when_do pong (do { _ \<leftarrow> sendOn t (new_command 0); ret () }) }"

definition handle :: "tr \<Rightarrow> pb_reply \<Rightarrow> task list op" where
  "handle t reply =
    (if r_id reply > 0 then handleReply t reply
     else (case r_push reply of
        None \<Rightarrow> do { handlePing t; ret [] }
      | Some p \<Rightarrow> do {
          st \<leftarrow> getc c_state;
          cur \<leftarrow> getc c_transport;
          if st \<noteq> StateConnected \<or> cur \<noteq> Some t then ret []
          else ret [TClient (HandlePush t p)] }))"

text \<open>The reader: \<open>rd\<close> is what \<open>Read\<close> returns. At the end it closes the disconnect channel.\<close>

definition reader :: "read_result \<Rightarrow> tr \<Rightarrow> nat \<Rightarrow> task list op" where
  "reader rd t ch = (case rd of
     GotEOF d \<Rightarrow> do {
       spawn [TClient (HandleTransportDisconnect (Some t) d)];
       close_chan ch;
       ret [] }
   | GotReply reply \<Rightarrow> do {
       ts \<leftarrow> handle t reply;
       ret (ts @ [TClient (Reader t ch)]) })"

section \<open>Waiting for pings\<close>

text \<open>What the select of \<open>waitServerPing\<close> sees.\<close>

datatype ping_wait = PingSeen | PingTimeout | PingClosed

definition ping_timeout :: "config \<Rightarrow> u32 \<Rightarrow> duration" where
  "ping_timeout cfg ping = cfg_max_server_ping_delay cfg + ttl_duration ping"

definition waitServerPing :: "ping_wait \<Rightarrow> tr \<Rightarrow> nat \<Rightarrow> u32 \<Rightarrow> task list op" where
  "waitServerPing ev t ch ping = do {
     closed \<leftarrow> gets w_chans;
     n \<leftarrow> getc c_delay_ping;
     (case ev of
        PingSeen \<Rightarrow> do {
          when_do (n > 0) (modc (\<lambda>c. c\<lparr>c_delay_ping := n - 1\<rparr>));
          ret [TClient (WaitServerPing t ch ping)] }
      | PingTimeout \<Rightarrow> do {
          spawn [TClient (HandleTransportDisconnect (Some t)
            (Some (mk_disconnect connectingNoPing ''no ping'' True)))];
          ret [TClient (WaitServerPing t ch ping)] }
      | PingClosed \<Rightarrow>
          ret (if ch \<in> set closed then [] else [TClient (WaitServerPing t ch ping)])) }"

end
