(* ===== verification/System.thy ===== *)
theory System
  imports Pushes
begin

text \<open>
  The whole client as a transition system: goroutines, timers, the dispatcher and the application.

  A step runs the next segment of one goroutine, lets a timer fire, lets the dispatcher go on, or
  starts a call of the application. Everything that comes from outside (replies and pushes of the
  server, failures of the network, what \<open>GetToken\<close> and \<open>GetState\<close> return, which of two ready
  channels a select takes) is in the \<open>answers\<close> of a step and unrestricted, and so is the order of
  the steps: a property of the reachable states holds for every server, every network, every
  application and every schedule.
\<close>

section \<open>Running a task\<close>

record answers =
  an_token :: "err + string"
  an_state :: "err + stream_position"
  an_dial :: "err option"
  an_timed_out :: bool
  an_read :: read_result
  an_ping :: ping_wait

definition run_connect :: "answers \<Rightarrow> bool \<Rightarrow> connect_task \<Rightarrow> task list op" where
  "run_connect a h t = (case t of
     StartConnecting k \<Rightarrow> startConnecting h k
   | StartReconnectingIf e k \<Rightarrow> startReconnectingIf e k
   | ConnectToken n r k \<Rightarrow> connectToken h n r k
   | CallGetToken n r k \<Rightarrow> ret [TConnect (GotConnectToken n r k (an_token a))]
   | GotConnectToken n r k res \<Rightarrow> gotConnectToken h n r k res
   | Dial n r k \<Rightarrow> dial h (an_dial a) n r k
   | ScheduleIfCurrent n k e \<Rightarrow> do { scheduleIfCurrent n k e; ret [] }
   | Dialed n tr k \<Rightarrow> dialed h n tr k
   | ConnectReply n tr tok ch r \<Rightarrow> connectReply h n tr tok ch r
   | ConnectFailed n tr tok e \<Rightarrow> connectFailed n tr tok e
   | ConnectFailedClosed n tok e \<Rightarrow> do { connectFailedClosed n tok e; ret [] }
   | ConnectOk n tr ch res \<Rightarrow> connectOk h n tr ch res
   | ConnectSubs n tr ch res rest \<Rightarrow> connectSubs h n tr ch res rest
   | ConnectUnsubs n tr ch res \<Rightarrow> connectUnsubs h n tr ch res
   | ConnectDone n tr ch res \<Rightarrow> connectDone n tr ch res)"

definition run_client :: "answers \<Rightarrow> bool \<Rightarrow> client_task \<Rightarrow> task list op" where
  "run_client a h t = (case t of
     ReturnErr k e \<Rightarrow> do { return_to k e; ret [] }
   | HandleError e \<Rightarrow> handleError h e
   | MoveToDisconnected c r \<Rightarrow> do { _ \<leftarrow> moveToDisconnected c r; ret [] }
   | MoveToDisconnectedFrom tr c r \<Rightarrow> do { _ \<leftarrow> moveToDisconnectedFrom tr c r; ret [] }
   | MoveToConnectingFrom tr c r \<Rightarrow> moveToConnectingFrom h tr c r
   | ConnectingReported n \<Rightarrow> do { connectingReported n; ret [] }
   | HandleTransportDisconnect tr d \<Rightarrow> handleTransportDisconnect tr d
   | InvalidateConnectionState \<Rightarrow> invalidateConnectionState
   | DisconnectCall k \<Rightarrow> disconnectCall k
   | CloseCall k \<Rightarrow> closeCall k
   | CloseReport st chs k \<Rightarrow> closeReport st chs k
   | CloseWaitReader k \<Rightarrow> closeWaitReader h k
   | CloseQueue q k \<Rightarrow> closeQueue h q k
   | Reader tr ch \<Rightarrow> reader (an_read a) tr ch
   | WaitServerPing tr ch p \<Rightarrow> waitServerPing (an_ping a) tr ch p
   | HandlePush tr p \<Rightarrow> handlePush tr p
   | HandleMessage d \<Rightarrow> handleMessage d
   | HandleServerPublication ch p \<Rightarrow> handleServerPublication h ch p
   | HandleServerJoin ch i \<Rightarrow> handleServerJoin h ch i
   | HandleServerLeave ch i \<Rightarrow> handleServerLeave h ch i
   | HandleServerSub ch p \<Rightarrow> handleServerSub h ch p
   | HandleServerUnsub ch \<Rightarrow> handleServerUnsub h ch
   | SendRefresh g \<Rightarrow> sendRefresh h g
   | CallGetTokenRefresh g \<Rightarrow> ret [TClient (GotRefreshToken g (an_token a))]
   | GotRefreshToken g r \<Rightarrow> gotRefreshToken h g r
   | RefreshSend g tok \<Rightarrow> do { refreshSend g tok; ret [] }
   | RefreshFailed g \<Rightarrow> do { handleRefreshError g; ret [] }
   | RefreshReply g r \<Rightarrow> refreshReply h g r)"

definition run_call :: "answers \<Rightarrow> call_task \<Rightarrow> task list op" where
  "run_call a t = (case t of
     RunCallback cb r \<Rightarrow> runCallback cb r
   | AwaitReply i \<Rightarrow> awaitReply i
   | AwaitReplyOn i ch \<Rightarrow> awaitReplyOn (an_timed_out a) i ch
   | ClientCall k oper \<Rightarrow> clientCall k oper
   | OnConnect k oper \<Rightarrow> onConnect k oper
   | RunOperation k oper e \<Rightarrow> do { runOperation k oper e; ret [] }
   | FutureTimeout i \<Rightarrow> do { futureTimeout i; ret [] }
   | SubCall s k oper \<Rightarrow> subCall s k oper
   | OnSubscribe s k oper \<Rightarrow> do { onSubscribe s k oper; ret [] }
   | RunSubOperation s k oper e \<Rightarrow> runSubOperation s k oper e
   | SubFutureTimeout s i \<Rightarrow> subFutureTimeout s i)"

definition run_sub :: "answers \<Rightarrow> bool \<Rightarrow> sub_task \<Rightarrow> task list op" where
  "run_sub a h t = (case t of
     SubscribeCall s k \<Rightarrow> subscribeCall s k
   | SubscribeRegistered s k \<Rightarrow> subscribeRegistered s k
   | SubscribeStart s k \<Rightarrow> subscribeStart s k
   | SubscribeConnected s k \<Rightarrow> subscribeConnected s k
   | UnsubscribeCall s k \<Rightarrow> unsubscribeCall s k
   | Unsubscribe s k \<Rightarrow> do {
       unsubscribe s unsubscribedUnsubscribeCalled ''unsubscribe called'' True;
       return_to (Some k) None; ret [] }
   | RemoveCall s k \<Rightarrow> removeCall s k
   | RemoveEntry s k \<Rightarrow> do { removeEntry s k; ret [] }
   | Resubscribe s \<Rightarrow> resubscribe s
   | GetState s \<Rightarrow> getState s
   | CallGetState s n i \<Rightarrow> gotState (an_state a) s n i
   | GetStateFailed s n \<Rightarrow> getStateFailed s n
   | ContinueResubscribe s b \<Rightarrow> continueResubscribe s b
   | CallGetSubToken s n i \<Rightarrow> gotSubToken (an_token a) s n i
   | SendSubscribe s n i tok \<Rightarrow> do { sendSubscribeNow s n i tok; ret [] }
   | SubscribeError s e n g \<Rightarrow> subscribeError s e n g
   | SubscribeUnrecoverable s n g \<Rightarrow> subscribeUnrecoverable s n g
   | SubscribeErrorReported s e n g \<Rightarrow> subscribeErrorReported s e n g
   | MoveToSubscribed s res g n \<Rightarrow> moveToSubscribed h s res g n
   | DeltaFailed s off e \<Rightarrow> deltaFailed h s off e
   | EmitError s e \<Rightarrow> emitError s e
   | HandlePublication s p \<Rightarrow> handlePublication h s p
   | HandleJoin s i \<Rightarrow> handleJoin h s i
   | HandleLeave s i \<Rightarrow> handleLeave h s i
   | HandleUnsubscribe s u \<Rightarrow> handleUnsubscribe s u
   | MoveToSubscribing s c r \<Rightarrow> subscribeAgain s c r
   | MoveToUnsubscribed s c r \<Rightarrow> do { moveToUnsubscribed s c r; ret [] }
   | InvalidateState s \<Rightarrow> do { invalidateState s; ret [] }
   | SubRefresh s n \<Rightarrow> refresh s n
   | CallGetSubTokenRefresh s n i \<Rightarrow> gotRefreshSubToken (an_token a) s n i
   | SubRefreshSend s n i tok \<Rightarrow> subRefreshSend s n i tok
   | SubRefreshWrite s n i tok \<Rightarrow> do { subRefreshWrite s n i tok; ret [] }
   | SubRefreshReply s n i r \<Rightarrow> subRefreshReply s n i (reply_result r_sub_refresh r)
   | SubRefreshArm s n ttl \<Rightarrow> do { subRefreshArm s n ttl; ret [] }
   | SubRefreshFatal s n i c r \<Rightarrow> do { unsubscribeIfRefreshCurrent s n i c r; ret [] })"

text \<open>A goroutine that waits goes on when what it waits for has happened.\<close>

definition run_task :: "answers \<Rightarrow> bool \<Rightarrow> task \<Rightarrow> task list op" where
  "run_task a h t = (case t of
     WaitEvent n \<Rightarrow> do { ran \<leftarrow> gets w_ran; ret (if n \<in> set ran then [] else [t]) }
   | WaitChan n \<Rightarrow> do { closed \<leftarrow> gets w_chans; ret (if n \<in> set closed then [] else [t]) }
   | WaitQueueClosed \<Rightarrow> do { q \<leftarrow> gets w_queue; ret (if q_close_ch q then [] else [t]) }
   | TConnect t \<Rightarrow> run_connect a h t
   | TClient t \<Rightarrow> run_client a h t
   | TCall t \<Rightarrow> run_call a t
   | TSub t \<Rightarrow> run_sub a h t)"

section \<open>Goroutines, timers and the dispatcher\<close>

text \<open>
  One segment of the \<open>i\<close>-th goroutine. The goroutine is taken out, its first task runs, and it comes
  back with what the task returned in front of the rest, or has ended when nothing is left. The
  order of the list of goroutines means nothing: the one that ran last is its head, a new one its last.
\<close>

definition take_task :: "nat \<Rightarrow> (bool \<times> task \<times> task list) option op" where
  "take_task i = do {
     ths \<leftarrow> gets w_threads;
     if i < length ths then
       (case ths ! i of
          (h, []) \<Rightarrow> ret None
        | (h, t # ts) \<Rightarrow> do {
            modify (\<lambda>w. w\<lparr>w_threads := take i ths @ drop (Suc i) ths\<rparr>);
            ret (Some (h, t, ts)) })
     else ret None }"

definition put_tasks :: "bool \<Rightarrow> task list \<Rightarrow> unit op" where
  "put_tasks h ts = (if ts = [] then ret ()
     else modify (\<lambda>w. w\<lparr>w_threads := (h, ts) # w_threads w\<rparr>))"

definition thread_step :: "answers \<Rightarrow> nat \<Rightarrow> unit op" where
  "thread_step a i = do {
     t \<leftarrow> take_task i;
     (case t of
        None \<Rightarrow> ret ()
      | Some (h, t, ts) \<Rightarrow> do {
          new \<leftarrow> run_task a h t;
          put_tasks h (new @ ts) }) }"

definition timer_task :: "timer \<Rightarrow> task" where
  "timer_task tm = (case tm of
     TmReconnect \<Rightarrow> TConnect (StartReconnectingIf None None)
   | TmRefresh g \<Rightarrow> TClient (SendRefresh g)
   | TmResubscribe s \<Rightarrow> TSub (Resubscribe s)
   | TmSubRefresh s session \<Rightarrow> TSub (SubRefresh s session))"

definition fire_timer :: "nat \<Rightarrow> unit op" where
  "fire_timer n = do {
     timers \<leftarrow> gets w_timers;
     (case gm_get timers n of
        None \<Rightarrow> ret ()
      | Some (tm, d) \<Rightarrow> do {
          modify (\<lambda>w. w\<lparr>w_timers := gm_del n (w_timers w)\<rparr>);
          spawn [timer_task tm] }) }"

text \<open>
  One round of the closure the dispatcher runs: its next event or publication; the rest of the
  closure, or nothing if it has returned.
\<close>

definition deliver :: "event \<Rightarrow> unit op" where
  "deliver e = modify (\<lambda>w. w\<lparr>w_delivered := w_delivered w @ [e]\<rparr>)"

definition job_round :: "job \<Rightarrow> job option op" where
  "job_round j = (case j of
     JEvents [] \<Rightarrow> ret None
   | JEvents (e # es) \<Rightarrow> do { deliver e; ret (Some (JEvents es)) }
   | JServerPubs ch attempt [] \<Rightarrow> ret None
   | JServerPubs ch attempt (p # ps) \<Rightarrow> do {
       ok \<leftarrow> deliver_server_pub ch attempt p;
       ret (if ok then Some (JServerPubs ch attempt ps) else None) }
   | JSubPubs s session [] \<Rightarrow> ret None
   | JSubPubs s session (p # ps) \<Rightarrow> do {
       ok \<leftarrow> deliver_sub_pub s session p;
       ret (if ok then Some (JSubPubs s session ps) else None) })"

definition dispatcher_step :: "unit op" where
  "dispatcher_step = do {
     q \<leftarrow> gets w_queue;
     (case q_disp q of
        Running (n, j) \<Rightarrow> do {
          r \<leftarrow> job_round j;
          (case r of
             Some j' \<Rightarrow> modify (\<lambda>w. w\<lparr>w_queue := (w_queue w)\<lparr>q_disp := Running (n, j')\<rparr>\<rparr>)
           | None \<Rightarrow> modify (\<lambda>w. w\<lparr>w_queue := dispatch_step (w_queue w), w_ran := n # w_ran w\<rparr>)) }
      | _ \<Rightarrow> modify (\<lambda>w. w\<lparr>w_queue := dispatch_step (w_queue w)\<rparr>)) }"

section \<open>The application\<close>

text \<open>What the application may call; \<open>h\<close> says whether it calls from inside an event handler.\<close>

datatype api =
    ApiConnect
  | ApiDisconnect
  | ApiClose
  | ApiCall operation
  | ApiSubCall sid operation
  | ApiSubscribe sid
  | ApiUnsubscribe sid
  | ApiRemove sid
  | ApiNew channel "sub_config option"
  | ApiSetToken string
  | ApiSetTagsFilter sid "pb_filter option"
  | ApiOnClient client_handler
  | ApiOnSub sid sub_handler
  | ApiCancel call

text \<open>The setters of \<^verbatim>\<open>client_events.go\<close> and \<^verbatim>\<open>subscription_events.go\<close>: a handler is set.\<close>

definition onClientEvent :: "client_handler \<Rightarrow> unit op" where
  "onClientEvent ev = modc (\<lambda>c. c\<lparr>c_events := (c_events c)(ev := True)\<rparr>)"

definition onSubEvent :: "sid \<Rightarrow> sub_handler \<Rightarrow> unit op" where
  "onSubEvent s ev = mods s (\<lambda>x. x\<lparr>s_events := (s_events x)(ev := True)\<rparr>)"

text \<open>A call gets an identity and a goroutine.\<close>

definition start_call :: "bool \<Rightarrow> (call \<Rightarrow> task) \<Rightarrow> unit op" where
  "start_call h f = do {
     k \<leftarrow> gets w_next_call;
     modify (\<lambda>w. w\<lparr>w_next_call := Suc k, w_threads := w_threads w @ [(h, [f k])]\<rparr>) }"

definition api_step :: "bool \<Rightarrow> api \<Rightarrow> unit op" where
  "api_step h a = (case a of
     ApiConnect \<Rightarrow> start_call h (\<lambda>k. TConnect (StartConnecting (Some k)))
   | ApiDisconnect \<Rightarrow> start_call h (\<lambda>k. TClient (DisconnectCall k))
   | ApiClose \<Rightarrow> start_call h (\<lambda>k. TClient (CloseCall k))
   | ApiCall oper \<Rightarrow> start_call h (\<lambda>k. TCall (ClientCall k oper))
   | ApiSubCall s oper \<Rightarrow> start_call h (\<lambda>k. TCall (SubCall s k oper))
   | ApiSubscribe s \<Rightarrow> start_call h (\<lambda>k. TSub (SubscribeCall s k))
   | ApiUnsubscribe s \<Rightarrow> start_call h (\<lambda>k. TSub (UnsubscribeCall s k))
   | ApiRemove s \<Rightarrow> start_call h (\<lambda>k. TSub (RemoveCall s k))
   | ApiNew ch cfg \<Rightarrow> do { _ \<leftarrow> NewSubscription ch cfg; ret () }
   | ApiSetToken tok \<Rightarrow> setToken tok
   | ApiSetTagsFilter s f \<Rightarrow> do { _ \<leftarrow> SetTagsFilter s f; ret () }
   | ApiOnClient ev \<Rightarrow> onClientEvent ev
   | ApiOnSub s ev \<Rightarrow> onSubEvent s ev
   | ApiCancel k \<Rightarrow> modify (\<lambda>w. w\<lparr>w_ctx_done := k # w_ctx_done w\<rparr>))"

text \<open>The application can only use subscriptions it got from \<open>NewSubscription\<close>.\<close>

definition api_sid :: "api \<Rightarrow> sid option" where
  "api_sid a = (case a of
     ApiSubCall s _ \<Rightarrow> Some s | ApiSubscribe s \<Rightarrow> Some s | ApiUnsubscribe s \<Rightarrow> Some s
   | ApiRemove s \<Rightarrow> Some s | ApiSetTagsFilter s _ \<Rightarrow> Some s | ApiOnSub s _ \<Rightarrow> Some s | _ \<Rightarrow> None)"

section \<open>The transition system\<close>

datatype action =
    ThreadStep answers nat
  | FireTimer nat
  | Dispatcher
  | Api bool api

definition act :: "action \<Rightarrow> unit op" where
  "act x = (case x of
     ThreadStep a i \<Rightarrow> thread_step a i
   | FireTimer n \<Rightarrow> fire_timer n
   | Dispatcher \<Rightarrow> dispatcher_step
   | Api h a \<Rightarrow> api_step h a)"

definition allowed :: "action \<Rightarrow> world \<Rightarrow> bool" where
  "allowed x w = (case x of
     Api h a \<Rightarrow> (case api_sid a of None \<Rightarrow> True | Some s \<Rightarrow> s < w_next_sid w)
   | _ \<Rightarrow> True)"

inductive client_step :: "world \<Rightarrow> world \<Rightarrow> bool" where
  step_act: "allowed x w \<Longrightarrow> client_step w (after (act x) w)"

inductive_cases client_stepE: "client_step w w'"

text \<open>\<open>newClient\<close>, with the endpoints already checked (see \<open>client_endpoints\<close>).\<close>

definition newClient :: "string list \<Rightarrow> bool \<Rightarrow> config \<Rightarrow> client" where
  "newClient endpoints isProtobuf config0 =
    (let cfg = default_config config0 in
     \<lparr>c_cmd_id = 0, c_future_id = 0, c_endpoints = endpoints, c_round = 0, c_attempt = 0,
      c_ptype = (if isProtobuf then TypeProtobuf else TypeJSON), c_cfg = cfg, c_token = cfg_token cfg,
      c_data = cfg_data cfg, c_transport = None, c_disconnected_ch = None,
      c_state = StateDisconnected, c_connected = False, c_subs = [], c_server_subs = [],
      c_subs_by_id = [], c_generation = 0, c_requests = [], c_reconnect_attempts = 0,
      c_strategy = newBackoffReconnect (cfg_min_reconnect_delay cfg) (cfg_max_reconnect_delay cfg),
      c_events = (\<lambda>_. False), c_send_pong = False, c_delay_ping = 0, c_close_ch = None, c_futures = [],
      c_cb_queue = True, c_reconnect_timer = None, c_refresh_timer = None, c_refresh_required = False\<rparr>)"

definition initial_world :: "environment \<Rightarrow> client \<Rightarrow> world" where
  "initial_world env c = \<lparr>w_env = env, w_cl = c, w_heap = [], w_next_sid = 0, w_next = 0, w_next_call = 0,
     w_timers = [], w_threads = [], w_queue = new_queue, w_ran = [], w_chans = [], w_wire = [],
     w_closed_tr = [], w_dials = [], w_results = [], w_returns = [], w_delivered = [],
     w_ctx_done = [], w_panic = False, w_lost = []\<rparr>"

definition client_init :: "world \<Rightarrow> bool" where
  "client_init w \<longleftrightarrow> (\<exists>env eps pb cfg.
     w = initial_world env (newClient eps pb cfg))"

abbreviation reachable :: "world \<Rightarrow> bool" where
  "reachable \<equiv> reach client_init client_step"

text \<open>Many steps, as a function: for running the model on a concrete schedule.\<close>

definition run_actions :: "action list \<Rightarrow> world \<Rightarrow> world" where
  "run_actions xs w = fold (\<lambda>x w. after (act x) w) xs w"

end
