(* ===== verification/Demo.thy ===== *)
theory Demo
  imports System
begin

text \<open>
  A concrete run of the client: connect, subscribe to a channel with a recoverable stream, receive
  publications. The witnesses of the properties evaluate it.
\<close>

definition demo_config :: config where
  "demo_config = \<lparr>cfg_token = [], cfg_get_token = False, cfg_data = None, cfg_header = None, cfg_name = [],
     cfg_version = [], cfg_read_timeout = 0, cfg_write_timeout = 0, cfg_handshake_timeout = 0,
     cfg_max_server_ping_delay = 0, cfg_min_reconnect_delay = 0, cfg_max_reconnect_delay = 0,
     cfg_log_level = 0\<rparr>"

definition demo_env :: environment where
  "demo_env = \<lparr>en_codec = \<lparr>fdelta_apply = (\<lambda>b d. Inr d), json_string = (\<lambda>d. Inr [])\<rparr>,
     en_for_attempt = (\<lambda>r n. bo_min r), en_write_fails = (\<lambda>n. False)\<rparr>"

definition demo_start :: world where
  "demo_start = initial_world demo_env (newClient [''ws://localhost''] True demo_config)"

definition demo_answers :: answers where
  "demo_answers = \<lparr>an_token = Inr ''t'', an_state = Inr \<lparr>sp_offset = 0, sp_epoch = []\<rparr>, an_dial = None,
     an_timed_out = False, an_read = GotEOF None, an_ping = PingSeen\<rparr>"

definition says :: "pb_reply \<Rightarrow> answers" where
  "says r = demo_answers\<lparr>an_read := GotReply r\<rparr>"

abbreviation go :: "nat \<Rightarrow> nat \<Rightarrow> action list" where
  "go n i \<equiv> replicate n (ThreadStep demo_answers i)"

definition demo_connect_reply :: pb_reply where
  "demo_connect_reply = (empty_reply 1)\<lparr>r_connect := Some \<lparr>cr_client = ''c'', cr_version = [],
     cr_data = None, cr_subs = [], cr_expires = False, cr_ttl = 0, cr_ping = 0, cr_pong = False\<rparr>\<rparr>"

definition demo_pub :: "u64 \<Rightarrow> bytes \<Rightarrow> pb_pub" where
  "demo_pub off d = \<lparr>pp_offset = off, pp_data = Some d, pp_info = None, pp_tags = [], pp_delta = False,
     pp_epoch = [], pp_channel = []\<rparr>"

definition demo_subscribe_reply :: pb_reply where
  "demo_subscribe_reply = (empty_reply 2)\<lparr>r_subscribe := Some \<lparr>sr_data = None, sr_recovered = False,
     sr_was_recovering = False, sr_recoverable = True, sr_positioned = True, sr_epoch = ''e'',
     sr_offset = 5, sr_publications = [], sr_expires = False, sr_ttl = 0, sr_delta = False, sr_id = 7\<rparr>\<rparr>"

definition demo_push :: pb_reply where
  "demo_push = (empty_reply 0)\<lparr>r_push := Some \<lparr>pu_id = 7, pu_channel = [], pu_message = None,
     pu_unsubscribe = None, pu_pub = Some (demo_pub 6 [42]), pu_join = None, pu_leave = None,
     pu_subscribe = None, pu_disconnect = None\<rparr>\<rparr>"

text \<open>
  The goroutine that ran last is number 0. Before the connect reply the second one is the reader of
  the connection; it is number 0 from then on, and the last one is the latest call.
\<close>

definition demo_connect :: "action list" where
  "demo_connect = [Api False ApiConnect] @ go 5 0 @ [ThreadStep (says demo_connect_reply) 0] @ go 6 0"

definition demo_subscribe :: "action list" where
  "demo_subscribe = [Api False (ApiNew ''ch'' None), Api False (ApiOnSub 0 SHPublication),
     Api False (ApiSubscribe 0)] @ go 1 2 @ go 7 0"

definition demo_subscribed :: "action list" where
  "demo_subscribed = [ThreadStep (says demo_subscribe_reply) 0] @ go 2 0"

definition demo_publication :: "action list" where
  "demo_publication = [ThreadStep (says demo_push) 0] @ go 2 0 @ replicate 3 Dispatcher"

definition demo_connected :: world where
  "demo_connected = run_actions demo_connect demo_start"

definition demo_in_flight :: world where
  "demo_in_flight = run_actions (demo_connect @ demo_subscribe) demo_start"

definition demo_live :: world where
  "demo_live = run_actions (demo_connect @ demo_subscribe @ demo_subscribed) demo_start"

section \<open>Runs reach reachable states\<close>

fun run_allowed :: "action list \<Rightarrow> world \<Rightarrow> bool" where
  "run_allowed [] w = True"
| "run_allowed (x # xs) w = (allowed x w \<and> run_allowed xs (after (act x) w))"

lemma run_actions_Cons: "run_actions (x # xs) w = run_actions xs (after (act x) w)"
  by (simp add: run_actions_def)

lemma run_steps: "run_allowed xs w \<Longrightarrow> client_step\<^sup>*\<^sup>* w (run_actions xs w)"
proof (induction xs arbitrary: w)
  case Nil
  then show ?case by (simp add: run_actions_def)
next
  case (Cons x xs)
  then have "client_step w (after (act x) w)" by (auto intro: step_act)
  with Cons show ?case by (auto simp: run_actions_Cons intro: converse_rtranclp_into_rtranclp)
qed

lemma reachable_steps: "client_step\<^sup>*\<^sup>* w w' \<Longrightarrow> reachable w \<Longrightarrow> reachable w'"
  by (induction rule: rtranclp_induct) (auto intro: reach_step)

lemma reachable_run: "run_allowed xs w \<Longrightarrow> reachable w \<Longrightarrow> reachable (run_actions xs w)"
  using run_steps reachable_steps by blast

lemma reachable_start: "reachable demo_start"
  by (rule reach_init) (auto simp: client_init_def demo_start_def)

text \<open>A run that is checked step by step, and the state it ends in: one evaluation for both.\<close>

fun run_then :: "action list \<Rightarrow> (world \<Rightarrow> bool) \<Rightarrow> world \<Rightarrow> bool" where
  "run_then [] P w = P w"
| "run_then (x # xs) P w = (allowed x w \<and> run_then xs P (after (act x) w))"

lemma run_then_iff: "run_then xs P w \<longleftrightarrow> run_allowed xs w \<and> P (run_actions xs w)"
  by (induction xs arbitrary: w) (auto simp: run_actions_Cons run_actions_def)

lemma run_actions_append: "run_actions (xs @ ys) w = run_actions ys (run_actions xs w)"
  by (simp add: run_actions_def)

text \<open>What the demo worlds look like.\<close>

definition connected_ok :: "world \<Rightarrow> bool" where
  "connected_ok w \<longleftrightarrow> c_state (w_cl w) = StateConnected \<and> c_generation (w_cl w) = 0"

definition in_flight_ok :: "world \<Rightarrow> bool" where
  "in_flight_ok w \<longleftrightarrow> c_requests (w_cl w) = [(2, \<lparr>rq_cb = CbSubscribe 0 0 0, rq_result = replyResultSubscribe\<rparr>)]
     \<and> w_lost w = [] \<and> w_next_call w = 2 \<and> w_results w = [] \<and> w_returns w = [(0, None), (1, None)]
     \<and> w_threads w = [(False, [TClient (Reader 1 2)]), (False, [TCall (AwaitReply 1)]),
          (False, [TCall (AwaitReply 2)])]
     \<and> c_state (w_cl w) = StateConnected \<and> c_subs (w_cl w) = [(''ch'', 0)]
     \<and> s_state (sub_at w 0) = SubStateSubscribing \<and> s_resubscribe_timer (sub_at w 0) = None"

definition live_ok :: "world \<Rightarrow> bool" where
  "live_ok w \<longleftrightarrow> c_state (w_cl w) = StateConnected \<and> c_generation (w_cl w) = 0 \<and> w_next_sid w = 1
     \<and> c_subs (w_cl w) = [(''ch'', 0)] \<and> c_subs_by_id (w_cl w) = [(7, 0)]
     \<and> s_state (sub_at w 0) = SubStateSubscribed"

lemma demo_runs:
  "run_then demo_connect (\<lambda>w. connected_ok w
     \<and> run_then demo_subscribe (\<lambda>w. in_flight_ok w \<and> run_then demo_subscribed live_ok w) w) demo_start"
  by code_simp

lemma demo_ok:
  "connected_ok demo_connected" "in_flight_ok demo_in_flight" "live_ok demo_live"
  "run_allowed demo_connect demo_start" "run_allowed demo_subscribe demo_connected"
  "run_allowed demo_subscribed demo_in_flight"
  using demo_runs
  by (simp_all add: run_then_iff demo_connected_def demo_in_flight_def demo_live_def run_actions_append)

lemmas demo_connected = demo_ok(1)[unfolded connected_ok_def]
lemmas demo_in_flight = demo_ok(2)[unfolded in_flight_ok_def]
lemmas demo_live = demo_ok(3)[unfolded live_ok_def]

lemma demo_steps:
  "client_step\<^sup>*\<^sup>* demo_connected demo_in_flight" "client_step\<^sup>*\<^sup>* demo_in_flight demo_live"
  using run_steps[OF demo_ok(5)] run_steps[OF demo_ok(6)]
  by (simp_all add: demo_connected_def demo_in_flight_def demo_live_def run_actions_append)

lemma reachable_demo: "reachable demo_connected" "reachable demo_in_flight" "reachable demo_live"
proof -
  show c: "reachable demo_connected"
    unfolding demo_connected_def using demo_ok(4) reachable_start by (rule reachable_run)
  show "reachable demo_in_flight" "reachable demo_live"
    using demo_steps reachable_steps[OF _ c] rtranclp_trans[of client_step] by blast+
qed

end
