(* ===== verification/NoPanic.thy ===== *)
theory NoPanic
  imports Demo
begin

text \<open>
  The client never dereferences a nil pointer of a message, whatever the server sends: a reply is
  checked against what its request expects before the callback runs (\<open>malformedReply\<close>), and
  everything handed on from there (to the connect and subscribe flow, to the dispatcher) keeps
  being safe to read.
\<close>

section \<open>What is safe to read\<close>

definition op_kind :: "operation \<Rightarrow> replyResult" where
  "op_kind oper = (case oper of
     OpSend _ \<Rightarrow> replyResultNone | OpRPC _ _ \<Rightarrow> replyResultRPC | OpPublish _ _ \<Rightarrow> replyResultNone
   | OpHistory _ _ \<Rightarrow> replyResultHistory | OpPresence _ \<Rightarrow> replyResultPresence
   | OpPresenceStats _ \<Rightarrow> replyResultPresenceStats)"

definition cb_kind :: "callback \<Rightarrow> replyResult" where
  "cb_kind cb = (case cb of
     CbConnect _ _ _ _ \<Rightarrow> replyResultConnect | CbSubscribe _ _ _ \<Rightarrow> replyResultSubscribe
   | CbRefresh _ \<Rightarrow> replyResultRefresh | CbSubRefresh _ _ _ \<Rightarrow> replyResultSubRefresh
   | CbUnsubscribe \<Rightarrow> replyResultNone | CbCall k oper \<Rightarrow> op_kind oper)"

definition safe_reply :: "replyResult \<Rightarrow> err + pb_reply \<Rightarrow> bool" where
  "safe_reply kind x = (case x of Inl e \<Rightarrow> True
     | Inr r \<Rightarrow> r_error r \<noteq> None \<or> \<not> malformedReply kind r)"

definition safe_task :: "task \<Rightarrow> bool" where
  "safe_task t = (case t of
     TCall (RunCallback cb x) \<Rightarrow> safe_reply (cb_kind cb) x
   | TClient (RefreshReply g x) \<Rightarrow> safe_reply replyResultRefresh x
   | TSub (SubRefreshReply s n i x) \<Rightarrow> safe_reply replyResultSubRefresh x
   | TSub (MoveToSubscribed s res g a) \<Rightarrow> \<not> hasNilPublication (sr_publications res)
   | TConnect (ConnectReply n tr tok ch x) \<Rightarrow>
       (case x of Inl e \<Rightarrow> True | Inr res \<Rightarrow> \<not> hasMalformedSub (gm_vals (cr_subs res)))
   | TConnect (ConnectOk n tr ch res) \<Rightarrow> \<not> hasMalformedSub (gm_vals (cr_subs res))
   | TConnect (ConnectSubs n tr ch res rest) \<Rightarrow> \<not> hasMalformedSub (gm_vals rest)
   | _ \<Rightarrow> True)"

definition safe_job :: "job \<Rightarrow> bool" where
  "safe_job j = (case j of JServerPubs ch a ps \<Rightarrow> \<not> hasNilPublication ps | _ \<Rightarrow> True)"

definition safe_queue :: "(nat \<times> job) cbq \<Rightarrow> bool" where
  "safe_queue q \<longleftrightarrow> (\<forall>a n j. cb_fn (q_nodes q a) = Some (n, j) \<longrightarrow> safe_job j)
     \<and> (\<forall>n j. q_disp q = Running (n, j) \<longrightarrow> safe_job j)"

definition safe_threads :: "(bool \<times> task list) list \<Rightarrow> bool" where
  "safe_threads ths \<longleftrightarrow> (\<forall>h ts t. (h, ts) \<in> set ths \<and> t \<in> set ts \<longrightarrow> safe_task t)"

definition safe_requests :: "(u32, request) gomap \<Rightarrow> bool" where
  "safe_requests reqs \<longleftrightarrow> (\<forall>i q. (i, q) \<in> set reqs \<longrightarrow> rq_result q = cb_kind (rq_cb q))"

definition sound :: "world \<Rightarrow> bool" where
  "sound w \<longleftrightarrow> safe_threads (w_threads w) \<and> safe_requests (c_requests (w_cl w))
     \<and> safe_queue (w_queue w) \<and> \<not> w_panic w"

abbreviation safe_tasks :: "task list \<Rightarrow> bool" where
  "safe_tasks ts \<equiv> list_all safe_task ts"

lemma safe_task_simps [simp]:
  "safe_task (WaitEvent n)" "safe_task (WaitChan n)" "safe_task WaitQueueClosed"
  "safe_task (TCall (RunCallback cb x)) = safe_reply (cb_kind cb) x"
  "safe_task (TClient (RefreshReply g x)) = safe_reply replyResultRefresh x"
  "safe_task (TSub (SubRefreshReply s n i x)) = safe_reply replyResultSubRefresh x"
  "safe_task (TSub (MoveToSubscribed s sres g a)) = (\<not> hasNilPublication (sr_publications sres))"
  "safe_task (TConnect (ConnectReply n tr tok ch (Inl e)))"
  "safe_task (TConnect (ConnectReply n tr tok ch (Inr res))) = (\<not> hasMalformedSub (gm_vals (cr_subs res)))"
  "safe_task (TConnect (ConnectOk n tr ch res)) = (\<not> hasMalformedSub (gm_vals (cr_subs res)))"
  "safe_task (TConnect (ConnectSubs n tr ch res rest)) = (\<not> hasMalformedSub (gm_vals rest))"
  "safe_reply kind (Inl e)"
  by (simp_all add: safe_task_def safe_reply_def)

text \<open>Every other task is safe.\<close>

lemma safe_connect_task [simp]:
  "safe_task (TConnect (StartConnecting k))" "safe_task (TConnect (StartReconnectingIf ex k))"
  "safe_task (TConnect (ConnectToken n r k))" "safe_task (TConnect (GotConnectToken n r k tk))"
  "safe_task (TConnect (CallGetToken n r k))" "safe_task (TConnect (Dial n r k))"
  "safe_task (TConnect (ScheduleIfCurrent n k e))" "safe_task (TConnect (Dialed n tr k))"
  "safe_task (TConnect (ConnectFailed n tr tok e))" "safe_task (TConnect (ConnectFailedClosed n tok e))"
  "safe_task (TConnect (ConnectUnsubs n tr ch res))" "safe_task (TConnect (ConnectDone n tr ch res))"
  by (simp_all add: safe_task_def)

lemma safe_client_task [simp]:
  "(\<And>g x. t \<noteq> RefreshReply g x) \<Longrightarrow> safe_task (TClient t)"
  by (cases t) (auto simp: safe_task_def)

lemma safe_call_task [simp]:
  "(\<And>cb x. t \<noteq> RunCallback cb x) \<Longrightarrow> safe_task (TCall t)"
  by (cases t) (auto simp: safe_task_def)

lemma safe_sub_task [simp]:
  "(\<And>s n i x. t \<noteq> SubRefreshReply s n i x) \<Longrightarrow> (\<And>s res g a. t \<noteq> MoveToSubscribed s res g a)
    \<Longrightarrow> safe_task (TSub t)"
  by (cases t) (auto simp: safe_task_def)

section \<open>Soundness as a property of operations\<close>

lemma sound_frames [simp]:
  "sound (w\<lparr>w_heap := a\<rparr>) = sound w" "sound (w\<lparr>w_next_sid := n\<rparr>) = sound w"
  "sound (w\<lparr>w_next := n\<rparr>) = sound w" "sound (w\<lparr>w_timers := t\<rparr>) = sound w"
  "sound (w\<lparr>w_ran := r\<rparr>) = sound w" "sound (w\<lparr>w_chans := ch\<rparr>) = sound w"
  "sound (w\<lparr>w_wire := wi\<rparr>) = sound w" "sound (w\<lparr>w_closed_tr := ct\<rparr>) = sound w"
  "sound (w\<lparr>w_dials := d\<rparr>) = sound w" "sound (w\<lparr>w_results := rs\<rparr>) = sound w"
  "sound (w\<lparr>w_returns := rt\<rparr>) = sound w" "sound (w\<lparr>w_delivered := dl\<rparr>) = sound w"
  "sound (w\<lparr>w_ctx_done := cd\<rparr>) = sound w" "sound (w\<lparr>w_lost := l\<rparr>) = sound w"
  "sound (w\<lparr>w_next_call := nc\<rparr>) = sound w"
  by (simp_all add: sound_def)

lemma sound_cl [simp]: "c_requests c = c_requests (w_cl w) \<Longrightarrow> sound (w\<lparr>w_cl := c\<rparr>) = sound w"
  by (simp add: sound_def)

text \<open>An operation is safe when it keeps soundness and the tasks it returns are safe.\<close>

definition safe :: "task list op \<Rightarrow> bool" where
  "safe m \<longleftrightarrow> (\<forall>w. sound w \<longrightarrow> sound (after m w) \<and> safe_tasks (outcome m w))"

named_theorems safe_intro \<open>rules for safe operations\<close>

lemma safe_pres: "safe m \<Longrightarrow> pres sound m"
  by (simp add: safe_def pres_def)

lemma safe_return [safe_intro]: "safe_tasks ts \<Longrightarrow> safe (ret ts)"
  by (simp add: safe_def)

lemma safe_bind [safe_intro]: "pres sound m \<Longrightarrow> (\<And>x. safe (k x)) \<Longrightarrow> safe (State_Monad.bind m k)"
  by (simp add: safe_def pres_def split_beta)

lemma safe_bind_tasks:
  "safe m \<Longrightarrow> (\<And>ts. safe_tasks ts \<Longrightarrow> safe (k ts)) \<Longrightarrow> safe (State_Monad.bind m k)"
  by (simp add: safe_def split_beta)

lemma safe_if [safe_intro]: "(b \<Longrightarrow> safe m) \<Longrightarrow> (\<not> b \<Longrightarrow> safe n) \<Longrightarrow> safe (if b then m else n)"
  by simp

lemma safe_option [safe_intro]:
  "(x = None \<Longrightarrow> safe m) \<Longrightarrow> (\<And>y. x = Some y \<Longrightarrow> safe (n y)) \<Longrightarrow> safe (case x of None \<Rightarrow> m | Some y \<Rightarrow> n y)"
  by (cases x) auto

lemma safe_sum [safe_intro]:
  "(\<And>y. x = Inl y \<Longrightarrow> safe (m y)) \<Longrightarrow> (\<And>y. x = Inr y \<Longrightarrow> safe (n y))
    \<Longrightarrow> safe (case x of Inl y \<Rightarrow> m y | Inr y \<Rightarrow> n y)"
  by (cases x) auto

lemma safe_prod [safe_intro]:
  "(\<And>a b. x = (a, b) \<Longrightarrow> safe (m a b)) \<Longrightarrow> safe (case x of (a, b) \<Rightarrow> m a b)"
  by (cases x) auto

lemma safe_cases [safe_intro]:
  "safe a \<Longrightarrow> safe b \<Longrightarrow> safe c \<Longrightarrow> safe d
    \<Longrightarrow> safe (case st of StateDisconnected \<Rightarrow> a | StateConnecting \<Rightarrow> b | StateConnected \<Rightarrow> c | StateClosed \<Rightarrow> d)"
  "safe a \<Longrightarrow> safe b \<Longrightarrow> safe c
    \<Longrightarrow> safe (case p of PingSeen \<Rightarrow> a | PingTimeout \<Rightarrow> b | PingClosed \<Rightarrow> c)"
  by ((cases st; simp), (cases p; simp))

lemma pres_cases [pres_intro]:
  "pres I a \<Longrightarrow> pres I b \<Longrightarrow> pres I c \<Longrightarrow> pres I d
    \<Longrightarrow> pres I (case st of StateDisconnected \<Rightarrow> a | StateConnecting \<Rightarrow> b | StateConnected \<Rightarrow> c | StateClosed \<Rightarrow> d)"
  "pres I a \<Longrightarrow> pres I b \<Longrightarrow> pres I c
    \<Longrightarrow> pres I (case ss of SubStateUnsubscribed \<Rightarrow> a | SubStateSubscribing \<Rightarrow> b | SubStateSubscribed \<Rightarrow> c)"
  "pres I a \<Longrightarrow> pres I b \<Longrightarrow> pres I c
    \<Longrightarrow> pres I (case p of PingSeen \<Rightarrow> a | PingTimeout \<Rightarrow> b | PingClosed \<Rightarrow> c)"
  by ((cases st; simp), (cases ss; simp), (cases p; simp))

lemma pres_operation [pres_intro]:
  "(\<And>a. pres I (m1 a)) \<Longrightarrow> (\<And>a b. pres I (m2 a b)) \<Longrightarrow> (\<And>a b. pres I (m3 a b))
    \<Longrightarrow> (\<And>a b. pres I (m4 a b)) \<Longrightarrow> (\<And>a. pres I (m5 a)) \<Longrightarrow> (\<And>a. pres I (m6 a))
    \<Longrightarrow> pres I (case oper of OpSend a \<Rightarrow> m1 a | OpRPC a b \<Rightarrow> m2 a b | OpPublish a b \<Rightarrow> m3 a b
        | OpHistory a b \<Rightarrow> m4 a b | OpPresence a \<Rightarrow> m5 a | OpPresenceStats a \<Rightarrow> m6 a)"
  by (cases oper) auto

section \<open>The primitives\<close>

lemma sound_spawn [pres_intro]: "safe_tasks ts \<Longrightarrow> pres sound (spawn ts)"
  by (auto simp: pres_def spawn_def sound_def safe_threads_def list_all_iff)

lemma sound_effects [pres_intro]:
  "pres sound fresh" "pres sound (add_result k r)" "pres sound (return_to c e)"
  "pres sound (close_chan ch)" "pres sound (close_transport t)" "pres sound (stop_timer n)"
  by (simp_all add: pres_def fresh_def add_result_def return_to_def close_chan_def
      close_transport_def stop_timer_def split: option.split)

lemma safe_queue_push: "safe_queue q \<Longrightarrow> safe_job j \<Longrightarrow> safe_queue (snd (push (n, j) q))"
  by (auto simp: safe_queue_def push_def pushOrClose_def Let_def split: option.splits)

lemma safe_queue_close: "safe_queue q \<Longrightarrow> safe_queue (close_queue q)"
  by (auto simp: safe_queue_def close_queue_def pushOrClose_def Let_def split: option.splits)

lemma safe_queue_dispatch: "safe_queue q \<Longrightarrow> safe_queue (dispatch_step q)"
  by (auto simp: safe_queue_def dispatch_step_def take_head_def Let_def split: dispatcher.splits option.splits)

lemma sound_push_job [pres_intro]: "safe_job j \<Longrightarrow> pres sound (push_job j)"
  by (auto simp: pres_def push_job_def fresh_def sound_def split_beta dest: safe_queue_push)

lemma safe_job_simps [simp]:
  "safe_job (JEvents es)" "safe_job (JSubPubs s n pps)" "safe_job (JServerPubs ch a ps) = (\<not> hasNilPublication ps)"
  by (simp_all add: safe_job_def)

lemma sound_after_func [pres_intro]: "pres sound (after_func d tm)"
  by (auto simp: after_func_def intro!: pres_intro)

lemma sound_queueEvent [pres_intro]:
  "safe_job j \<Longrightarrow> pres sound (queueEvent j)" "safe_job j \<Longrightarrow> pres sound (runHandlerAsync j)"
  by (auto simp: queueEvent_def runHandlerAsync_def intro!: pres_intro)

lemma sound_queue_if [pres_intro]: "(b \<Longrightarrow> safe_job j) \<Longrightarrow> pres sound (queue_if b j)"
  by (auto simp: queue_if_def intro!: pres_intro)

lemma safe_waitEvent [simp]:
  "safe_tasks (waitEvent h d)" "t \<in> set (waitEvent h d) \<Longrightarrow> safe_task t"
  by (auto simp: waitEvent_def split: option.splits if_splits)

lemma safe_handlers [safe_intro]:
  "safe_job j \<Longrightarrow> safe (runHandlerSync j)" "safe_job j \<Longrightarrow> safe (runHandlerSyncReentrant h j)"
  "safe (handleError h e)" "safe (emitError s e)"
  by (auto simp: runHandlerSync_def runHandlerSyncReentrant_def handleError_def emitError_def
      intro!: safe_intro pres_intro)

section \<open>Requests\<close>

lemma sound_addRequest [pres_intro]: "r = cb_kind cb \<Longrightarrow> pres sound (addRequest i r cb)"
  unfolding addRequest_def
  by (intro pres_intro; simp)
     (auto simp: sound_def safe_requests_def dest: gm_put_mem)

lemma safe_requests_pop: "safe_requests reqs \<Longrightarrow> safe_requests (snd (gm_pop i reqs))"
  by (auto simp: safe_requests_def gm_pop_def gm_del_mem split: option.splits)

lemma sound_popRequest [pres_intro]: "pres sound (popRequest i)"
  by (auto simp: pres_def popRequest_def modc_def sound_def split_beta dest: safe_requests_pop)

lemma sound_nextCmdID [pres_intro]:
  "pres sound (nextCmdID)"
  "pres sound (sendOn t cmd)"
  "pres sound (send cmd)"
  by (auto simp: nextCmdID_def sendOn_def send_def intro!: pres_intro)

lemma sound_sendAsync [pres_intro]:
  "replyResultOf cmd = cb_kind cb \<Longrightarrow> pres sound (sendAsyncOn t cmd cb)"
  "replyResultOf cmd = cb_kind cb \<Longrightarrow> pres sound (sendAsync cmd cb)"
  by (auto simp: sendAsyncOn_def sendAsync_def intro!: pres_intro)

lemma cmd_kinds [simp]:
  "replyResultOf ((new_command i)\<lparr>cmd_connect := Some a\<rparr>) = replyResultConnect"
  "replyResultOf ((new_command i)\<lparr>cmd_subscribe := Some b\<rparr>) = replyResultSubscribe"
  "replyResultOf ((new_command i)\<lparr>cmd_unsubscribe := Some c\<rparr>) = replyResultNone"
  "replyResultOf ((new_command i)\<lparr>cmd_publish := Some p\<rparr>) = replyResultNone"
  "replyResultOf ((new_command i)\<lparr>cmd_presence := Some c\<rparr>) = replyResultPresence"
  "replyResultOf ((new_command i)\<lparr>cmd_presence_stats := Some c\<rparr>) = replyResultPresenceStats"
  "replyResultOf ((new_command i)\<lparr>cmd_history := Some h\<rparr>) = replyResultHistory"
  "replyResultOf ((new_command i)\<lparr>cmd_rpc := Some r\<rparr>) = replyResultRPC"
  "replyResultOf ((new_command i)\<lparr>cmd_refresh := Some t\<rparr>) = replyResultRefresh"
  "replyResultOf ((new_command i)\<lparr>cmd_sub_refresh := Some st\<rparr>) = replyResultSubRefresh"
  by (simp_all add: replyResultOf_def new_command_def)

lemma cb_kind_simps [simp]:
  "cb_kind (CbConnect n t tok ch) = replyResultConnect" "cb_kind (CbSubscribe s g n) = replyResultSubscribe"
  "cb_kind (CbRefresh g) = replyResultRefresh" "cb_kind (CbSubRefresh s n m1) = replyResultSubRefresh"
  "cb_kind CbUnsubscribe = replyResultNone" "cb_kind (CbCall k oper) = op_kind oper"
  "op_kind (OpSend d) = replyResultNone" "op_kind (OpRPC m d) = replyResultRPC"
  "op_kind (OpPublish c d) = replyResultNone" "op_kind (OpHistory c h) = replyResultHistory"
  "op_kind (OpPresence c) = replyResultPresence" "op_kind (OpPresenceStats c) = replyResultPresenceStats"
  by (simp_all add: cb_kind_def op_kind_def)

lemma sound_popAndFail [safe_intro]:
  "safe (popAndFail i e)"
  "safe (awaitReply i)"
  "safe (awaitReplyOn b i ch)"
  by (auto simp: popAndFail_def awaitReply_def awaitReplyOn_def intro!: safe_intro pres_intro)

lemma sound_send_operation [pres_intro]:
  "replyResultOf cmd = op_kind oper \<Longrightarrow> pres sound (send_operation k oper cmd)"
  by (auto simp: send_operation_def intro!: pres_intro)

lemma sound_calls [pres_intro]:
  "pres sound (sendRPC k m d)"
  "pres sound (sendPublish k ch d)"
  "pres sound (sendHistory k ch opts)"
  "pres sound (sendPresence k ch)"
  "pres sound (sendPresenceStats k ch)"
  "pres sound (send_message k d)"
  by (auto simp: sendRPC_def sendPublish_def sendHistory_def sendPresence_def sendPresenceStats_def send_message_def intro!: pres_intro)

lemma sound_runOperation [pres_intro]:
  "pres sound (runOperation k oper e)"
  by (auto simp: runOperation_defs intro!: pres_intro)

lemma sound_futures [pres_intro]:
  "pres sound (nextFutureID)"
  "pres sound (resolveConnectFutures e)"
  "pres sound (futureTimeout i)"
  by (auto simp: nextFutureID_def resolveConnectFutures_def futureTimeout_def intro!: pres_intro)

lemma sound_onConnect [safe_intro]:
  "safe (onConnect k oper)"
  "safe (clientCall k oper)"
  by (auto simp: onConnect_def clientCall_def intro!: safe_intro pres_intro)

lemma read_operation_safe: "read_operation oper r = None \<Longrightarrow> malformedReply (op_kind oper) r"
proof -
  assume "read_operation oper r = None"
  then have "\<not> readable (op_kind oper) r"
    by (cases oper) (auto simp: readable_def read_operation_def history_result_def split: option.splits)
  then show ?thesis by (simp add: readable_iff)
qed

lemma sound_operationReply: "safe_reply (op_kind oper) x \<Longrightarrow> pres sound (operationReply k oper x)"
  by (cases x) (auto simp: operationReply_def safe_reply_def intro!: pres_intro dest: read_operation_safe)

section \<open>Subscriptions\<close>

lemma sound_sub_calls [pres_intro]:
  "pres sound (NewSubscription ch cfg)"
  "pres sound (SetTagsFilter s f)"
  "pres sound (updateSubscriptionPushID s a b)"
  "pres sound (resolveSubFutures s e)"
  "pres sound (onSubscribe s k oper)"
  by (auto simp: NewSubscription_def SetTagsFilter_def updateSubscriptionPushID_def resolveSubFutures_def onSubscribe_def intro!: pres_intro)

lemma sound_runSubOperation [safe_intro]:
  "safe (runSubOperation s k oper e)"
  by (auto simp: runSubOperation_def intro!: safe_intro pres_intro)

lemma sound_subFutureTimeout [safe_intro]:
  "safe (subFutureTimeout s i)"
  "safe (subCall s k oper)"
  by (auto simp: subFutureTimeout_def subCall_def intro!: safe_intro pres_intro)

lemma sound_sub_moves [pres_intro]:
  "pres sound (queueSubscribingLocked s c r)"
  "pres sound (stop_sub_timers s)"
  "pres sound (scheduleResubscribe s)"
  "pres sound (arm_sub_refresh s ttl)"
  "pres sound (unsubscribe_failed)"
  by (auto simp: queueSubscribingLocked_def stop_sub_timers_def scheduleResubscribe_def arm_sub_refresh_def unsubscribe_failed_def intro!: pres_intro)

lemma sound_sub_unsubscribed [pres_intro]:
  "pres sound (moveToUnsubscribedLocked s c r e)"
  "pres sound (moveToSubscribingLocked s c r)"
  by (auto simp: moveToUnsubscribedLocked_def moveToSubscribingLocked_def intro!: pres_intro)

lemma sound_sub_commands [pres_intro]:
  "pres sound (moveToUnsubscribed s c r)"
  "pres sound (sendUnsubscribe ch)"
  "pres sound (unsubscribeReply x)"
  by (auto simp: moveToUnsubscribed_def sendUnsubscribe_def unsubscribeReply_def intro!: pres_intro)

lemma sound_sendUnsubscribeLocked [pres_intro]:
  "pres sound (sendUnsubscribeLocked s)"
  "pres sound (isRegistered s)"
  by (auto simp: sendUnsubscribeLocked_def isRegistered_def intro!: pres_intro)

lemma sound_sub_api1 [pres_intro]:
  "pres sound (unsubscribe s c r b)"
  "pres sound (removeEntry s k)"
  by (auto simp: unsubscribe_def removeEntry_def intro!: pres_intro)

lemma sound_sub_api [safe_intro]:
  "safe (subscribeCall s k)"
  "safe (subscribeRegistered s k)"
  "safe (subscribeStart s k)"
  "safe (subscribeConnected s k)"
  "safe (unsubscribeCall s k)"
  "safe (removeCall s k)"
  by (auto simp: subscribeCall_def subscribeRegistered_def subscribeStart_def subscribeConnected_def unsubscribeCall_def removeCall_def intro!: safe_intro pres_intro)

lemma sound_sub_flow1 [safe_intro]:
  "safe (resubscribe s)"
  "safe (getState s)"
  by (auto simp: resubscribe_def getState_def intro!: safe_intro pres_intro)

lemma sound_end_inflight [pres_intro]:
  "pres sound (end_inflight s)"
  by (auto simp: end_inflight_def intro!: pres_intro)

lemma sound_lockCurrentAttempt [pres_intro]:
  "pres sound (lockCurrentAttempt s a)"
  "pres sound (isRefreshCurrent s n i)"
  by (auto simp: lockCurrentAttempt_def isRefreshCurrent_def intro!: pres_intro)

lemma sound_lockCurrentSubscribe [pres_intro]:
  "pres sound (lockCurrentSubscribe s a g)"
  by (auto simp: lockCurrentSubscribe_def intro!: pres_intro)

lemma sound_sub_flow2 [safe_intro]:
  "safe (gotState res s a i)"
  "safe (continueResubscribe s b)"
  "safe (gotSubToken tk s a i)"
  by (auto simp: gotState_def continueResubscribe_def gotSubToken_def intro!: safe_intro pres_intro)

lemma safe_bind_lock:
  assumes "pres sound m" "\<And>w. safe_tasks (snd (outcome m w))" "\<And>b ts. safe_tasks ts \<Longrightarrow> safe (k (b, ts))"
  shows "safe (State_Monad.bind m k)"
  unfolding safe_def
proof (intro allI impI)
  fix w assume "sound w"
  then have "sound (after m w)" by (rule presD[OF assms(1)])
  then show "sound (after (State_Monad.bind m k) w) \<and> safe_tasks (outcome (State_Monad.bind m k) w)"
    using assms(3)[OF assms(2)[of w], of "fst (outcome m w)"] unfolding after_bind outcome_bind by (simp add: safe_def)
qed

lemma safe_locks:
  "safe_tasks (snd (outcome (lockCurrentAttempt s a) w))"
  "safe_tasks (snd (outcome (lockCurrentSubscribe s a g) w))"
  by (auto simp: lockCurrentAttempt_def lockCurrentSubscribe_def)

lemma sound_subscribeError [safe_intro]:
  "safe (subscribeError s e a g)" "safe (subscribeUnrecoverable s a g)"
  "safe (subscribeErrorReported s e a g)" "safe (getStateFailed s a)"
  unfolding subscribeError_def subscribeUnrecoverable_def subscribeErrorReported_def getStateFailed_def
  by (rule safe_bind_lock[OF _ safe_locks(1)] safe_bind_lock[OF _ safe_locks(2)];
      auto intro!: safe_intro pres_intro)+

lemma sound_sendSubscribe [pres_intro]:
  "pres sound (sendSubscribeNow s a i tok)"
  by (auto simp: sendSubscribeNow_def sendSubscribe_def intro!: pres_intro)

lemma safe_deltaFailed [safe_intro]: "safe (deltaFailed h s off e)"
  unfolding deltaFailed_def
  by (intro safe_bind pres_gets safe_bind_tasks[OF safe_handlers(3)] safe_return) simp

lemma sound_enterSubscribed [safe_intro]:
  "safe (enterSubscribed h s res pubs ds)"
  by (auto simp: enterSubscribed_def intro!: safe_intro pres_intro)

lemma safe_moveToSubscribed [safe_intro]:
  "\<not> hasNilPublication (sr_publications res) \<Longrightarrow> safe (moveToSubscribed h s res g a)"
  using deref_pubs_Some[of "sr_publications res"]
  by (auto simp: moveToSubscribed_def intro!: safe_intro pres_intro)

lemma sound_sub_pushes [safe_intro]:
  "safe (handlePublication h s p)"
  "safe (handleJoin h s i)"
  "safe (handleLeave h s i)"
  "safe (handleUnsubscribe s u)"
  by (auto simp: handlePublication_def handleJoin_def handleLeave_def handleUnsubscribe_def intro!: safe_intro pres_intro)

lemma sound_deliver_sub [pres_intro]:
  "pres sound (deliver_sub_pub s n pe)"
  "pres sound (invalidateState s)"
  "pres sound (unsubscribeIfRefreshCurrent s n i c r)"
  "pres sound (subRefreshArm s n ttl)"
  by (auto simp: deliver_sub_pub_def invalidateState_def unsubscribeIfRefreshCurrent_def subRefreshArm_def intro!: pres_intro)

lemma sound_sub_refresh [safe_intro]:
  "safe (refresh s n)"
  "safe (gotRefreshSubToken tk s n i)"
  "safe (subRefreshSend s n i tok)"
  by (auto simp: refresh_def gotRefreshSubToken_def subRefreshSend_def intro!: safe_intro pres_intro)

lemma sound_subRefreshWrite [pres_intro]:
  "pres sound (subRefreshWrite s n i tok)"
  by (auto simp: subRefreshWrite_def sendSubRefresh_def intro!: pres_intro)

lemma safe_subRefreshReply:
  "safe_reply replyResultSubRefresh x \<Longrightarrow> safe (subRefreshReply s n i (reply_result r_sub_refresh x))"
  by (auto simp: subRefreshReply_def reply_result_def safe_reply_def malformedReply_def
      intro!: safe_intro pres_intro split: sum.splits option.splits)

section \<open>The client\<close>

lemma sound_clear [pres_intro]: "pres sound clearConnectedState"
proof -
  have drop: "sound (w\<lparr>w_cl := (w_cl w)\<lparr>c_requests := []\<rparr>\<rparr>)" if "sound w" for w
    using that by (simp add: sound_def safe_requests_def)
  show ?thesis
    by (auto simp: clearConnectedState_def intro!: pres_intro drop)
qed

lemma sound_transitions [pres_intro]:
  "pres sound (setStateLocked st)"
  "pres sound (setTransportLocked t)"
  "pres sound (isCurrentAttemptLocked n)"
  "pres sound (isConnectedAttemptLocked n)"
  by (auto simp: setStateLocked_def setTransportLocked_def isCurrentAttemptLocked_def isConnectedAttemptLocked_def intro!: pres_intro)

lemma sound_drop [pres_intro]:
  "pres sound (drop_transport)"
  "pres sound (subs_to_subscribing)"
  "pres sound (scheduleReconnectLocked)"
  "pres sound (scheduleRefreshLocked d)"
  by (auto simp: drop_transport_def subs_to_subscribing_def scheduleReconnectLocked_def scheduleRefreshLocked_def intro!: pres_intro)

lemma sound_disconnect_now [pres_intro]:
  "pres sound (disconnect_now c r)"
  "pres sound (close_now)"
  "pres sound (retry_connecting t)"
  by (auto simp: disconnect_now_def close_now_def retry_connecting_def intro!: pres_intro)

lemma sound_moveToDisconnectedIf [pres_intro]:
  "pres sound (moveToDisconnectedIf cu c r)"
  by (auto simp: moveToDisconnectedIf_def intro!: pres_intro)

lemma sound_disconnects [pres_intro]:
  "pres sound (moveToDisconnected c r)"
  "pres sound (moveToDisconnectedFrom t c r)"
  "pres sound (connectingReported n)"
  "pres sound (setToken tok)"
  by (auto simp: moveToDisconnected_def moveToDisconnectedFrom_def connectingReported_def setToken_def intro!: pres_intro)

lemma sound_reconnect_now [safe_intro]:
  "safe (reconnect_now h c r)"
  by (auto simp: reconnect_now_def intro!: safe_intro pres_intro)

lemma sound_moveToConnectingFrom [safe_intro]:
  "safe (invalidateConnectionState)"
  "safe (handleTransportDisconnect t d)"
  "safe (disconnectCall k)"
  "safe (closeCall k)"
  "safe (closeReport st chs k)"
  "safe (closeWaitReader h k)"
  by (auto simp: invalidateConnectionState_def handleTransportDisconnect_def disconnectCall_def closeCall_def closeReport_def closeWaitReader_def Let_def list_all_iff intro!: safe_intro pres_intro)

lemma safe_moveToConnectingFrom [safe_intro]: "safe (moveToConnectingFrom h t c r)"
  by (auto simp: moveToConnectingFrom_def split: option.split cstate.split intro!: safe_intro pres_intro)

lemma safe_closeQueue [safe_intro]: "safe (closeQueue h b k)"
proof -
  have "sound (w\<lparr>w_queue := close_queue (w_queue w)\<rparr>)" if "sound w" for w
    using that by (simp add: sound_def safe_queue_close)
  then show ?thesis by (auto simp: closeQueue_def intro!: safe_intro pres_intro)
qed

section \<open>Connecting\<close>

lemma sound_startConnecting [safe_intro]:
  "safe (startConnecting h k)"
  "safe (startReconnectingIf ex k)"
  by (auto simp: startConnecting_def startReconnectingIf_def intro!: safe_intro pres_intro)

lemma safe_with_errors [safe_intro]:
  "safe_task a \<Longrightarrow> (\<And>x. safe_task (f x)) \<Longrightarrow> safe (refreshToken h a f)"
  "safe (gotConnectToken h n r k tk)" "safe (dial h eo n r k)" "safe (gotRefreshToken h g tk)"
  by (auto simp: refreshToken_def gotConnectToken_def dial_def gotRefreshToken_def disconnect_refresh_def
      isConnRefreshCurrent_def
      intro!: safe_intro pres_intro safe_bind_tasks[OF safe_handlers(3)])

lemma sound_connectToken [safe_intro]:
  "safe (connectToken h n r k)"
  "safe (connectFailed n t tok e)"
  by (auto simp: connectToken_def connectFailed_def intro!: safe_intro pres_intro)

lemma sound_scheduleIfCurrent [pres_intro]:
  "pres sound (scheduleIfCurrent n k e)"
  "pres sound (connectFailedClosed n tok e)"
  by (auto simp: scheduleIfCurrent_def connectFailedClosed_def intro!: pres_intro)

lemma safe_dialed [safe_intro]: "safe (dialed h n t k)"
  by (auto simp: dialed_def sendConnect_def intro!: safe_intro pres_intro safe_bind_tasks[OF safe_handlers(3)])

lemma safe_connectReply:
  "(\<And>res. x = Inr res \<Longrightarrow> \<not> hasMalformedSub (gm_vals (cr_subs res))) \<Longrightarrow> safe (connectReply h n t tok ch x)"
  by (auto simp: connectReply_def intro!: safe_intro pres_intro safe_bind_tasks[OF safe_handlers(3)] split: sum.split)

lemma safe_connectOk:
  "\<not> hasMalformedSub (gm_vals (cr_subs res)) \<Longrightarrow> safe (connectOk h n t ch res)"
  by (auto simp: connectOk_def intro!: safe_intro pres_intro)

lemma safe_connectSubs: "\<not> hasMalformedSub (gm_vals rest) \<Longrightarrow> safe (connectSubs h n t ch res rest)"
  by (auto simp: connectSubs_def gm_vals_def intro!: safe_intro pres_intro split: list.split option.splits if_splits)

lemma sound_queue_each [pres_intro]: "pres sound (queue_each es d)"
  by (induction es arbitrary: d) (auto intro!: pres_intro)

lemma sound_connectUnsubs [safe_intro]:
  "safe (connectUnsubs h n t ch res)"
  "safe (connectDone n t ch res)"
  "safe (sendRefresh h g)"
  by (auto simp: connectUnsubs_def connectDone_def sendRefresh_def isConnRefreshCurrent_def list_all_iff intro!: safe_intro pres_intro)

lemma sound_refreshSend [pres_intro]:
  "pres sound (refreshSend g tok)"
  "pres sound (handleRefreshError g)"
  by (auto simp: refreshSend_def handleRefreshError_def isConnRefreshCurrent_def intro!: pres_intro)

lemma safe_refreshReply: "safe_reply replyResultRefresh x \<Longrightarrow> safe (refreshReply h g x)"
  by (auto simp: refreshReply_def disconnect_refresh_def isConnRefreshCurrent_def safe_reply_def malformedReply_def
      intro!: safe_intro pres_intro safe_bind_tasks[OF safe_handlers(3)] split: sum.splits)

section \<open>The reader\<close>

lemma safe_runCallback: "safe_reply (cb_kind cb) x \<Longrightarrow> safe (runCallback cb x)"
  by (cases cb)
    (auto simp: runCallback_def reply_result_def safe_reply_def malformedReply_def
      intro!: safe_intro pres_intro sound_operationReply split: sum.splits option.splits)

lemma sound_server_pushes [safe_intro]:
  "safe (handleServerPublication h c p)"
  "safe (handleServerJoin h c i)"
  "safe (handleServerLeave h c i)"
  "safe (handleServerSub h c sp)"
  "safe (handleServerUnsub h c)"
  "safe (handleMessage m)"
  by (auto simp: handleServerPublication_def handleServerJoin_def handleServerLeave_def handleServerSub_def handleServerUnsub_def handleMessage_def intro!: safe_intro pres_intro)

lemma sound_handlePush [safe_intro]:
  "safe (handlePush t pu)"
  by (auto simp: handlePush_def push_tasks_def unknown_def split: option.split intro!: safe_intro pres_intro)

lemma sound_handlePing [pres_intro]:
  "pres sound (handlePing t)"
  by (auto simp: handlePing_def intro!: pres_intro)

lemma safe_handleReply [safe_intro]: "safe (handleReply t r)"
  unfolding safe_def
proof (intro allI impI)
  fix w assume w: "sound w"
  have "sound (after (popRequest (r_id r)) w)" using sound_popRequest w by (rule presD)
  moreover have "rq_result q = cb_kind (rq_cb q)" if "outcome (popRequest (r_id r)) w = Some q" for q
    using that w gm_get_mem[of "c_requests (w_cl w)" "r_id r" q]
    by (auto simp: popRequest_def sound_def safe_requests_def gm_pop_def split_beta split: option.splits)
  ultimately show "sound (after (handleReply t r) w) \<and> safe_tasks (outcome (handleReply t r) w)"
    by (auto simp: handleReply_def split_beta safe_reply_def split: option.split)
qed

lemma safe_handle [safe_intro]:
  "safe (handle t r)"
  "safe (waitServerPing pw t ch p)"
  by (auto simp: handle_def waitServerPing_def intro!: safe_intro pres_intro)

lemma safe_reader [safe_intro]: "safe (reader rd t ch)"
  by (cases rd) (auto simp: reader_def intro!: safe_intro pres_intro safe_bind_tasks[OF safe_handle(1)])

section \<open>The whole client\<close>

lemma safe_run_connect: "safe_task (TConnect t) \<Longrightarrow> safe (run_connect a h t)"
  by (cases t) (auto simp: run_connect_def safe_task_def
      intro!: safe_intro pres_intro safe_connectReply safe_connectOk safe_connectSubs split: sum.splits)

lemma safe_run_client: "safe_task (TClient t) \<Longrightarrow> safe (run_client a h t)"
  by (cases t) (auto simp: run_client_def intro!: safe_intro pres_intro safe_refreshReply)

lemma safe_run_call: "safe_task (TCall t) \<Longrightarrow> safe (run_call a t)"
  by (cases t) (auto simp: run_call_def intro!: safe_intro pres_intro safe_runCallback)

lemma safe_run_sub: "safe_task (TSub t) \<Longrightarrow> safe (run_sub a h t)"
  by (cases t) (auto simp: run_sub_def subscribeAgain_def intro!: safe_intro pres_intro safe_subRefreshReply)

lemma safe_run_task: "safe_task t \<Longrightarrow> safe (run_task a h t)"
  using safe_run_connect safe_run_client safe_run_call safe_run_sub
  by (cases t) (auto simp: run_task_def intro!: safe_intro pres_intro)

lemma sound_take_task:
  assumes "sound w"
  shows "sound (after (take_task i) w)
    \<and> (\<forall>h t ts. outcome (take_task i) w = Some (h, t, ts) \<longrightarrow> safe_task t \<and> safe_tasks ts)"
proof (cases "i < length (w_threads w) \<and> snd (w_threads w ! i) \<noteq> []")
  case True
  obtain h t ts where th: "w_threads w ! i = (h, t # ts)"
    using True by (cases "w_threads w ! i"; cases "snd (w_threads w ! i)") auto
  have mem: "(h, t # ts) \<in> set (w_threads w)" using th True nth_mem[of i "w_threads w"] by simp
  have safe: "safe_threads (w_threads w)" using assms by (simp add: sound_def)
  then have "safe_task x" if "x \<in> set (t # ts)" for x
    using that mem unfolding safe_threads_def by blast
  then have "safe_task t" "safe_tasks ts" by (simp_all add: list_all_iff)
  moreover have "safe_threads (take i (w_threads w) @ drop (Suc i) (w_threads w))"
    using safe set_take_subset[of i "w_threads w"] set_drop_subset[of "Suc i" "w_threads w"]
    unfolding safe_threads_def by fastforce
  ultimately show ?thesis
    using assms True th by (auto simp: take_task_def sound_def)
next
  case False
  then show ?thesis using assms by (auto simp: take_task_def split: prod.splits list.splits)
qed

lemma sound_put_tasks: "sound w \<Longrightarrow> safe_tasks ts \<Longrightarrow> sound (after (put_tasks h ts) w)"
  by (auto simp: put_tasks_def sound_def safe_threads_def list_all_iff)

lemma sound_thread_step: "pres sound (thread_step a i)"
proof (rule presI)
  fix w assume w: "sound w"
  let ?w = "after (take_task i) w"
  have w1: "sound ?w" using sound_take_task[OF w] by blast
  show "sound (after (thread_step a i) w)"
  proof (cases "outcome (take_task i) w")
    case None
    then show ?thesis using w1 by (simp add: thread_step_def split_beta)
  next
    case (Some ht)
    obtain h t ts where ht: "ht = (h, t, ts)" by (cases ht)
    then have t: "safe_task t" "safe_tasks ts" using sound_take_task[OF w, of i] Some by blast+
    then have "sound (after (run_task a h t) ?w)" "safe_tasks (outcome (run_task a h t) ?w @ ts)"
      using safe_run_task[OF t(1)] w1 by (auto simp: safe_def)
    then have "sound (after (put_tasks h (outcome (run_task a h t) ?w @ ts)) (after (run_task a h t) ?w))"
      by (rule sound_put_tasks)
    then show ?thesis using Some ht by (simp add: thread_step_def split_beta)
  qed
qed

lemma sound_fire_timer: "pres sound (fire_timer n)"
  by (auto simp: fire_timer_def timer_task_def intro!: pres_intro split: timer.split)

lemma sound_job_round: "safe_job j \<Longrightarrow> pres sound (job_round j)"
  by (cases j)
     (auto simp: job_round_def deliver_def deliver_server_pub_def intro!: pres_intro split: list.splits)

lemma job_round_rest: "safe_job j \<Longrightarrow> outcome (job_round j) w = Some j' \<Longrightarrow> safe_job j'"
  by (cases j) (auto simp: job_round_def split_beta split: list.splits if_splits)

lemma sound_dispatcher: "pres sound dispatcher_step"
proof (rule presI)
  fix w assume w: "sound w"
  have other: "sound (w'\<lparr>w_queue := dispatch_step (w_queue w')\<rparr>)" if "sound w'" for w'
    using that by (simp add: sound_def safe_queue_dispatch)
  show "sound (after dispatcher_step w)"
  proof (cases "q_disp (w_queue w)")
    case (Running nj)
    obtain n j where nj: "nj = (n, j)" by (cases nj)
    have j: "safe_job j" using w Running nj by (auto simp: sound_def safe_queue_def)
    let ?w = "after (job_round j) w"
    have w1: "sound ?w" using sound_job_round[OF j] w by (rule presD)
    have run: "sound (?w\<lparr>w_queue := (w_queue ?w)\<lparr>q_disp := Running (n, j')\<rparr>\<rparr>)" if "safe_job j'" for j'
      using w1 that by (simp add: sound_def safe_queue_def)
    show ?thesis
    proof (cases "outcome (job_round j) w")
      case None
      have "sound (?w\<lparr>w_queue := dispatch_step (w_queue ?w), w_ran := n # w_ran ?w\<rparr>)"
        using other[OF w1] by simp
      then show ?thesis using Running nj None by (simp add: dispatcher_step_def split_beta)
    next
      case (Some j')
      with run[of j'] job_round_rest[OF j Some] show ?thesis
        using Running nj by (simp add: dispatcher_step_def split_beta)
    qed
  qed (use other[OF w] in \<open>simp_all add: dispatcher_step_def\<close>)
qed

lemma sound_api: "pres sound (api_step h a)"
proof -
  have "pres sound (start_call h f)" if "\<And>k. safe_task (f k)" for f
    unfolding start_call_def
    by (intro pres_intro) (use that in \<open>auto simp: sound_def safe_threads_def\<close>)
  then show ?thesis
    by (cases a) (auto simp: api_step_def onClientEvent_def onSubEvent_def intro!: pres_intro)
qed

lemma sound_act: "pres sound (act x)"
  using sound_thread_step sound_fire_timer sound_dispatcher sound_api by (cases x) (simp_all add: act_def)

lemma sound_init: "client_init w \<Longrightarrow> sound w"
  by (auto simp: client_init_def initial_world_def newClient_def sound_def safe_threads_def
      safe_requests_def safe_queue_def new_queue_def Let_def)

interpretation nil_safe: safe_system client_init client_step sound
proof
  show "sound w" if "client_init w" for w using that by (rule sound_init)
  show "sound w'" if "reachable w" "sound w" "client_step w w'" for w w'
    using that(3,2) sound_act by (auto elim!: client_stepE dest: presD)
qed

section \<open>Property\<close>

text \<open>
  C6: whatever the server, the network and the application do, and in whatever order the client's
  goroutines run, no message is read through a nil pointer: no reachable state has panicked.
\<close>

theorem no_nil_dereference:
  assumes "reachable w"
  shows "\<not> w_panic w"
  using nil_safe.invariant[OF assms] by (simp add: sound_def)

theorem no_nil_dereference_witness: "\<not> w_panic demo_live"
  using no_nil_dereference[OF reachable_demo(3)] .


end
