(* ===== verification/Frames.thy ===== *)
theory Frames
  imports System
begin

text \<open>
  Which operations leave which part of the state alone: the connection (state, transport, attempt,
  session generation). Every invariant about the connection is then a matter of the few operations
  that do change it.
\<close>

section \<open>The connection\<close>

definition conn :: "world \<Rightarrow> cstate \<times> bool \<times> tr option \<times> nat \<times> int" where
  "conn w = (c_state (w_cl w), c_connected (w_cl w), c_transport (w_cl w), c_attempt (w_cl w),
     c_generation (w_cl w))"

lemma conn_frames [simp]:
  "conn (w\<lparr>w_heap := a\<rparr>) = conn w" "conn (w\<lparr>w_next_sid := n\<rparr>) = conn w"
  "conn (w\<lparr>w_next := n\<rparr>) = conn w" "conn (w\<lparr>w_timers := t\<rparr>) = conn w"
  "conn (w\<lparr>w_threads := th\<rparr>) = conn w" "conn (w\<lparr>w_queue := q\<rparr>) = conn w"
  "conn (w\<lparr>w_ran := r\<rparr>) = conn w" "conn (w\<lparr>w_chans := ch\<rparr>) = conn w"
  "conn (w\<lparr>w_wire := wi\<rparr>) = conn w" "conn (w\<lparr>w_closed_tr := ct\<rparr>) = conn w"
  "conn (w\<lparr>w_dials := d\<rparr>) = conn w" "conn (w\<lparr>w_results := rs\<rparr>) = conn w"
  "conn (w\<lparr>w_returns := rt\<rparr>) = conn w" "conn (w\<lparr>w_delivered := dl\<rparr>) = conn w"
  "conn (w\<lparr>w_ctx_done := cd\<rparr>) = conn w" "conn (w\<lparr>w_panic := p\<rparr>) = conn w"
  "conn (w\<lparr>w_lost := l\<rparr>) = conn w" "conn (w\<lparr>w_next_call := nc\<rparr>) = conn w"
  by (simp_all add: conn_def)

lemma conn_cl [simp]:
  "conn (w\<lparr>w_cl := c\<rparr>) = conn w \<longleftrightarrow> c_state c = c_state (w_cl w)
    \<and> c_connected c = c_connected (w_cl w) \<and> c_transport c = c_transport (w_cl w)
    \<and> c_attempt c = c_attempt (w_cl w) \<and> c_generation c = c_generation (w_cl w)"
  by (simp add: conn_def)

lemma keeps_operation [keeps_intro]:
  "(\<And>a. keeps f (m1 a)) \<Longrightarrow> (\<And>a b. keeps f (m2 a b)) \<Longrightarrow> (\<And>a b. keeps f (m3 a b))
    \<Longrightarrow> (\<And>a b. keeps f (m4 a b)) \<Longrightarrow> (\<And>a. keeps f (m5 a)) \<Longrightarrow> (\<And>a. keeps f (m6 a))
    \<Longrightarrow> keeps f (case oper of OpSend a \<Rightarrow> m1 a | OpRPC a b \<Rightarrow> m2 a b | OpPublish a b \<Rightarrow> m3 a b
        | OpHistory a b \<Rightarrow> m4 a b | OpPresence a \<Rightarrow> m5 a | OpPresenceStats a \<Rightarrow> m6 a)"
  by (cases oper) auto

lemma keeps_cstate [keeps_intro]:
  "keeps f m1 \<Longrightarrow> keeps f m2 \<Longrightarrow> keeps f m3 \<Longrightarrow> keeps f m4
    \<Longrightarrow> keeps f (case st of StateDisconnected \<Rightarrow> m1 | StateConnecting \<Rightarrow> m2 | StateConnected \<Rightarrow> m3
        | StateClosed \<Rightarrow> m4)"
  by (cases st) auto

lemma keeps_sstate [keeps_intro]:
  "keeps f m1 \<Longrightarrow> keeps f m2 \<Longrightarrow> keeps f m3
    \<Longrightarrow> keeps f (case st of SubStateUnsubscribed \<Rightarrow> m1 | SubStateSubscribing \<Rightarrow> m2 | SubStateSubscribed \<Rightarrow> m3)"
  by (cases st) auto

lemma conn_effects [keeps_intro]:
  "keeps conn fresh" "keeps conn (spawn ts)" "keeps conn panic" "keeps conn (add_result k r)"
  "keeps conn (return_to c e)" "keeps conn (close_chan ch)" "keeps conn (close_transport t)"
  "keeps conn (stop_timer n)" "keeps conn (mods s g)"
  by (simp_all add: keeps_def fresh_def spawn_def panic_def add_result_def return_to_def close_chan_def
      close_transport_def stop_timer_def mods_def split: option.split)

lemma conn_timers [keeps_intro]: "keeps conn (after_func d tm)" "keeps conn (push_job j)"
  by (auto simp: after_func_def push_job_def intro!: keeps_intro)

lemma conn_queue [keeps_intro]: "keeps conn (queueEvent j)" "keeps conn (runHandlerSync j)" "keeps conn (runHandlerAsync j)"
  by (auto simp: queueEvent_def runHandlerSync_def runHandlerAsync_def intro!: keeps_intro)

lemma conn_queue_if [keeps_intro]: "keeps conn (queue_if b j)" "keeps conn (runHandlerSyncReentrant h j)"
  by (auto simp: queue_if_def runHandlerSyncReentrant_def intro!: keeps_intro)

lemma conn_errors [keeps_intro]: "keeps conn (handleError h e)" "keeps conn (emitError s e)"
  by (auto simp: handleError_def emitError_def intro!: keeps_intro)

lemma keeps_ping [keeps_intro]:
  "keeps f m1 \<Longrightarrow> keeps f m2 \<Longrightarrow> keeps f m3
    \<Longrightarrow> keeps f (case p of PingSeen \<Rightarrow> m1 | PingTimeout \<Rightarrow> m2 | PingClosed \<Rightarrow> m3)"
  by (cases p) auto

section \<open>Requests\<close>

lemma conn_registry [keeps_intro]:
  "keeps conn (nextCmdID)"
  "keeps conn (addRequest i r cb)"
  "keeps conn (popRequest i)"
  by (auto simp: nextCmdID_def addRequest_def popRequest_def intro!: keeps_intro)

lemma conn_sendOn [keeps_intro]:
  "keeps conn (sendOn t cmd)"
  by (auto simp: sendOn_def intro!: keeps_intro)

lemma conn_send [keeps_intro]:
  "keeps conn (send cmd)"
  by (auto simp: send_def intro!: keeps_intro)

lemma conn_sendAsyncOn [keeps_intro]:
  "keeps conn (sendAsyncOn t cmd cb)"
  by (auto simp: sendAsyncOn_def intro!: keeps_intro)

lemma conn_sendAsync [keeps_intro]:
  "keeps conn (sendAsync cmd cb)"
  "keeps conn (popAndFail i e)"
  by (auto simp: sendAsync_def popAndFail_def intro!: keeps_intro)

lemma conn_await [keeps_intro]:
  "keeps conn (awaitReply i)"
  "keeps conn (awaitReplyOn b i ch)"
  "keeps conn (send_operation k oper cmd)"
  by (auto simp: awaitReply_def awaitReplyOn_def send_operation_def intro!: keeps_intro)

lemma conn_calls [keeps_intro]:
  "keeps conn (sendRPC k m d)"
  "keeps conn (sendPublish k ch d)"
  "keeps conn (sendHistory k ch opts)"
  "keeps conn (sendPresence k ch)"
  "keeps conn (sendPresenceStats k ch)"
  "keeps conn (send_message k d)"
  by (auto simp: sendRPC_def sendPublish_def sendHistory_def sendPresence_def sendPresenceStats_def send_message_def intro!: keeps_intro)

lemma conn_runOperation [keeps_intro]:
  "keeps conn (runOperation k oper e)"
  by (auto simp: runOperation_defs intro!: keeps_intro)

lemma conn_futures [keeps_intro]:
  "keeps conn (operationReply k oper r)"
  "keeps conn (nextFutureID)"
  "keeps conn (resolveConnectFutures e)"
  "keeps conn (futureTimeout i)"
  by (auto simp: operationReply_def nextFutureID_def resolveConnectFutures_def futureTimeout_def intro!: keeps_intro)

lemma conn_onConnect [keeps_intro]:
  "keeps conn (onConnect k oper)"
  "keeps conn (clientCall k oper)"
  by (auto simp: onConnect_def clientCall_def intro!: keeps_intro)

section \<open>Subscriptions\<close>

lemma conn_sub_calls [keeps_intro]:
  "keeps conn (NewSubscription ch cfg)"
  "keeps conn (SetTagsFilter s f)"
  "keeps conn (updateSubscriptionPushID s a b)"
  "keeps conn (resolveSubFutures s e)"
  "keeps conn (onSubscribe s k oper)"
  "keeps conn (runSubOperation s k oper e)"
  by (auto simp: NewSubscription_def SetTagsFilter_def updateSubscriptionPushID_def resolveSubFutures_def onSubscribe_def runSubOperation_def intro!: keeps_intro)

lemma conn_sub_moves [keeps_intro]:
  "keeps conn (subFutureTimeout s i)"
  "keeps conn (subCall s k oper)"
  "keeps conn (queueSubscribingLocked s c r)"
  "keeps conn (stop_sub_timers s)"
  "keeps conn (scheduleResubscribe s)"
  "keeps conn (arm_sub_refresh s ttl)"
  "keeps conn (unsubscribe_failed)"
  by (auto simp: subFutureTimeout_def subCall_def queueSubscribingLocked_def stop_sub_timers_def scheduleResubscribe_def arm_sub_refresh_def unsubscribe_failed_def intro!: keeps_intro)

lemma conn_sub_unsubscribed [keeps_intro]:
  "keeps conn (moveToUnsubscribedLocked s c r e)"
  "keeps conn (moveToSubscribingLocked s c r)"
  by (auto simp: moveToUnsubscribedLocked_def moveToSubscribingLocked_def intro!: keeps_intro)

lemma conn_sub_commands [keeps_intro]:
  "keeps conn (moveToUnsubscribed s c r)"
  "keeps conn (sendUnsubscribe ch)"
  "keeps conn (unsubscribeReply x)"
  "keeps conn (sendSubscribe params cb)"
  "keeps conn (sendSubRefresh ch tok cb)"
  by (auto simp: moveToUnsubscribed_def sendUnsubscribe_def unsubscribeReply_def sendSubscribe_def sendSubRefresh_def intro!: keeps_intro)

lemma conn_sendUnsubscribeLocked [keeps_intro]:
  "keeps conn (sendUnsubscribeLocked s)"
  "keeps conn (isRegistered s)"
  by (auto simp: sendUnsubscribeLocked_def isRegistered_def intro!: keeps_intro)

lemma conn_sub_api [keeps_intro]:
  "keeps conn (subscribeCall s k)"
  "keeps conn (subscribeRegistered s k)"
  "keeps conn (subscribeStart s k)"
  "keeps conn (subscribeConnected s k)"
  "keeps conn (unsubscribeCall s k)"
  "keeps conn (unsubscribe s c r b)"
  "keeps conn (removeCall s k)"
  "keeps conn (removeEntry s k)"
  by (auto simp: subscribeCall_def subscribeRegistered_def subscribeStart_def subscribeConnected_def unsubscribeCall_def unsubscribe_def removeCall_def removeEntry_def intro!: keeps_intro)

lemma conn_sub_flow1 [keeps_intro]:
  "keeps conn (resubscribe s)"
  "keeps conn (getState s)"
  "keeps conn (end_inflight s)"
  "keeps conn (lockCurrentAttempt s a)"
  by (auto simp: resubscribe_def getState_def end_inflight_def lockCurrentAttempt_def intro!: keeps_intro)

lemma conn_sub_flow2 [keeps_intro]:
  "keeps conn (gotState res s a i)"
  "keeps conn (lockCurrentSubscribe s a g)"
  "keeps conn (getStateFailed s a)"
  "keeps conn (continueResubscribe s b)"
  "keeps conn (gotSubToken tk s a i)"
  by (auto simp: gotState_def lockCurrentSubscribe_def getStateFailed_def continueResubscribe_def gotSubToken_def intro!: keeps_intro)

lemma conn_sub_flow3 [keeps_intro]:
  "keeps conn (sendSubscribeNow s a i tok)"
  "keeps conn (subscribeError s e a g)"
  "keeps conn (subscribeUnrecoverable s a g)"
  "keeps conn (subscribeErrorReported s e a g)"
  "keeps conn (deltaFailed h s off e)"
  "keeps conn (enterSubscribed h s res pubs ds)"
  by (auto simp: sendSubscribeNow_def subscribeError_def subscribeUnrecoverable_def subscribeErrorReported_def deltaFailed_def enterSubscribed_def intro!: keeps_intro)

lemma conn_sub_flow4 [keeps_intro]:
  "keeps conn (moveToSubscribed h s res g a)"
  "keeps conn (handlePublication h s p)"
  "keeps conn (handleJoin h s i)"
  "keeps conn (handleLeave h s i)"
  "keeps conn (deliver_sub_pub s n pe)"
  "keeps conn (invalidateState s)"
  "keeps conn (handleUnsubscribe s u)"
  by (auto simp: moveToSubscribed_def handlePublication_def handleJoin_def handleLeave_def deliver_sub_pub_def invalidateState_def handleUnsubscribe_def intro!: keeps_intro)

lemma conn_sub_refresh1 [keeps_intro]:
  "keeps conn (isRefreshCurrent s n i)"
  "keeps conn (unsubscribeIfRefreshCurrent s n i c r)"
  "keeps conn (subRefreshArm s n ttl)"
  by (auto simp: isRefreshCurrent_def unsubscribeIfRefreshCurrent_def subRefreshArm_def intro!: keeps_intro)

lemma conn_sub_refresh2 [keeps_intro]:
  "keeps conn (refresh s n)"
  "keeps conn (gotRefreshSubToken tk s n i)"
  "keeps conn (subRefreshSend s n i tok)"
  "keeps conn (subRefreshWrite s n i tok)"
  "keeps conn (subRefreshReply s n i r)"
  by (auto simp: refresh_def gotRefreshSubToken_def subRefreshSend_def subRefreshWrite_def subRefreshReply_def intro!: keeps_intro)

section \<open>The client\<close>

lemma conn_client1 [keeps_intro]:
  "keeps conn (isCurrentAttemptLocked n)"
  "keeps conn (isConnectedAttemptLocked n)"
  "keeps conn (subs_to_subscribing)"
  "keeps conn (scheduleReconnectLocked)"
  "keeps conn (setToken tok)"
  "keeps conn (handleTransportDisconnect t d)"
  "keeps conn (closeReport st chs k)"
  "keeps conn (closeWaitReader h k)"
  "keeps conn (closeQueue h b k)"
  "keeps conn (disconnectCall k)"
  by (auto simp: isCurrentAttemptLocked_def isConnectedAttemptLocked_def subs_to_subscribing_def scheduleReconnectLocked_def setToken_def handleTransportDisconnect_def closeReport_def closeWaitReader_def closeQueue_def disconnectCall_def Let_def intro!: keeps_intro)

lemma conn_client2 [keeps_intro]:
  "keeps conn (connectingReported n)"
  "keeps conn (invalidateConnectionState)"
  "keeps conn (refreshToken h a b)"
  "keeps conn (scheduleIfCurrent n k e)"
  "keeps conn (dial h eo n r k)"
  "keeps conn (sendConnect t cb)"
  "keeps conn (scheduleRefreshLocked d)"
  "keeps conn (isConnRefreshCurrent g)"
  by (auto simp: connectingReported_def invalidateConnectionState_def refreshToken_def scheduleIfCurrent_def dial_def sendConnect_def scheduleRefreshLocked_def isConnRefreshCurrent_def intro!: keeps_intro)

lemma conn_client3 [keeps_intro]:
  "keeps conn (connectToken h n r k)"
  "keeps conn (connectReply h n t tok ch x)"
  "keeps conn (connectSubs h n t ch res rest)"
  "keeps conn (connectDone n t ch res)"
  "keeps conn (deliver_server_pub c n p)"
  "keeps conn (sendRefresh h g)"
  "keeps conn (refreshSend g tok)"
  "keeps conn (handleRefreshError g)"
  by (auto simp: connectToken_def connectReply_def connectSubs_def connectDone_def deliver_server_pub_def sendRefresh_def refreshSend_def handleRefreshError_def intro!: keeps_intro)

lemma conn_queue_each [keeps_intro]: "keeps conn (queue_each es d)"
  by (induction es arbitrary: d) (auto intro!: keeps_intro)

lemma conn_client4 [keeps_intro]:
  "keeps conn (connectUnsubs h n t ch res)"
  "keeps conn (handleServerPublication h c p)"
  "keeps conn (handleServerJoin h c i)"
  "keeps conn (handleServerLeave h c i)"
  "keeps conn (handleServerSub h c sp)"
  "keeps conn (handleServerUnsub h c)"
  "keeps conn (handleMessage m)"
  "keeps conn (handlePush t pu)"
  "keeps conn (handlePing t)"
  "keeps conn (handleReply t r)"
  by (auto simp: connectUnsubs_def handleServerPublication_def handleServerJoin_def handleServerLeave_def handleServerSub_def handleServerUnsub_def handleMessage_def handlePush_def handlePing_def handleReply_def intro!: keeps_intro)

lemma conn_client5 [keeps_intro]:
  "keeps conn (handle t r)"
  "keeps conn (waitServerPing pw t ch p)"
  "keeps conn (fire_timer n)"
  "keeps conn (take_task i)"
  "keeps conn (put_tasks h ts)"
  "keeps conn (start_call h f)"
  "keeps conn (onClientEvent ev)"
  "keeps conn (onSubEvent s se)"
  "keeps conn (deliver e)"
  by (auto simp: handle_def waitServerPing_def fire_timer_def take_task_def put_tasks_def start_call_def onClientEvent_def onSubEvent_def deliver_def intro!: keeps_intro)

lemma conn_runCallback [keeps_intro]: "keeps conn (runCallback cb x)"
  by (cases cb) (auto simp: runCallback_def intro!: keeps_intro)

lemma conn_reader [keeps_intro]: "keeps conn (reader rd t ch)"
  by (cases rd) (auto simp: reader_def intro!: keeps_intro)

lemma conn_job_round [keeps_intro]: "keeps conn (job_round j)"
  by (cases j rule: job.exhaust) (auto simp: job_round_def split: list.split intro!: keeps_intro)

lemma conn_run_call [keeps_intro]: "keeps conn (run_call a t)"
  by (cases t) (auto simp: run_call_def intro!: keeps_intro)

lemma conn_run_sub [keeps_intro]: "keeps conn (run_sub a h t)"
  by (cases t) (auto simp: run_sub_def subscribeAgain_def intro!: keeps_intro)

lemma conn_api_step [keeps_intro]: "keeps conn (api_step h a)"
  by (cases a) (auto simp: api_step_def intro!: keeps_intro)

lemma conn_dispatcher_step [keeps_intro]: "keeps conn dispatcher_step"
  unfolding dispatcher_step_def
  by (rule keeps_bind, rule keeps_gets)
     (auto split: dispatcher.split prod.split intro!: keeps_intro)

end
