(* ===== verification/Tokens.thy ===== *)
theory Tokens
  imports NoPanic Frames
begin

text \<open>
  Nothing gets lost: a call of the application is, at any time, either answered or waiting in
  exactly one place, and a subscribe in flight is carried by exactly one goroutine or pending
  request.

  Both are the conservation of a token. \<open>token_count x w\<close> adds up where the token \<open>x\<close> may be: in the
  tasks of the goroutines, the request registry, the futures, the answers given, and (before a call
  is made, or while no subscribe is in flight) its initial place. Every operation of the client
  moves tokens and neither makes nor loses one.
\<close>

section \<open>Tokens\<close>

datatype token = Carrier sid | CallOf call

definition tok_call :: "token \<Rightarrow> call \<Rightarrow> int" where
  "tok_call x k = of_bool (x = CallOf k)"

definition tok_sub :: "token \<Rightarrow> sid \<Rightarrow> int" where
  "tok_sub x s = of_bool (x = Carrier s)"

definition tok_caller :: "token \<Rightarrow> caller \<Rightarrow> int" where
  "tok_caller x k = (case k of None \<Rightarrow> 0 | Some c \<Rightarrow> tok_call x c)"

definition tok_cb :: "token \<Rightarrow> callback \<Rightarrow> int" where
  "tok_cb x cb = (case cb of
     CbSubscribe s g a \<Rightarrow> tok_sub x s
   | CbCall k oper \<Rightarrow> tok_call x k
   | _ \<Rightarrow> 0)"

definition tok_connect :: "token \<Rightarrow> connect_task \<Rightarrow> int" where
  "tok_connect x t = (case t of
     StartConnecting k \<Rightarrow> tok_caller x k | StartReconnectingIf e k \<Rightarrow> tok_caller x k
   | ConnectToken n r k \<Rightarrow> tok_caller x k | GotConnectToken n r k tk \<Rightarrow> tok_caller x k
   | CallGetToken n r k \<Rightarrow> tok_caller x k | Dial n r k \<Rightarrow> tok_caller x k
   | ScheduleIfCurrent n k e \<Rightarrow> tok_caller x k | Dialed n tr k \<Rightarrow> tok_caller x k
   | _ \<Rightarrow> 0)"

definition tok_client :: "token \<Rightarrow> client_task \<Rightarrow> int" where
  "tok_client x t = (case t of
     ReturnErr k e \<Rightarrow> tok_caller x k | DisconnectCall k \<Rightarrow> tok_call x k | CloseCall k \<Rightarrow> tok_call x k
   | CloseReport st chs k \<Rightarrow> tok_call x k | CloseWaitReader k \<Rightarrow> tok_call x k
   | CloseQueue b k \<Rightarrow> tok_call x k
   | _ \<Rightarrow> 0)"

definition tok_calltask :: "token \<Rightarrow> call_task \<Rightarrow> int" where
  "tok_calltask x t = (case t of
     RunCallback cb r \<Rightarrow> tok_cb x cb | ClientCall k oper \<Rightarrow> tok_call x k
   | OnConnect k oper \<Rightarrow> tok_call x k | RunOperation k oper e \<Rightarrow> tok_call x k
   | SubCall s k oper \<Rightarrow> tok_call x k | OnSubscribe s k oper \<Rightarrow> tok_call x k
   | RunSubOperation s k oper e \<Rightarrow> tok_call x k
   | _ \<Rightarrow> 0)"

definition tok_subtask :: "token \<Rightarrow> sub_task \<Rightarrow> int" where
  "tok_subtask x t = (case t of
     SubscribeCall s k \<Rightarrow> tok_call x k | SubscribeRegistered s k \<Rightarrow> tok_call x k
   | SubscribeStart s k \<Rightarrow> tok_call x k | SubscribeConnected s k \<Rightarrow> tok_call x k
   | UnsubscribeCall s k \<Rightarrow> tok_call x k | Unsubscribe s k \<Rightarrow> tok_call x k
   | RemoveCall s k \<Rightarrow> tok_call x k | RemoveEntry s k \<Rightarrow> tok_call x k
   | GetState s \<Rightarrow> tok_sub x s | CallGetState s n i \<Rightarrow> tok_sub x s
   | ContinueResubscribe s b \<Rightarrow> tok_sub x s | CallGetSubToken s n i \<Rightarrow> tok_sub x s
   | SendSubscribe s n i tok \<Rightarrow> tok_sub x s
   | _ \<Rightarrow> 0)"

definition tok_task :: "token \<Rightarrow> task \<Rightarrow> int" where
  "tok_task x t = (case t of
     TConnect t \<Rightarrow> tok_connect x t | TClient t \<Rightarrow> tok_client x t
   | TCall t \<Rightarrow> tok_calltask x t | TSub t \<Rightarrow> tok_subtask x t
   | _ \<Rightarrow> 0)"

definition toks :: "token \<Rightarrow> task list \<Rightarrow> int" where
  "toks x ts = sum_list (map (tok_task x) ts)"

definition in_threads :: "token \<Rightarrow> (bool \<times> task list) list \<Rightarrow> int" where
  "in_threads x ths = sum_list (map (\<lambda>th. toks x (snd th)) ths)"

definition in_requests :: "token \<Rightarrow> (u32, request) gomap \<Rightarrow> int" where
  "in_requests x reqs = sum_list (map (\<lambda>e. tok_cb x (rq_cb (snd e))) reqs)"

definition in_futures :: "token \<Rightarrow> (nat, call \<times> operation) gomap \<Rightarrow> int" where
  "in_futures x futs = sum_list (map (\<lambda>e. tok_call x (fst (snd e))) futs)"

definition in_subs :: "token \<Rightarrow> (sid, sub) gomap \<Rightarrow> int" where
  "in_subs x heap = sum_list (map (\<lambda>e. in_futures x (s_futures (snd e))) heap)"

definition in_answers :: "token \<Rightarrow> (call \<times> 'a) list \<Rightarrow> int" where
  "in_answers x rs = sum_list (map (\<lambda>r. tok_call x (fst r)) rs)"

definition in_lost :: "token \<Rightarrow> callback list \<Rightarrow> int" where
  "in_lost x cbs = sum_list (map (tok_cb x) cbs)"

text \<open>The initial place of a token.\<close>

definition at_rest :: "token \<Rightarrow> world \<Rightarrow> int" where
  "at_rest x w = (case x of
     Carrier s \<Rightarrow> of_bool (\<not> s_inflight (sub_at w s))
   | CallOf k \<Rightarrow> of_bool (w_next_call w \<le> k))"

definition token_count :: "token \<Rightarrow> world \<Rightarrow> int" where
  "token_count x w = in_threads x (w_threads w) + in_requests x (c_requests (w_cl w))
     + in_lost x (w_lost w) + in_futures x (c_futures (w_cl w)) + in_subs x (w_heap w)
     + in_answers x (w_results w) + in_answers x (w_returns w) + at_rest x w"

text \<open>The registries are maps, and the ids of futures are fresh.\<close>

definition futures_ok :: "nat \<Rightarrow> (nat, call \<times> operation) gomap \<Rightarrow> bool" where
  "futures_ok n futs \<longleftrightarrow> gm_ok futs \<and> (\<forall>i \<in> set (gm_keys futs). i \<le> n)"

definition tidy :: "world \<Rightarrow> bool" where
  "tidy w \<longleftrightarrow> gm_ok (c_requests (w_cl w)) \<and> futures_ok (c_future_id (w_cl w)) (c_futures (w_cl w))
     \<and> (\<forall>s. futures_ok (s_future_id (sub_at w s)) (s_futures (sub_at w s)))"

lemma toks_simps [simp]:
  "toks x [] = 0" "toks x (t # ts) = tok_task x t + toks x ts" "toks x (ts @ us) = toks x ts + toks x us"
  by (simp_all add: toks_def)

lemma tok_task_simps [simp]:
  "tok_task x (WaitEvent n) = 0" "tok_task x (WaitChan n) = 0" "tok_task x WaitQueueClosed = 0"
  "tok_task x (TConnect ct) = tok_connect x ct" "tok_task x (TClient clt) = tok_client x clt"
  "tok_task x (TCall cat) = tok_calltask x cat" "tok_task x (TSub st) = tok_subtask x st"
  by (simp_all add: tok_task_def)

lemmas tok_defs [simp] = tok_connect_def tok_client_def tok_calltask_def tok_subtask_def

lemma tok_caller_simps [simp]: "tok_caller x None = 0" "tok_caller x (Some k) = tok_call x k"
  by (simp_all add: tok_caller_def)

lemma tok_cb_simps [simp]:
  "tok_cb x (CbConnect n t tok ch) = 0" "tok_cb x (CbSubscribe s g a) = tok_sub x s"
  "tok_cb x (CbRefresh g) = 0" "tok_cb x (CbSubRefresh s n m) = 0" "tok_cb x CbUnsubscribe = 0"
  "tok_cb x (CbCall k oper) = tok_call x k"
  by (simp_all add: tok_cb_def)

lemma toks_waitEvent [simp]: "toks x (waitEvent h d) = 0"
  by (simp add: waitEvent_def split: option.split)

lemma toks_map_zero: "(\<And>y. tok_task x (f y) = 0) \<Longrightarrow> toks x (map f ys) = 0"
  by (induction ys) auto

section \<open>Sums over maps\<close>

lemma sum_gm_put:
  fixes f :: "'v \<Rightarrow> int"
  shows "sum_list (map (\<lambda>e. f (snd e)) (gm_put k v m)) =
     sum_list (map (\<lambda>e. f (snd e)) m) + f v - (case gm_get m k of None \<Rightarrow> 0 | Some u \<Rightarrow> f u)"
  by (induction m) (auto simp: gm_put_def gm_get_def)

lemma sum_gm_del:
  fixes f :: "'v \<Rightarrow> int"
  shows "gm_ok m \<Longrightarrow> sum_list (map (\<lambda>e. f (snd e)) (gm_del k m)) =
     sum_list (map (\<lambda>e. f (snd e)) m) - (case gm_get m k of None \<Rightarrow> 0 | Some u \<Rightarrow> f u)"
proof (induction m)
  case (Cons e m)
  obtain a b where e: "e = (a, b)" by (cases e)
  have ok: "gm_ok m" "a \<notin> fst ` set m" using Cons.prems by (simp_all add: gm_ok_def e)
  show ?case
  proof (cases "a = k")
    case True
    then have "gm_get m k = None" using ok by (simp add: gm_get_def map_of_eq_None_iff)
    then have "sum_list (map (\<lambda>e. f (snd e)) (gm_del k m)) = sum_list (map (\<lambda>e. f (snd e)) m)"
      using Cons.IH[OF ok(1)] by simp
    then show ?thesis using True by (simp add: e gm_del_def gm_get_def)
  next
    case False
    then show ?thesis using Cons.IH[OF ok(1)] by (simp add: e gm_del_def gm_get_def)
  qed
qed (simp add: gm_del_def gm_get_def)

lemma gm_ok_put [simp]: "gm_ok m \<Longrightarrow> gm_ok (gm_put k v m)" by (rule gm.ok_put)
lemma gm_ok_del [simp]: "gm_ok m \<Longrightarrow> gm_ok (gm_del k m)" by (rule gm.ok_del)

lemma gm_ok_nil [simp]: "gm_ok []" by (simp add: gm_ok_def)

lemma gm_keys_put: "set (gm_keys (gm_put k v m)) = insert k (set (gm_keys m))"
  by (auto simp: gm_keys_get set_eq_iff)

lemma gm_keys_del: "set (gm_keys (gm_del k m)) = set (gm_keys m) - {k}"
  by (auto simp: gm_keys_get set_eq_iff)

section \<open>Conservation\<close>

text \<open>
  \<open>moves x m F\<close>: \<open>m\<close> changes the count of \<open>x\<close> by \<open>F v\<close> when it returns \<open>v\<close>. \<open>still x m\<close>: it does not
  change it. \<open>hands x m c\<close>: with the \<open>c\<close> tokens of the task that runs \<open>m\<close> and those of the tasks it
  returns, nothing is made or lost.
\<close>

definition moves :: "token \<Rightarrow> 'a op \<Rightarrow> ('a \<Rightarrow> int) \<Rightarrow> bool" where
  "moves x m F \<longleftrightarrow> (\<forall>w. tidy w \<longrightarrow> tidy (after m w) \<and> token_count x (after m w) = token_count x w + F (outcome m w))"

abbreviation still :: "token \<Rightarrow> 'a op \<Rightarrow> bool" where
  "still x m \<equiv> moves x m (\<lambda>_. 0)"

abbreviation hands :: "token \<Rightarrow> task list op \<Rightarrow> int \<Rightarrow> bool" where
  "hands x m c \<equiv> moves x m (\<lambda>ts. c - toks x ts)"

named_theorems moves_intro \<open>rules for moving tokens\<close>

lemma moves_return [moves_intro]: "F v = 0 \<Longrightarrow> moves x (ret v) F"
  by (simp add: moves_def)

lemma moves_weaken: "moves x m G \<Longrightarrow> (\<And>v. F v = G v) \<Longrightarrow> moves x m F"
  by (simp add: moves_def)

lemma moves_bind_gen:
  assumes "moves x m G" "\<And>v. moves x (k v) (\<lambda>u. F u - G v)"
  shows "moves x (State_Monad.bind m k) F"
  unfolding moves_def after_bind outcome_bind
proof (intro allI impI)
  fix w assume w: "tidy w"
  have 1: "tidy (after m w)" "token_count x (after m w) = token_count x w + G (outcome m w)"
    using assms(1) w by (auto simp: moves_def)
  show "tidy (after (k (outcome m w)) (after m w)) \<and>
      token_count x (after (k (outcome m w)) (after m w)) = token_count x w + F (outcome (k (outcome m w)) (after m w))"
    using assms(2)[of "outcome m w"] 1 by (simp add: moves_def)
qed

lemma moves_bind [moves_intro]:
  "still x m \<Longrightarrow> (\<And>v. moves x (k v) F) \<Longrightarrow> moves x (State_Monad.bind m k) F"
  by (rule moves_bind_gen[where G = "\<lambda>_. 0"]) simp_all

lemma moves_gets [moves_intro]: "still x (gets f)"
  by (simp add: moves_def)

lemma moves_if [moves_intro]:
  "(b \<Longrightarrow> moves x m F) \<Longrightarrow> (\<not> b \<Longrightarrow> moves x n F) \<Longrightarrow> moves x (if b then m else n) F"
  by simp

lemma moves_when [moves_intro]: "(b \<Longrightarrow> still x m) \<Longrightarrow> still x (when_do b m)"
  by (simp add: moves_def)

lemma moves_option [moves_intro]:
  "(y = None \<Longrightarrow> moves x m F) \<Longrightarrow> (\<And>z. y = Some z \<Longrightarrow> moves x (n z) F)
    \<Longrightarrow> moves x (case y of None \<Rightarrow> m | Some z \<Rightarrow> n z) F"
  by (cases y) auto

lemma moves_sum [moves_intro]:
  "(\<And>z. y = Inl z \<Longrightarrow> moves x (m z) F) \<Longrightarrow> (\<And>z. y = Inr z \<Longrightarrow> moves x (n z) F)
    \<Longrightarrow> moves x (case y of Inl z \<Rightarrow> m z | Inr z \<Rightarrow> n z) F"
  by (cases y) auto

lemma moves_prod [moves_intro]:
  "(\<And>a b. y = (a, b) \<Longrightarrow> moves x (m a b) F) \<Longrightarrow> moves x (case y of (a, b) \<Rightarrow> m a b) F"
  by (cases y) auto

lemma moves_cstate [moves_intro]:
  "moves x a F \<Longrightarrow> moves x b F \<Longrightarrow> moves x c F \<Longrightarrow> moves x d F
    \<Longrightarrow> moves x (case st of StateDisconnected \<Rightarrow> a | StateConnecting \<Rightarrow> b | StateConnected \<Rightarrow> c | StateClosed \<Rightarrow> d) F"
  by (cases st) simp_all

lemma moves_ping [moves_intro]:
  "moves x a F \<Longrightarrow> moves x b F \<Longrightarrow> moves x c F
    \<Longrightarrow> moves x (case p of PingSeen \<Rightarrow> a | PingTimeout \<Rightarrow> b | PingClosed \<Rightarrow> c) F"
  by (cases p) simp_all

lemma moves_operation [moves_intro]:
  "(\<And>a. moves x (m1 a) F) \<Longrightarrow> (\<And>a b. moves x (m2 a b) F) \<Longrightarrow> (\<And>a b. moves x (m3 a b) F)
    \<Longrightarrow> (\<And>a b. moves x (m4 a b) F) \<Longrightarrow> (\<And>a. moves x (m5 a) F) \<Longrightarrow> (\<And>a. moves x (m6 a) F)
    \<Longrightarrow> moves x (case oper of OpSend a \<Rightarrow> m1 a | OpRPC a b \<Rightarrow> m2 a b | OpPublish a b \<Rightarrow> m3 a b
        | OpHistory a b \<Rightarrow> m4 a b | OpPresence a \<Rightarrow> m5 a | OpPresenceStats a \<Rightarrow> m6 a) F"
  by (cases oper) auto

lemma still_for_each [moves_intro]: "(\<And>y. still x (f y)) \<Longrightarrow> still x (for_each f ys)"
  by (induction ys) (auto intro!: moves_intro)

section \<open>The primitives\<close>

lemma count_frames [simp]:
  "token_count x (w\<lparr>w_next_sid := n\<rparr>) = token_count x w" "token_count x (w\<lparr>w_next := n\<rparr>) = token_count x w"
  "token_count x (w\<lparr>w_timers := t\<rparr>) = token_count x w" "token_count x (w\<lparr>w_queue := q\<rparr>) = token_count x w"
  "token_count x (w\<lparr>w_ran := r\<rparr>) = token_count x w" "token_count x (w\<lparr>w_chans := ch\<rparr>) = token_count x w"
  "token_count x (w\<lparr>w_wire := wi\<rparr>) = token_count x w" "token_count x (w\<lparr>w_closed_tr := ct\<rparr>) = token_count x w"
  "token_count x (w\<lparr>w_dials := d\<rparr>) = token_count x w" "token_count x (w\<lparr>w_delivered := dl\<rparr>) = token_count x w"
  "token_count x (w\<lparr>w_ctx_done := cd\<rparr>) = token_count x w" "token_count x (w\<lparr>w_panic := p\<rparr>) = token_count x w"
  by (simp_all add: token_count_def at_rest_def sub_at_def split: token.split)

lemma tidy_frames [simp]:
  "tidy (w\<lparr>w_next_sid := n\<rparr>) = tidy w" "tidy (w\<lparr>w_next := n\<rparr>) = tidy w"
  "tidy (w\<lparr>w_timers := t\<rparr>) = tidy w" "tidy (w\<lparr>w_queue := q\<rparr>) = tidy w"
  "tidy (w\<lparr>w_ran := r\<rparr>) = tidy w" "tidy (w\<lparr>w_chans := ch\<rparr>) = tidy w"
  "tidy (w\<lparr>w_wire := wi\<rparr>) = tidy w" "tidy (w\<lparr>w_closed_tr := ct\<rparr>) = tidy w"
  "tidy (w\<lparr>w_dials := d\<rparr>) = tidy w" "tidy (w\<lparr>w_delivered := dl\<rparr>) = tidy w"
  "tidy (w\<lparr>w_ctx_done := cd\<rparr>) = tidy w" "tidy (w\<lparr>w_panic := p\<rparr>) = tidy w"
  "tidy (w\<lparr>w_threads := th\<rparr>) = tidy w" "tidy (w\<lparr>w_lost := l\<rparr>) = tidy w"
  "tidy (w\<lparr>w_results := rs\<rparr>) = tidy w" "tidy (w\<lparr>w_returns := rt\<rparr>) = tidy w"
  "tidy (w\<lparr>w_next_call := nc\<rparr>) = tidy w"
  by (simp_all add: tidy_def sub_at_def)

lemma still_modify [moves_intro]:
  "(\<And>w. token_count x (g w) = token_count x w) \<Longrightarrow> (\<And>w. tidy w \<Longrightarrow> tidy (g w)) \<Longrightarrow> still x (modify g)"
  by (simp add: moves_def)

lemma still_modc [moves_intro]:
  "(\<And>c. c_requests (g c) = c_requests c) \<Longrightarrow> (\<And>c. c_futures (g c) = c_futures c)
    \<Longrightarrow> (\<And>c. c_future_id (g c) = c_future_id c) \<Longrightarrow> still x (modc g)"
  by (auto simp: moves_def modc_def token_count_def at_rest_def tidy_def split: token.split)

lemma in_subs_put:
  "in_subs x (gm_put s y (w_heap w)) = in_subs x (w_heap w) + in_futures x (s_futures y)
     - in_futures x (s_futures (sub_at w s))"
proof -
  have "in_futures x (s_futures no_sub) = 0" by (simp add: no_sub_def in_futures_def)
  then show ?thesis
    unfolding in_subs_def sum_gm_put[where f = "\<lambda>y. in_futures x (s_futures y)"]
    by (simp add: sub_at_def split: option.split)
qed

lemma still_mods [moves_intro]:
  "(\<And>y. s_futures (g y) = s_futures y) \<Longrightarrow> (\<And>y. s_future_id (g y) = s_future_id y)
    \<Longrightarrow> (\<And>y. s_inflight (g y) = s_inflight y) \<Longrightarrow> still x (mods s g)"
  by (auto simp: moves_def mods_def token_count_def at_rest_def tidy_def in_subs_put split: token.split)

lemma moves_spawn_bind [moves_intro]:
  "(\<And>v. moves x (k v) (\<lambda>u. F u - toks x ts)) \<Longrightarrow> moves x (State_Monad.bind (spawn ts) k) F"
  by (rule moves_bind_gen[where G = "\<lambda>_. toks x ts"])
     (auto simp: moves_def spawn_def token_count_def in_threads_def at_rest_def sub_at_def split: token.split)

lemma moves_spawn [moves_intro]: "F () = toks x ts \<Longrightarrow> moves x (spawn ts) F"
  by (auto simp: moves_def spawn_def token_count_def in_threads_def at_rest_def sub_at_def split: token.split)

lemma moves_add_result [moves_intro]: "F () = tok_call x k \<Longrightarrow> moves x (add_result k r) F"
  by (auto simp: moves_def add_result_def token_count_def in_answers_def at_rest_def sub_at_def split: token.split)

lemma moves_return_to [moves_intro]: "F () = tok_caller x k \<Longrightarrow> moves x (return_to k e) F"
  by (auto simp: moves_def return_to_def token_count_def in_answers_def at_rest_def sub_at_def
      split: token.split option.split)

lemma moves_add_result_bind [moves_intro]:
  "(\<And>v. moves x (m v) (\<lambda>u. F u - tok_call x k)) \<Longrightarrow> moves x (State_Monad.bind (add_result k r) m) F"
  by (rule moves_bind_gen[where G = "\<lambda>_. tok_call x k"]) (auto intro!: moves_intro)

lemma moves_return_to_bind [moves_intro]:
  "(\<And>v. moves x (m v) (\<lambda>u. F u - tok_caller x k)) \<Longrightarrow> moves x (State_Monad.bind (return_to k e) m) F"
  by (rule moves_bind_gen[where G = "\<lambda>_. tok_caller x k"]) (auto intro!: moves_intro)

lemma still_effects [moves_intro]:
  "still x fresh" "still x panic" "still x (close_chan ch)" "still x (close_transport t)" "still x (stop_timer n)"
  by (simp_all add: moves_def fresh_def panic_def close_chan_def close_transport_def stop_timer_def split: option.split)

lemma still_jobs [moves_intro]: "still x (after_func d tm)" "still x (push_job j)"
  by (auto simp: after_func_def push_job_def intro!: moves_intro)

lemma still_queueEvent [moves_intro]: "still x (queueEvent j)" "still x (runHandlerAsync j)"
  by (auto simp: queueEvent_def runHandlerAsync_def intro!: moves_intro)

lemma still_queue_if [moves_intro]: "still x (queue_if b j)"
  by (auto simp: queue_if_def intro!: moves_intro)

lemma hands_handlers [moves_intro]:
  "moves x (runHandlerSync j) (\<lambda>ts. - toks x ts)" "moves x (runHandlerSyncReentrant h j) (\<lambda>ts. - toks x ts)"
  "moves x (handleError h e) (\<lambda>ts. - toks x ts)" "moves x (emitError s e) (\<lambda>ts. - toks x ts)"
  by (auto simp: runHandlerSync_def runHandlerSyncReentrant_def handleError_def emitError_def intro!: moves_intro)

lemma moves_after_error [moves_intro]:
  "(\<And>ts. moves x (k ts) (\<lambda>u. F u + toks x ts)) \<Longrightarrow> moves x (State_Monad.bind (handleError h e) k) F"
  by (rule moves_bind_gen[OF hands_handlers(3)]) simp

section \<open>Requests and futures\<close>

lemma tok_nextCmdID [moves_intro]:
  "still x (nextCmdID)"
  "still x (sendOn t cmd)"
  "still x (send cmd)"
  by (auto simp: nextCmdID_def sendOn_def send_def intro!: moves_intro)

lemma moves_addRequest [moves_intro]:
  "F () = tok_cb x cb \<Longrightarrow> moves x (addRequest i r cb) F"
  by (auto simp: moves_def addRequest_def modc_def token_count_def in_requests_def in_lost_def tidy_def
      at_rest_def sub_at_def sum_gm_put[where f = "\<lambda>q. tok_cb x (rq_cb q)"]
      split: option.split token.split)

lemma moves_popRequest:
  "moves x (popRequest i) (\<lambda>r. case r of None \<Rightarrow> 0 | Some q \<Rightarrow> - tok_cb x (rq_cb q))"
  by (auto simp: moves_def popRequest_def modc_def token_count_def in_requests_def tidy_def gm_pop_def
      at_rest_def sub_at_def sum_gm_del[where f = "\<lambda>q. tok_cb x (rq_cb q)"]
      split: option.splits token.split)

lemma moves_popRequest_bind [moves_intro]:
  "moves x (k None) F \<Longrightarrow> (\<And>q. moves x (k (Some q)) (\<lambda>u. F u + tok_cb x (rq_cb q)))
    \<Longrightarrow> moves x (State_Monad.bind (popRequest i) k) F"
  by (rule moves_bind_gen[OF moves_popRequest]) (auto split: option.split)

lemma send_keeps_requests: "keeps (\<lambda>w. c_requests (w_cl w)) (sendOn t cmd)" "keeps (\<lambda>w. c_requests (w_cl w)) (send cmd)"
  by (auto simp: sendOn_def send_def spawn_def intro!: keeps_intro)

text \<open>A request that could not be sent is taken back; otherwise it holds the token.\<close>

lemma moves_sendAsyncOn:
  "moves x (sendAsyncOn t cmd cb) (\<lambda>r. case r of None \<Rightarrow> tok_cb x cb | Some e \<Rightarrow> 0)"
  unfolding moves_def
proof (intro allI impI)
  fix w assume w: "tidy w"
  let ?q = "\<lparr>rq_cb = cb, rq_result = replyResultOf cmd\<rparr>"
  let ?w1 = "after (addRequest (cmd_id cmd) (replyResultOf cmd) cb) w"
  let ?snd = "case t of Some t \<Rightarrow> sendOn t cmd | None \<Rightarrow> send cmd"
  let ?w2 = "after ?snd ?w1"
  have 1: "tidy ?w1" "token_count x ?w1 = token_count x w + tok_cb x cb"
    using moves_addRequest[of "\<lambda>_. tok_cb x cb" x cb] w by (auto simp: moves_def)
  have "still x ?snd" by (auto intro!: moves_intro)
  then have 2: "tidy ?w2" "token_count x ?w2 = token_count x w + tok_cb x cb"
    using 1 by (auto simp: moves_def)
  have "c_requests (w_cl ?w2) = c_requests (w_cl ?w1)"
    by (rule keepsD) (auto split: option.split intro: send_keeps_requests)
  then have got: "gm_get (c_requests (w_cl ?w2)) (cmd_id cmd) = Some ?q"
    by (simp add: addRequest_def modc_def split: option.split)
  have run: "run_state (sendAsyncOn t cmd cb) w = run_state (case outcome ?snd ?w1 of
      Some e \<Rightarrow> do { r \<leftarrow> popRequest (cmd_id cmd); (case r of None \<Rightarrow> ret None | Some _ \<Rightarrow> ret (Some e)) }
    | None \<Rightarrow> do { spawn [TCall (AwaitReply (cmd_id cmd))]; ret None }) ?w2"
    by (simp add: sendAsyncOn_def split_beta)
  show "tidy (after (sendAsyncOn t cmd cb) w) \<and> token_count x (after (sendAsyncOn t cmd cb) w)
      = token_count x w + (case outcome (sendAsyncOn t cmd cb) w of None \<Rightarrow> tok_cb x cb | Some e \<Rightarrow> 0)"
  proof (cases "outcome ?snd ?w1")
    case None
    have "still x (spawn [TCall (AwaitReply (cmd_id cmd))])" by (auto intro!: moves_intro)
    then show ?thesis using 2 None by (simp add: run moves_def split_beta)
  next
    case (Some e)
    have "outcome (popRequest (cmd_id cmd)) ?w2 = Some ?q"
      using got by (simp add: popRequest_def gm_pop_def split_beta)
    moreover have "tidy (after (popRequest (cmd_id cmd)) ?w2)"
        "token_count x (after (popRequest (cmd_id cmd)) ?w2) = token_count x ?w2
          + (case outcome (popRequest (cmd_id cmd)) ?w2 of None \<Rightarrow> 0 | Some q \<Rightarrow> - tok_cb x (rq_cb q))"
      using moves_popRequest[of x "cmd_id cmd"] 2(1) by (auto simp: moves_def)
    ultimately show ?thesis using 2 Some by (simp add: run split_beta)
  qed
qed

lemma moves_sendAsync_bind [moves_intro]:
  "moves x (k None) (\<lambda>u. F u - tok_cb x cb) \<Longrightarrow> (\<And>e. moves x (k (Some e)) F)
    \<Longrightarrow> moves x (State_Monad.bind (sendAsyncOn t cmd cb) k) F"
  "moves x (k None) (\<lambda>u. F u - tok_cb x cb) \<Longrightarrow> (\<And>e. moves x (k (Some e)) F)
    \<Longrightarrow> moves x (State_Monad.bind (sendAsync cmd cb) k) F"
  unfolding sendAsync_def
  by (rule moves_bind_gen[OF moves_sendAsyncOn]; auto split: option.split)+

lemma tok_popAndFail [moves_intro]:
  "moves x (popAndFail i e) (\<lambda>ts. - toks x ts)"
  by (auto simp: popAndFail_def intro!: moves_intro)

lemma tok_await [moves_intro]:
  "moves x (awaitReply i) (\<lambda>ts. - toks x ts)"
  "moves x (awaitReplyOn b i ch) (\<lambda>ts. - toks x ts)"
  by (auto simp: awaitReply_def awaitReplyOn_def intro!: moves_intro)

lemma moves_send_operation [moves_intro]:
  "F () = tok_call x k \<Longrightarrow> moves x (send_operation k oper cmd) F"
  by (auto simp: send_operation_def intro!: moves_intro)

lemma moves_calls [moves_intro]:
  "F () = tok_call x k \<Longrightarrow> moves x (sendRPC k m d) F" "F () = tok_call x k \<Longrightarrow> moves x (sendPublish k ch d) F"
  "F () = tok_call x k \<Longrightarrow> moves x (sendHistory k ch opts) F" "F () = tok_call x k \<Longrightarrow> moves x (sendPresence k ch) F"
  "F () = tok_call x k \<Longrightarrow> moves x (sendPresenceStats k ch) F" "F () = tok_call x k \<Longrightarrow> moves x (send_message k d) F"
  by (auto simp: sendRPC_def sendPublish_def sendHistory_def sendPresence_def sendPresenceStats_def
      send_message_def intro!: moves_intro)

lemma moves_runOperation [moves_intro]: "F () = tok_call x k \<Longrightarrow> moves x (runOperation k oper e) F"
  by (auto simp: runOperation_defs intro!: moves_intro)

lemma moves_runOperation_bind [moves_intro]:
  "(\<And>v. moves x (m v) (\<lambda>u. F u - tok_call x k)) \<Longrightarrow> moves x (State_Monad.bind (runOperation k oper e) m) F"
  by (rule moves_bind_gen[where G = "\<lambda>_. tok_call x k"]) (auto intro!: moves_intro)

lemma moves_for_each:
  "(\<And>y. moves x (f y) (\<lambda>_. g y)) \<Longrightarrow> moves x (for_each f ys) (\<lambda>_. sum_list (map g ys))"
proof (induction ys)
  case (Cons y ys)
  show ?case
    unfolding for_each.simps
    by (rule moves_bind_gen[OF Cons.prems], rule moves_weaken[OF Cons.IH[OF Cons.prems]]) simp
qed (simp add: moves_return)

lemma in_futures_vals: "in_futures x futs = sum_list (map (\<lambda>e. tok_call x (fst e)) (gm_vals futs))"
  by (simp add: in_futures_def gm_vals_def comp_def)

text \<open>Taking entries out of the futures.\<close>

lemma moves_clear_futures:
  "c_futures (w_cl w) = futs \<Longrightarrow> tidy w \<Longrightarrow>
    tidy (after (modc (\<lambda>c. c\<lparr>c_futures := []\<rparr>)) w)
    \<and> token_count x (after (modc (\<lambda>c. c\<lparr>c_futures := []\<rparr>)) w) = token_count x w - in_futures x futs"
  by (auto simp: modc_def tidy_def futures_ok_def gm_keys_def token_count_def at_rest_def in_futures_def
      split: token.split)

lemma calls_keep_futures [keeps_intro]:
  "keeps (\<lambda>w. c_futures (w_cl w)) nextCmdID" "keeps (\<lambda>w. c_futures (w_cl w)) (sendOn t cmd)"
  "keeps (\<lambda>w. c_futures (w_cl w)) (send cmd)" "keeps (\<lambda>w. c_futures (w_cl w)) (addRequest i r cb)"
  "keeps (\<lambda>w. c_futures (w_cl w)) (popRequest i)" "keeps (\<lambda>w. c_futures (w_cl w)) (spawn ts)"
  "keeps (\<lambda>w. c_futures (w_cl w)) (add_result k rr)"
  by (auto simp: nextCmdID_def sendOn_def send_def addRequest_def popRequest_def spawn_def add_result_def
      intro!: keeps_intro)

lemma runOperation_keeps_futures [keeps_intro]:
  "keeps (\<lambda>w. c_futures (w_cl w)) (runOperation k oper e)"
  by (auto simp: runOperation_defs sendRPC_def sendPublish_def sendHistory_def sendPresence_def
      sendPresenceStats_def send_message_def send_operation_def sendAsync_def sendAsyncOn_def
      intro!: keeps_intro)

lemma still_resolveConnectFutures [moves_intro]: "still x (resolveConnectFutures e)"
  unfolding moves_def
proof (intro allI impI)
  fix w assume w: "tidy w"
  let ?futs = "c_futures (w_cl w)"
  let ?run = "for_each (\<lambda>(k, oper). runOperation k oper e) (gm_vals ?futs)"
  have "moves x ?run (\<lambda>_. sum_list (map (\<lambda>e. tok_call x (fst e)) (gm_vals ?futs)))"
    by (rule moves_for_each) (auto intro!: moves_intro)
  then have 1: "tidy (after ?run w)" "token_count x (after ?run w) = token_count x w + in_futures x ?futs"
    using w by (auto simp: moves_def in_futures_vals)
  have "c_futures (w_cl (after ?run w)) = ?futs"
    by (rule keepsD[of "\<lambda>w. c_futures (w_cl w)"]) (auto intro!: keeps_intro)
  from moves_clear_futures[OF this 1(1), of x] 1(2)
  show "tidy (after (resolveConnectFutures e) w) \<and>
      token_count x (after (resolveConnectFutures e) w) = token_count x w + 0"
    by (simp add: resolveConnectFutures_def split_beta)
qed

lemma moves_take_future:
  assumes "gm_get (c_futures (w_cl w)) i = Some (k, oper)" "tidy w"
  shows "tidy (after (modc (\<lambda>c. c\<lparr>c_futures := gm_del i (c_futures c)\<rparr>)) w)
    \<and> token_count x (after (modc (\<lambda>c. c\<lparr>c_futures := gm_del i (c_futures c)\<rparr>)) w) = token_count x w - tok_call x k"
  using assms
  by (auto simp: modc_def tidy_def futures_ok_def gm_keys_del token_count_def at_rest_def in_futures_def
      sum_gm_del[where f = "\<lambda>v. tok_call x (fst v)"] split: token.split)

lemma still_futureTimeout [moves_intro]: "still x (futureTimeout i)"
  unfolding moves_def
proof (intro allI impI)
  fix w assume w: "tidy w"
  show "tidy (after (futureTimeout i) w) \<and> token_count x (after (futureTimeout i) w) = token_count x w + 0"
  proof (cases "gm_get (c_futures (w_cl w)) i")
    case None
    then show ?thesis using w by (simp add: futureTimeout_def)
  next
    case (Some ko)
    obtain k oper where ko: "ko = (k, oper)" by (cases ko)
    have r: "moves x (runOperation k oper (Some (Sentinel ErrTimeout))) (\<lambda>_. tok_call x k)"
      by (rule moves_intro) simp
    show ?thesis
      using moves_take_future[of w i k oper x] Some ko w r
      by (simp add: futureTimeout_def moves_def split_beta)
  qed
qed

lemma hands_onConnect [moves_intro]: "hands x (onConnect k oper) (tok_call x k)"
proof -
  have put: "hands x (do { i \<leftarrow> nextFutureID; modc (\<lambda>c. c\<lparr>c_futures := gm_put i (k, oper) (c_futures c)\<rparr>);
      spawn [TCall (FutureTimeout i)]; ret [] }) (tok_call x k)"
    unfolding moves_def
  proof (intro allI impI)
    fix w assume w: "tidy w"
    let ?i = "Suc (c_future_id (w_cl w))"
    have "?i \<notin> set (gm_keys (c_futures (w_cl w)))" using w by (auto simp: tidy_def futures_ok_def)
    then have "gm_get (c_futures (w_cl w)) ?i = None" unfolding gm_keys_get by blast
    with w show "tidy (after (do { i \<leftarrow> nextFutureID; modc (\<lambda>c. c\<lparr>c_futures := gm_put i (k, oper) (c_futures c)\<rparr>);
        spawn [TCall (FutureTimeout i)]; ret [] }) w) \<and>
      token_count x (after (do { i \<leftarrow> nextFutureID; modc (\<lambda>c. c\<lparr>c_futures := gm_put i (k, oper) (c_futures c)\<rparr>);
        spawn [TCall (FutureTimeout i)]; ret [] }) w) = token_count x w + (tok_call x k - toks x (outcome
          (do { i \<leftarrow> nextFutureID; modc (\<lambda>c. c\<lparr>c_futures := gm_put i (k, oper) (c_futures c)\<rparr>);
        spawn [TCall (FutureTimeout i)]; ret [] }) w))"
      by (auto simp: nextFutureID_def modc_def spawn_def tidy_def futures_ok_def gm_keys_put token_count_def
          at_rest_def sub_at_def in_threads_def in_futures_def sum_gm_put[where f = "\<lambda>v. tok_call x (fst v)"]
          le_SucI split: token.split)
  qed
  show ?thesis
    unfolding onConnect_def
    by (rule moves_bind, rule moves_gets) (use put in \<open>auto split: cstate.split intro!: moves_intro\<close>)
qed

lemma hands_clientCall [moves_intro]: "hands x (clientCall k oper) (tok_call x k)"
  by (auto simp: clientCall_def intro!: moves_intro)

lemma moves_operationReply:
  "safe_reply (op_kind oper) r \<Longrightarrow> moves x (operationReply k oper r) (\<lambda>_. tok_call x k)"
  by (cases r) (auto simp: operationReply_def safe_reply_def intro!: moves_intro dest: read_operation_safe)

section \<open>Subscriptions\<close>

lemma sub_at_append [simp]:
  "sub_at (w\<lparr>w_next_sid := n, w_heap := w_heap w @ [(s', y)]\<rparr>) s =
     (if gm_get (w_heap w) s = None \<and> s = s' then y else sub_at w s)"
  by (auto simp: sub_at_def gm_get_def map_add_def split: option.split)

lemma still_allocate:
  "s_futures y = [] \<Longrightarrow> s_future_id y = 0 \<Longrightarrow> \<not> s_inflight y
    \<Longrightarrow> still x (modify (\<lambda>w. w\<lparr>w_next_sid := Suc s, w_heap := w_heap w @ [(s, y)]\<rparr>))"
proof -
  assume y: "s_futures y = []" "s_future_id y = 0" "\<not> s_inflight y"
  have none: "\<not> s_inflight (sub_at w s')" if "gm_get (w_heap w) s' = None" for w s'
    using that by (simp add: sub_at_def no_sub_def)
  have "futures_ok 0 []" by (simp add: futures_ok_def gm_keys_def)
  then have t: "tidy (w\<lparr>w_next_sid := Suc s, w_heap := w_heap w @ [(s, y)]\<rparr>)" if "tidy w" for w
    using that y by (simp add: tidy_def)
  have "token_count x (w\<lparr>w_next_sid := Suc s, w_heap := w_heap w @ [(s, y)]\<rparr>) = token_count x w" for w
    using y none[of w] by (cases x) (auto simp: token_count_def at_rest_def in_subs_def in_futures_def)
  with t show ?thesis by (simp add: moves_def)
qed

lemma newSubscription_fields [simp]:
  "s_futures (newSubscription ch cfg) = []" "s_future_id (newSubscription ch cfg) = 0"
  "\<not> s_inflight (newSubscription ch cfg)"
  by (simp_all add: newSubscription_def Let_def)

lemma still_NewSubscription [moves_intro]: "still x (NewSubscription ch cfg)"
  unfolding NewSubscription_def
  by (intro moves_bind[OF moves_gets] moves_if moves_return moves_bind[OF still_allocate] moves_bind[OF still_modc])
     simp_all

lemma still_resolveSubFutures [moves_intro]: "still x (resolveSubFutures s e)"
  unfolding moves_def
proof (intro allI impI)
  fix w assume w: "tidy w"
  let ?futs = "s_futures (sub_at w s)"
  let ?run = "for_each (\<lambda>(k, oper). spawn [TCall (RunSubOperation s k oper e)]) (gm_vals ?futs)"
  have "moves x ?run (\<lambda>_. sum_list (map (\<lambda>e. tok_call x (fst e)) (gm_vals ?futs)))"
    by (rule moves_for_each) (auto intro!: moves_intro)
  then have 1: "tidy (after ?run w)" "token_count x (after ?run w) = token_count x w + in_futures x ?futs"
    using w by (auto simp: moves_def in_futures_vals)
  have "sub_at (after ?run w) s = sub_at w s"
    by (rule keepsD[of "\<lambda>w. sub_at w s"]) (auto simp: spawn_def intro!: keeps_intro)
  then have "tidy (after (mods s (\<lambda>x. x\<lparr>s_futures := []\<rparr>)) (after ?run w)) \<and>
      token_count x (after (mods s (\<lambda>x. x\<lparr>s_futures := []\<rparr>)) (after ?run w)) = token_count x w"
    using 1 by (auto simp: mods_def tidy_def futures_ok_def gm_keys_def token_count_def at_rest_def
        in_subs_put in_futures_def split: token.split)
  then show "tidy (after (resolveSubFutures s e) w) \<and>
      token_count x (after (resolveSubFutures s e) w) = token_count x w + 0"
    by (simp add: resolveSubFutures_def split_beta)
qed

lemma moves_onSubscribe: "moves x (onSubscribe s k oper) (\<lambda>_. tok_call x k)"
proof -
  have put: "moves x (do { i \<leftarrow> gets_of s s_future_id;
      mods s (\<lambda>x. x\<lparr>s_future_id := Suc i, s_futures := gm_put (Suc i) (k, oper) (s_futures x)\<rparr>);
      spawn [TCall (SubFutureTimeout s (Suc i))] }) (\<lambda>_. tok_call x k)"
    unfolding moves_def
  proof (intro allI impI)
    fix w assume w: "tidy w"
    let ?i = "Suc (s_future_id (sub_at w s))"
    let ?m = "do { i \<leftarrow> gets_of s s_future_id;
      mods s (\<lambda>x. x\<lparr>s_future_id := Suc i, s_futures := gm_put (Suc i) (k, oper) (s_futures x)\<rparr>);
      spawn [TCall (SubFutureTimeout s (Suc i))] }"
    have ok: "futures_ok (s_future_id (sub_at w s)) (s_futures (sub_at w s))" using w by (simp add: tidy_def)
    then have "?i \<notin> set (gm_keys (s_futures (sub_at w s)))" by (auto simp: futures_ok_def)
    then have new: "gm_get (s_futures (sub_at w s)) ?i = None" unfolding gm_keys_get by blast
    have t: "futures_ok ?i (gm_put ?i (k, oper) (s_futures (sub_at w s)))"
      using ok by (auto simp: futures_ok_def gm_keys_put le_SucI)
    have "in_futures x (gm_put ?i (k, oper) (s_futures (sub_at w s)))
        = in_futures x (s_futures (sub_at w s)) + tok_call x k"
      using new by (simp add: in_futures_def sum_gm_put[where f = "\<lambda>v. tok_call x (fst v)"])
    with w t show "tidy (after ?m w) \<and> token_count x (after ?m w) = token_count x w + tok_call x k"
      by (auto simp: mods_def spawn_def tidy_def token_count_def at_rest_def in_threads_def in_subs_put
          split: token.split)
  qed
  show ?thesis
    unfolding onSubscribe_def
    by (rule moves_bind, rule moves_gets) (use put in \<open>auto split: sstate.split intro!: moves_intro\<close>)
qed

lemma hands_runSubOperation [moves_intro]: "hands x (runSubOperation s k oper e) (tok_call x k)"
  by (auto simp: runSubOperation_def intro!: moves_intro)

lemma hands_subFutureTimeout [moves_intro]: "moves x (subFutureTimeout s i) (\<lambda>ts. - toks x ts)"
  unfolding moves_def
proof (intro allI impI)
  fix w assume w: "tidy w"
  show "tidy (after (subFutureTimeout s i) w) \<and> token_count x (after (subFutureTimeout s i) w)
      = token_count x w + - toks x (outcome (subFutureTimeout s i) w)"
  proof (cases "gm_get (s_futures (sub_at w s)) i")
    case None
    then show ?thesis using w by (simp add: subFutureTimeout_def)
  next
    case (Some ko)
    obtain k oper where ko: "ko = (k, oper)" by (cases ko)
    let ?m = "mods s (\<lambda>x. x\<lparr>s_futures := gm_del i (s_futures x)\<rparr>)"
    have ok: "futures_ok (s_future_id (sub_at w s)) (s_futures (sub_at w s))" using w by (simp add: tidy_def)
    then have "in_futures x (gm_del i (s_futures (sub_at w s))) = in_futures x (s_futures (sub_at w s)) - tok_call x k"
      using Some ko by (simp add: in_futures_def sum_gm_del[where f = "\<lambda>v. tok_call x (fst v)"] futures_ok_def)
    moreover have "futures_ok (s_future_id (sub_at w s)) (gm_del i (s_futures (sub_at w s)))"
      using ok by (auto simp: futures_ok_def gm_keys_del)
    ultimately have "tidy (after ?m w)" "token_count x (after ?m w) = token_count x w - tok_call x k"
      using w by (auto simp: mods_def tidy_def token_count_def at_rest_def in_subs_put split: token.split)
    with hands_runSubOperation[of x s k oper "Some (Sentinel ErrTimeout)"] show ?thesis
      using Some ko by (simp add: subFutureTimeout_def moves_def split_beta)
  qed
qed

lemma hands_subCall [moves_intro]: "hands x (subCall s k oper) (tok_call x k)"
  by (auto simp: subCall_def intro!: moves_intro)

lemma tok_sub_small [moves_intro]:
  "still x (SetTagsFilter s f)"
  "still x (updateSubscriptionPushID s a b)"
  "still x (queueSubscribingLocked s c r)"
  "still x (stop_sub_timers s)"
  "still x (scheduleResubscribe s)"
  "still x (arm_sub_refresh s ttl)"
  by (auto simp: SetTagsFilter_def updateSubscriptionPushID_def queueSubscribingLocked_def stop_sub_timers_def scheduleResubscribe_def arm_sub_refresh_def intro!: moves_intro)

lemma moves_unsubscribe_failed [moves_intro]: "F () = 0 \<Longrightarrow> moves x unsubscribe_failed F"
  by (auto simp: unsubscribe_failed_def intro!: moves_intro)

lemma tok_sub_moves [moves_intro]:
  "still x (moveToUnsubscribedLocked s c r e)"
  "still x (moveToSubscribingLocked s c r)"
  by (auto simp: moveToUnsubscribedLocked_def moveToSubscribingLocked_def intro!: moves_intro)

lemma tok_sub_commands [moves_intro]:
  "still x (moveToUnsubscribed s c r)"
  "still x (sendUnsubscribe ch)"
  "still x (unsubscribeReply rp)"
  by (auto simp: moveToUnsubscribed_def sendUnsubscribe_def unsubscribeReply_def intro!: moves_intro)

lemma tok_sendSubRefresh [moves_intro]:
  "still x (sendUnsubscribeLocked s)"
  "still x (isRegistered s)"
  "still x (invalidateState s)"
  by (auto simp: sendUnsubscribeLocked_def isRegistered_def invalidateState_def intro!: moves_intro)

lemma still_sendSubRefresh [moves_intro]: "still x (sendSubRefresh ch tok (CbSubRefresh s n i))"
  by (auto simp: sendSubRefresh_def intro!: moves_intro)

lemma moves_sendSubscribe_bind:
  "moves x (k None) (\<lambda>u. F u - tok_cb x cb) \<Longrightarrow> (\<And>e. moves x (k (Some e)) F)
    \<Longrightarrow> moves x (State_Monad.bind (sendSubscribe params cb) k) F"
  by (auto simp: sendSubscribe_def intro!: moves_intro)

lemma tok_sub_api [moves_intro]:
  "hands x (subscribeCall s k) (tok_call x k)"
  "hands x (subscribeRegistered s k) (tok_call x k)"
  "hands x (subscribeStart s k) (tok_call x k)"
  "hands x (subscribeConnected s k) (tok_call x k)"
  "hands x (unsubscribeCall s k) (tok_call x k)"
  "hands x (removeCall s k) (tok_call x k)"
  by (auto simp: subscribeCall_def subscribeRegistered_def subscribeStart_def subscribeConnected_def unsubscribeCall_def removeCall_def intro!: moves_intro)

lemma moves_removeEntry [moves_intro]: "F () = tok_call x k \<Longrightarrow> moves x (removeEntry s k) F"
  by (auto simp: removeEntry_def intro!: moves_intro)

lemma tok_unsubscribe [moves_intro]:
  "still x (unsubscribe s c r b)"
  by (auto simp: unsubscribe_def intro!: moves_intro)

section \<open>The subscribe in flight\<close>

text \<open>
  \<open>clears x s m F\<close>: \<open>m\<close> runs while a subscribe of \<open>s\<close> is in flight, and may end it.
\<close>

definition clears :: "token \<Rightarrow> sid \<Rightarrow> 'a op \<Rightarrow> ('a \<Rightarrow> int) \<Rightarrow> bool" where
  "clears x s m F \<longleftrightarrow> (\<forall>w. tidy w \<and> s_inflight (sub_at w s) \<longrightarrow>
     tidy (after m w) \<and> token_count x (after m w) = token_count x w + F (outcome m w))"

named_theorems clears_intro \<open>rules for operations that may end a subscribe in flight\<close>

lemma clears_moves: "moves x m F \<Longrightarrow> clears x s m F"
  by (simp add: clears_def moves_def)

lemma clears_gets [clears_intro]: "(\<And>v. clears x s (k v) F) \<Longrightarrow> clears x s (State_Monad.bind (gets f) k) F"
  by (simp add: clears_def)

lemma clears_if [clears_intro]:
  "(b \<Longrightarrow> clears x s m F) \<Longrightarrow> (\<not> b \<Longrightarrow> clears x s n F) \<Longrightarrow> clears x s (if b then m else n) F"
  by simp

lemma clears_sum [clears_intro]:
  "(\<And>z. y = Inl z \<Longrightarrow> clears x s (m z) F) \<Longrightarrow> (\<And>z. y = Inr z \<Longrightarrow> clears x s (n z) F)
    \<Longrightarrow> clears x s (case y of Inl z \<Rightarrow> m z | Inr z \<Rightarrow> n z) F"
  by (cases y) auto

lemma end_inflight_count:
  assumes "tidy w" "s_inflight (sub_at w s)"
  shows "tidy (after (end_inflight s) w) \<and> token_count x (after (end_inflight s) w) = token_count x w + tok_sub x s"
  using assms
  by (auto simp: end_inflight_def mods_def tidy_def token_count_def at_rest_def in_subs_put tok_sub_def
      split: token.split)

lemma clears_end [clears_intro]:
  "moves x (k ()) (\<lambda>u. F u - tok_sub x s) \<Longrightarrow> clears x s (State_Monad.bind (end_inflight s) k) F"
  using end_inflight_count[of _ s x] by (auto simp: clears_def moves_def split_beta)

lemma clears_end_last [clears_intro]: "F () = tok_sub x s \<Longrightarrow> clears x s (end_inflight s) F"
  using end_inflight_count[of _ s x] by (auto simp: clears_def)

lemma adopt_position_fields [simp]:
  "s_futures (adopt_position p y) = s_futures y" "s_future_id (adopt_position p y) = s_future_id y"
  "s_inflight (adopt_position p y) = s_inflight y" "s_state (adopt_position p y) = s_state y"
  by (simp_all add: adopt_position_def Let_def)

lemma hands_getState [moves_intro]: "hands x (getState s) (tok_sub x s)"
  by (auto simp: getState_def intro!: moves_intro)

lemma hands_gotState: "clears x s (gotState res s a i) (\<lambda>ts. tok_sub x s - toks x ts)"
  by (auto simp: gotState_def intro!: clears_intro moves_intro intro: clears_moves)

lemma hands_continueResubscribe [moves_intro]: "hands x (continueResubscribe s b) (tok_sub x s)"
  by (auto simp: continueResubscribe_def intro!: moves_intro)

lemma hands_gotSubToken: "clears x s (gotSubToken tk s a i) (\<lambda>ts. tok_sub x s - toks x ts)"
  by (auto simp: gotSubToken_def intro!: clears_intro moves_intro intro: clears_moves)

lemma set_inflight_count:
  assumes "tidy w" "\<not> s_inflight (sub_at w s)"
  shows "tidy (after (mods s (\<lambda>y. y\<lparr>s_inflight := True\<rparr>)) w)
    \<and> token_count x (after (mods s (\<lambda>y. y\<lparr>s_inflight := True\<rparr>)) w) = token_count x w - tok_sub x s"
  using assms
  by (auto simp: mods_def tidy_def token_count_def at_rest_def in_subs_put tok_sub_def split: token.split)

lemma hands_resubscribe [moves_intro]: "moves x (resubscribe s) (\<lambda>ts. - toks x ts)"
  unfolding moves_def
proof (intro allI impI)
  fix w assume w: "tidy w"
  let ?go = "\<lambda>cfg recover token. (if sc_get_state cfg \<and> \<not> recover then do { spawn [TSub (GetState s)]; ret [] }
     else if token = [] \<and> sc_get_token cfg then do { spawn [TSub (ContinueResubscribe s True)]; ret [] }
     else ret [TSub (ContinueResubscribe s False)])"
  have go: "moves x (?go cfg r t) (\<lambda>ts. tok_sub x s - toks x ts)" for cfg r t
    by (auto intro!: moves_intro)
  show "tidy (after (resubscribe s) w) \<and> token_count x (after (resubscribe s) w)
      = token_count x w + - toks x (outcome (resubscribe s) w)"
  proof (cases "s_state (sub_at w s) = SubStateSubscribing \<and> \<not> s_inflight (sub_at w s) \<and> c_connected (w_cl w)")
    case True
    let ?w = "after (mods s (\<lambda>y. y\<lparr>s_inflight := True\<rparr>)) w"
    let ?m = "?go (s_cfg (sub_at w s)) (s_recover (sub_at w s)) (s_token (sub_at w s))"
    have run: "run_state (resubscribe s) w = run_state ?m ?w"
      using True by (simp add: resubscribe_def split_beta)
    have c: "tidy ?w" "token_count x ?w = token_count x w - tok_sub x s"
      using set_inflight_count[of w s x] True w by auto
    then have g: "tidy (after ?m ?w)"
      "token_count x (after ?m ?w) = token_count x ?w + (tok_sub x s - toks x (outcome ?m ?w))"
      using go[of "s_cfg (sub_at w s)"] unfolding moves_def by blast+
    show ?thesis unfolding run using g c(2) by linarith
  next
    case False
    then have "run_state (resubscribe s) w = ([], w)" by (auto simp: resubscribe_def)
    with w show ?thesis by simp
  qed
qed

lemma tok_subscribeErrors [moves_intro]:
  "moves x (handleJoin h s i) (\<lambda>ts. - toks x ts)"
  "moves x (handleLeave h s i) (\<lambda>ts. - toks x ts)"
  "moves x (handlePublication h s p) (\<lambda>ts. - toks x ts)"
  "moves x (handleUnsubscribe s u) (\<lambda>ts. - toks x ts)"
  by (auto simp: handleJoin_def handleLeave_def handlePublication_def handleUnsubscribe_def intro!: moves_intro)

lemma moves_bind_lock:
  assumes "still x m" "\<And>w. toks x (snd (outcome m w)) = 0" "\<And>b ts. toks x ts = 0 \<Longrightarrow> moves x (k (b, ts)) F"
  shows "moves x (State_Monad.bind m k) F"
  unfolding moves_def
proof (intro allI impI)
  fix w assume "tidy w"
  then have "tidy (after m w)" "token_count x (after m w) = token_count x w" using assms(1) by (auto simp: moves_def)
  then show "tidy (after (State_Monad.bind m k) w) \<and>
      token_count x (after (State_Monad.bind m k) w) = token_count x w + F (outcome (State_Monad.bind m k) w)"
    using assms(3)[OF assms(2)[of w], of "fst (outcome m w)"] unfolding after_bind outcome_bind
    by (simp add: moves_def)
qed

lemma lock_toks:
  "toks x (snd (outcome (lockCurrentAttempt s a) w)) = 0"
  "toks x (snd (outcome (lockCurrentSubscribe s a g) w)) = 0"
  by (auto simp: lockCurrentAttempt_def lockCurrentSubscribe_def)

lemma still_locks: "still x (lockCurrentAttempt s a)" "still x (lockCurrentSubscribe s a g)"
  by (auto simp: lockCurrentAttempt_def lockCurrentSubscribe_def intro!: moves_intro)

lemma hands_subscribeErrors [moves_intro]:
  "moves x (subscribeError s e a g) (\<lambda>ts. - toks x ts)"
  "moves x (subscribeUnrecoverable s a g) (\<lambda>ts. - toks x ts)"
  "moves x (subscribeErrorReported s e a g) (\<lambda>ts. - toks x ts)"
  "moves x (getStateFailed s a) (\<lambda>ts. - toks x ts)"
  unfolding subscribeError_def subscribeUnrecoverable_def subscribeErrorReported_def getStateFailed_def
  by (rule moves_bind_lock[OF still_locks(1) lock_toks(1)] moves_bind_lock[OF still_locks(2) lock_toks(2)];
      auto intro!: moves_intro)+

lemma moves_sendSubscribeNow: "clears x s (sendSubscribeNow s a i tok) (\<lambda>_. tok_sub x s)"
proof -
  have "clears x s (do { e \<leftarrow> sendSubscribe params (CbSubscribe s g a);
      (case e of None \<Rightarrow> ret () | Some _ \<Rightarrow> do { end_inflight s; scheduleResubscribe s }) }) (\<lambda>_. tok_sub x s)"
    for params g
    unfolding clears_def
  proof (intro allI impI)
    fix w assume w: "tidy w \<and> s_inflight (sub_at w s)"
    let ?m = "sendSubscribe params (CbSubscribe s g a)"
    have m: "moves x ?m (\<lambda>r. case r of None \<Rightarrow> tok_sub x s | Some e \<Rightarrow> 0)"
      unfolding sendSubscribe_def sendAsync_def
      by (rule moves_bind, rule moves_intro, rule moves_weaken[OF moves_sendAsyncOn]) (simp split: option.split)
    have "sub_at (after ?m w) s = sub_at w s"
      by (rule keepsD[of "\<lambda>w. sub_at w s"])
         (auto simp: sendSubscribe_def sendAsync_def sendAsyncOn_def nextCmdID_def addRequest_def popRequest_def
            send_def sendOn_def spawn_def sub_at_def intro!: keeps_intro)
    with w have fl: "s_inflight (sub_at (after ?m w) s)" by simp
    have r: "still x (scheduleResubscribe s)" by (rule moves_intro)
    show "tidy (after (do { e \<leftarrow> ?m; (case e of None \<Rightarrow> ret () | Some _ \<Rightarrow> do { end_inflight s; scheduleResubscribe s }) }) w)
      \<and> token_count x (after (do { e \<leftarrow> ?m; (case e of None \<Rightarrow> ret () | Some _ \<Rightarrow> do { end_inflight s; scheduleResubscribe s }) }) w)
        = token_count x w + tok_sub x s"
      using m w r end_inflight_count[of "after ?m w" s x, OF _ fl]
      by (auto simp: moves_def split_beta split: option.split)
  qed
  then show ?thesis
    by (auto simp: sendSubscribeNow_def intro!: clears_intro moves_intro)
qed

lemma hands_deltaFailed [moves_intro]: "moves x (deltaFailed h s off e) (\<lambda>ts. - toks x ts)"
  by (auto simp: deltaFailed_def intro!: moves_intro)

lemma tok_enterSubscribed [moves_intro]:
  "moves x (enterSubscribed h s res pubs ds) (\<lambda>ts. - toks x ts)"
  by (auto simp: enterSubscribed_def split: if_splits intro!: moves_intro)

lemma tok_moveToSubscribed [moves_intro]:
  "moves x (moveToSubscribed h s res g a) (\<lambda>ts. - toks x ts)"
  by (auto simp: moveToSubscribed_def intro!: moves_intro)

lemma tok_sub_refresh1 [moves_intro]:
  "still x (isRefreshCurrent s n i)"
  "still x (unsubscribeIfRefreshCurrent s n i c r)"
  "still x (subRefreshArm s n ttl)"
  "still x (subRefreshWrite s n i tok)"
  "still x (deliver_sub_pub s n pe)"
  by (auto simp: isRefreshCurrent_def unsubscribeIfRefreshCurrent_def subRefreshArm_def subRefreshWrite_def deliver_sub_pub_def intro!: moves_intro)

lemma tok_sub_refresh2 [moves_intro]:
  "moves x (refresh s n) (\<lambda>ts. - toks x ts)"
  "moves x (gotRefreshSubToken tk s n i) (\<lambda>ts. - toks x ts)"
  "moves x (subRefreshSend s n i tok) (\<lambda>ts. - toks x ts)"
  by (auto simp: refresh_def gotRefreshSubToken_def subRefreshSend_def intro!: moves_intro)

lemma tok_subRefreshReply [moves_intro]:
  "moves x (subRefreshReply s n i r) (\<lambda>ts. - toks x ts)"
  by (auto simp: subRefreshReply_def split: option.split intro!: moves_intro)

section \<open>The client\<close>

lemma moves_drop_requests:
  assumes "tidy w"
  shows "tidy (after (modc (\<lambda>c. c\<lparr>c_requests := []\<rparr>)) w) \<and>
    token_count x (after (modc (\<lambda>c. c\<lparr>c_requests := []\<rparr>)) w) = token_count x w - in_requests x (c_requests (w_cl w))"
  using assms
  by (auto simp: modc_def tidy_def token_count_def at_rest_def in_requests_def split: token.split)

text \<open>The pending requests become goroutines that run their callbacks.\<close>

lemma still_fail_requests:
  "still x (do { reqs \<leftarrow> getc c_requests; modc (\<lambda>c. c\<lparr>c_requests := []\<rparr>);
     for_each (\<lambda>q. spawn [TCall (RunCallback (rq_cb q) (Inl (Sentinel ErrClientDisconnected)))]) (gm_vals reqs) })"
  unfolding moves_def
proof (intro allI impI)
  fix w assume w: "tidy w"
  let ?run = "for_each (\<lambda>q. spawn [TCall (RunCallback (rq_cb q) (Inl (Sentinel ErrClientDisconnected)))])
    (gm_vals (c_requests (w_cl w)))"
  let ?w = "after (modc (\<lambda>c. c\<lparr>c_requests := []\<rparr>)) w"
  have "moves x ?run (\<lambda>_. sum_list (map (\<lambda>q. tok_cb x (rq_cb q)) (gm_vals (c_requests (w_cl w)))))"
    by (rule moves_for_each) (auto intro!: moves_intro)
  then have "moves x ?run (\<lambda>_. in_requests x (c_requests (w_cl w)))"
    by (simp add: in_requests_def gm_vals_def comp_def)
  with moves_drop_requests[OF w, of x]
  show "tidy (after (do { reqs \<leftarrow> getc c_requests; modc (\<lambda>c. c\<lparr>c_requests := []\<rparr>);
      for_each (\<lambda>q. spawn [TCall (RunCallback (rq_cb q) (Inl (Sentinel ErrClientDisconnected)))]) (gm_vals reqs) }) w) \<and>
    token_count x (after (do { reqs \<leftarrow> getc c_requests; modc (\<lambda>c. c\<lparr>c_requests := []\<rparr>);
      for_each (\<lambda>q. spawn [TCall (RunCallback (rq_cb q) (Inl (Sentinel ErrClientDisconnected)))]) (gm_vals reqs) }) w)
    = token_count x w + 0"
    by (auto simp: moves_def split_beta)
qed

lemma still_clear [moves_intro]: "still x clearConnectedState"
  unfolding clearConnectedState_def
  by (intro moves_bind[OF moves_gets] moves_bind[OF still_modc] moves_bind[OF still_effects(5)]
      moves_bind[OF moves_option] moves_bind[OF moves_gets, THEN moves_weaken] still_fail_requests moves_intro) simp_all

lemma tok_transitions [moves_intro]:
  "still x (setStateLocked st)"
  "still x (setTransportLocked t)"
  "still x (isCurrentAttemptLocked n)"
  "still x (isConnectedAttemptLocked n)"
  "still x (isConnRefreshCurrent g)"
  by (auto simp: setStateLocked_def setTransportLocked_def isCurrentAttemptLocked_def isConnectedAttemptLocked_def isConnRefreshCurrent_def intro!: moves_intro)

lemma tok_drop [moves_intro]:
  "still x (drop_transport)"
  "still x (subs_to_subscribing)"
  "still x (scheduleReconnectLocked)"
  "still x (scheduleRefreshLocked d)"
  by (auto simp: drop_transport_def subs_to_subscribing_def scheduleReconnectLocked_def scheduleRefreshLocked_def intro!: moves_intro)

lemma tok_teardowns [moves_intro]:
  "still x (disconnect_now c r)"
  "still x (close_now)"
  "still x (retry_connecting t)"
  by (auto simp: disconnect_now_def close_now_def retry_connecting_def intro!: moves_intro)

lemma tok_moveToDisconnectedIf [moves_intro]:
  "still x (moveToDisconnectedIf cu c r)"
  by (auto simp: moveToDisconnectedIf_def intro!: moves_intro)

lemma tok_disconnects [moves_intro]:
  "still x (moveToDisconnected c r)"
  "still x (moveToDisconnectedFrom t c r)"
  "still x (connectingReported n)"
  "still x (setToken tok)"
  "still x (disconnect_refresh g c r)"
  by (auto simp: moveToDisconnected_def moveToDisconnectedFrom_def connectingReported_def setToken_def disconnect_refresh_def intro!: moves_intro)

lemma tok_reconnect_now [moves_intro]:
  "moves x (reconnect_now h c r) (\<lambda>ts. - toks x ts)"
  by (auto simp: reconnect_now_def intro!: moves_intro)

lemma hands_moveToConnectingFrom [moves_intro]: "moves x (moveToConnectingFrom h t c r) (\<lambda>ts. - toks x ts)"
  by (auto simp: moveToConnectingFrom_def split: option.split cstate.split intro!: moves_intro)

lemma tok_reports [moves_intro]:
  "moves x (invalidateConnectionState) (\<lambda>ts. - toks x ts)"
  "moves x (handleTransportDisconnect t d) (\<lambda>ts. - toks x ts)"
  by (auto simp: invalidateConnectionState_def handleTransportDisconnect_def Let_def toks_map_zero intro!: moves_intro)

lemma tok_app_calls [moves_intro]:
  "hands x (disconnectCall k) (tok_call x k)"
  "hands x (closeCall k) (tok_call x k)"
  "hands x (closeReport st chs k) (tok_call x k)"
  "hands x (closeWaitReader h k) (tok_call x k)"
  "hands x (closeQueue h b k) (tok_call x k)"
  by (auto simp: disconnectCall_def closeCall_def closeReport_def closeWaitReader_def closeQueue_def toks_map_zero split: option.split intro!: moves_intro)

section \<open>Connecting\<close>

lemma tok_start [moves_intro]:
  "hands x (startConnecting h k) (tok_caller x k)"
  "hands x (startReconnectingIf ex k) (tok_caller x k)"
  by (auto simp: startConnecting_def startReconnectingIf_def intro!: moves_intro)

lemma hands_refreshToken:
  assumes "tok_task x a = c" "\<And>tk. tok_task x (f tk) = c"
  shows "hands x (refreshToken h a f) c"
  using assms by (auto simp: refreshToken_def intro!: moves_intro)

lemma hands_tokens [moves_intro]:
  "hands x (connectToken h n r k) (tok_caller x k)" "moves x (sendRefresh h g) (\<lambda>ts. - toks x ts)"
  using hands_refreshToken[of x _ 0]
  by (auto simp: connectToken_def sendRefresh_def intro!: moves_intro hands_refreshToken)

lemma tok_gotToken [moves_intro]:
  "hands x (gotConnectToken h n r k tk) (tok_caller x k)"
  "hands x (dial h eo n r k) (tok_caller x k)"
  "moves x (gotRefreshToken h g tk) (\<lambda>ts. - toks x ts)"
  by (auto simp: gotConnectToken_def dial_def gotRefreshToken_def intro!: moves_intro)

lemma moves_scheduleIfCurrent [moves_intro]: "F () = tok_caller x k \<Longrightarrow> moves x (scheduleIfCurrent n k e) F"
  by (auto simp: scheduleIfCurrent_def intro!: moves_intro)

lemma moves_scheduleIfCurrent_bind [moves_intro]:
  "(\<And>v. moves x (m v) (\<lambda>u. F u - tok_caller x k)) \<Longrightarrow> moves x (State_Monad.bind (scheduleIfCurrent n k e) m) F"
  by (rule moves_bind_gen[where G = "\<lambda>_. tok_caller x k"]) (auto intro!: moves_intro)

lemma still_sendConnect [moves_intro]: "still x (sendConnect t (CbConnect n t' tok ch))"
  unfolding sendConnect_def
  by (intro moves_bind[OF tok_nextCmdID(1)] moves_bind[OF moves_gets] moves_weaken[OF moves_sendAsyncOn])
     (simp split: option.split)

lemma hands_dialed [moves_intro]: "hands x (dialed h n t k) (tok_caller x k)"
  by (auto simp: dialed_def intro!: moves_intro)

lemma still_queue_each [moves_intro]: "still x (queue_each es d)"
  by (induction es arbitrary: d) (auto intro!: moves_intro)

lemma tok_connectReply [moves_intro]:
  "moves x (connectReply h n t tok ch rc) (\<lambda>ts. - toks x ts)"
  "moves x (connectFailed n t tok e) (\<lambda>ts. - toks x ts)"
  "moves x (connectOk h n t ch res) (\<lambda>ts. - toks x ts)"
  "moves x (connectUnsubs h n t ch res) (\<lambda>ts. - toks x ts)"
  "moves x (connectDone n t ch res) (\<lambda>ts. - toks x ts)"
  by (auto simp: connectReply_def connectFailed_def connectOk_def connectUnsubs_def connectDone_def toks_map_zero intro!: moves_intro)

lemma tok_connectSubs [moves_intro]:
  "moves x (connectSubs h n t ch res rest) (\<lambda>ts. - toks x ts)"
  by (auto simp: connectSubs_def split: list.split option.splits intro!: moves_intro)

lemma tok_connectFailedClosed [moves_intro]:
  "still x (connectFailedClosed n tok e)"
  "still x (handleRefreshError g)"
  "still x (refreshSend g tok)"
  "still x (deliver_server_pub c n p)"
  by (auto simp: connectFailedClosed_def handleRefreshError_def refreshSend_def deliver_server_pub_def intro!: moves_intro)

lemma tok_refreshReply [moves_intro]:
  "moves x (refreshReply h g r) (\<lambda>ts. - toks x ts)"
  by (auto simp: refreshReply_def intro!: moves_intro)

section \<open>The reader\<close>

lemma tok_server [moves_intro]:
  "moves x (handleServerPublication h c p) (\<lambda>ts. - toks x ts)"
  "moves x (handleServerJoin h c i) (\<lambda>ts. - toks x ts)"
  "moves x (handleServerLeave h c i) (\<lambda>ts. - toks x ts)"
  "moves x (handleServerSub h c sp) (\<lambda>ts. - toks x ts)"
  "moves x (handleServerUnsub h c) (\<lambda>ts. - toks x ts)"
  "moves x (handleMessage m) (\<lambda>ts. - toks x ts)"
  by (auto simp: handleServerPublication_def handleServerJoin_def handleServerLeave_def handleServerSub_def handleServerUnsub_def handleMessage_def intro!: moves_intro)

lemma tok_handlePush [moves_intro]:
  "moves x (handlePush t pu) (\<lambda>ts. - toks x ts)"
  by (auto simp: handlePush_def push_tasks_def unknown_def split: option.split intro!: moves_intro)

lemma moves_sendOn_bind [moves_intro]:
  "(\<And>v. moves x (k v) F) \<Longrightarrow> moves x (State_Monad.bind (sendOn t cmd) k) F"
  by (rule moves_bind[OF tok_nextCmdID(2)])

lemma tok_handlePing [moves_intro]:
  "still x (handlePing t)"
  by (auto simp: handlePing_def intro!: moves_intro)

lemma tok_handleReply [moves_intro]:
  "moves x (handleReply t r) (\<lambda>ts. - toks x ts)"
  by (auto simp: handleReply_def intro!: moves_intro)

lemma tok_handle [moves_intro]:
  "moves x (handle t r) (\<lambda>ts. - toks x ts)"
  "moves x (waitServerPing pw t ch p) (\<lambda>ts. - toks x ts)"
  by (auto simp: handle_def waitServerPing_def intro!: moves_intro)

lemma hands_reader [moves_intro]: "moves x (reader rd t ch) (\<lambda>ts. - toks x ts)"
  by (cases rd)
     (auto simp: reader_def intro!: moves_intro moves_bind_gen[OF tok_handle(1)])

lemma hands_runCallback:
  assumes "safe_reply (cb_kind cb) r"
  shows "moves x (runCallback cb r) (\<lambda>ts. tok_cb x cb - toks x ts) \<or>
    (\<exists>s g a. cb = CbSubscribe s g a \<and> clears x s (runCallback cb r) (\<lambda>ts. tok_sub x s - toks x ts))"
proof (cases cb)
  case (CbSubscribe s g a)
  then have "clears x s (runCallback cb r) (\<lambda>ts. tok_sub x s - toks x ts)"
    by (auto simp: runCallback_def reply_result_def intro!: clears_intro moves_intro split: sum.split option.split)
  with CbSubscribe show ?thesis by blast
next
  case (CbCall k oper)
  have "safe_reply (op_kind oper) r" using assms CbCall by simp
  from moves_bind_gen[OF moves_operationReply[OF this, of x k], of "\<lambda>_. ret []" "\<lambda>ts. tok_call x k - toks x ts"]
  show ?thesis using CbCall by (simp add: runCallback_def moves_return)
qed (auto simp: runCallback_def reply_result_def intro!: moves_intro split: sum.split option.split)

section \<open>The whole client\<close>

text \<open>A task that carries the subscribe of \<open>s\<close> may assume that one is in flight.\<close>

definition carries :: "task \<Rightarrow> sid option" where
  "carries t = (case t of
     TCall (RunCallback (CbSubscribe s g a) r) \<Rightarrow> Some s
   | TSub (CallGetState s n i) \<Rightarrow> Some s | TSub (CallGetSubToken s n i) \<Rightarrow> Some s
   | TSub (SendSubscribe s n i tok) \<Rightarrow> Some s
   | _ \<Rightarrow> None)"

lemma carries_token: "carries t = Some s \<Longrightarrow> tok_task (Carrier s) t = 1"
  by (auto simp: carries_def tok_sub_def split: task.splits call_task.splits callback.splits sub_task.splits)

lemma hands_run_connect: "hands x (run_connect a h t) (tok_connect x t)"
  by (cases t) (auto simp: run_connect_def intro!: moves_intro)

lemma hands_run_client: "hands x (run_client a h t) (tok_client x t)"
  by (cases t) (auto simp: run_client_def intro!: moves_intro)

lemma moves_onSubscribe_bind [moves_intro]:
  "(\<And>v. moves x (m v) (\<lambda>u. F u - tok_call x k)) \<Longrightarrow> moves x (State_Monad.bind (onSubscribe s k oper) m) F"
  by (rule moves_bind_gen[OF moves_onSubscribe])

lemma moves_removeEntry_bind [moves_intro]:
  "(\<And>v. moves x (m v) (\<lambda>u. F u - tok_call x k)) \<Longrightarrow> moves x (State_Monad.bind (removeEntry s k) m) F"
  by (rule moves_bind_gen[where G = "\<lambda>_. tok_call x k"]) (auto intro!: moves_intro)

lemma hands_run_call:
  assumes "safe_task (TCall t)" "carries (TCall t) = None"
  shows "hands x (run_call a t) (tok_calltask x t)"
proof (cases t)
  case (RunCallback cb r)
  then show ?thesis
    using hands_runCallback[of cb r x] assms by (auto simp: run_call_def carries_def)
qed (auto simp: run_call_def intro!: moves_intro)

lemma hands_run_sub:
  assumes "carries (TSub t) = None"
  shows "hands x (run_sub a h t) (tok_subtask x t)"
  using assms by (cases t) (auto simp: run_sub_def subscribeAgain_def carries_def intro!: moves_intro)

lemma clears_run_task:
  assumes "safe_task t" "carries t = Some s"
  shows "clears x s (run_task a h t) (\<lambda>ts. tok_task x t - toks x ts)"
proof -
  have snd: "clears x s (do { sendSubscribeNow s n i tok; ret [] }) (\<lambda>ts. tok_sub x s - toks x ts)" for n i tok
    using moves_sendSubscribeNow[of x s n i tok] by (auto simp: clears_def split_beta)
  have cb: "clears x s (runCallback (CbSubscribe s g n) r) (\<lambda>ts. tok_sub x s - toks x ts)"
    if "safe_reply replyResultSubscribe r" for g n r
    using hands_runCallback[of "CbSubscribe s g n" r x] that by (auto intro: clears_moves)
  show ?thesis
    using assms snd cb
    by (auto simp: carries_def run_task_def run_call_def run_sub_def hands_gotState hands_gotSubToken
        split: task.splits call_task.splits callback.splits sub_task.splits)
qed

lemma hands_run_task:
  assumes "safe_task t" "carries t = None"
  shows "hands x (run_task a h t) (tok_task x t)"
  using assms hands_run_connect[of x a h] hands_run_client[of x a h] hands_run_call[of _ x a] hands_run_sub[of _ x a h]
  by (cases t) (auto simp: run_task_def intro!: moves_intro)

section \<open>Steps\<close>

definition conserved :: "world \<Rightarrow> bool" where
  "conserved w \<longleftrightarrow> tidy w \<and> (\<forall>x. token_count x w = 1)"

lemma tok_nonneg: "0 \<le> tok_call x k" "0 \<le> tok_sub x s" "0 \<le> tok_caller x c" "0 \<le> tok_cb x cb"
  by (simp_all add: tok_call_def tok_sub_def tok_caller_def tok_cb_def split: option.split callback.split)

lemma tok_task_nonneg: "0 \<le> tok_task x t"
proof (cases t)
  case (TConnect ct) then show ?thesis by (cases ct) (simp_all add: tok_nonneg)
next
  case (TClient ct) then show ?thesis by (cases ct) (simp_all add: tok_nonneg)
next
  case (TCall ct) then show ?thesis by (cases ct) (simp_all add: tok_nonneg)
next
  case (TSub ct) then show ?thesis by (cases ct) (simp_all add: tok_nonneg)
qed simp_all

lemma counts_nonneg:
  "0 \<le> toks x ts" "0 \<le> in_threads x ths" "0 \<le> in_requests x reqs" "0 \<le> in_lost x cbs"
  "0 \<le> in_futures x futs" "0 \<le> in_subs x heap" "0 \<le> in_answers x rs" "0 \<le> at_rest x w"
proof -
  show t: "0 \<le> toks x ts" for ts by (auto simp: toks_def tok_task_nonneg intro!: sum_list_nonneg)
  show f: "0 \<le> in_futures x futs" for futs by (auto simp: in_futures_def tok_nonneg intro!: sum_list_nonneg)
  show "0 \<le> in_threads x ths" "0 \<le> in_subs x heap"
    using t f by (auto simp: in_threads_def in_subs_def intro!: sum_list_nonneg)
  show "0 \<le> in_requests x reqs" "0 \<le> in_lost x cbs" "0 \<le> in_answers x rs"
    by (auto simp: in_requests_def in_lost_def in_answers_def tok_nonneg intro!: sum_list_nonneg)
  show "0 \<le> at_rest x w" by (simp add: at_rest_def split: token.split)
qed

lemma take_task_count:
  assumes "outcome (take_task i) w = Some (h, t, ts)"
  shows "token_count x w = token_count x (after (take_task i) w) + tok_task x t + toks x ts
    \<and> tidy (after (take_task i) w) = tidy w"
proof -
  obtain "i < length (w_threads w)" and th: "w_threads w ! i = (h, t # ts)"
    using assms by (auto simp: take_task_def split: prod.splits list.splits if_splits)
  then have split: "w_threads w = take i (w_threads w) @ (h, t # ts) # drop (Suc i) (w_threads w)"
    by (metis id_take_nth_drop)
  have "in_threads x (w_threads w) = in_threads x (take i (w_threads w) @ drop (Suc i) (w_threads w))
      + tok_task x t + toks x ts"
    by (subst split) (simp add: in_threads_def)
  then show ?thesis
    using \<open>i < length (w_threads w)\<close> th
    by (auto simp: take_task_def token_count_def at_rest_def sub_at_def split: token.split)
qed

lemma put_tasks_count: "token_count x (after (put_tasks h ts) w) = token_count x w + toks x ts
    \<and> tidy (after (put_tasks h ts) w) = tidy w"
  by (auto simp: put_tasks_def token_count_def in_threads_def at_rest_def sub_at_def split: token.split)

lemma run_task_count:
  assumes "tidy w" "safe_task t" "\<And>s. carries t = Some s \<Longrightarrow> s_inflight (sub_at w s)"
  shows "tidy (after (run_task a h t) w) \<and>
    token_count x (after (run_task a h t) w) + toks x (outcome (run_task a h t) w) = token_count x w + tok_task x t"
proof (cases "carries t")
  case None
  from hands_run_task[OF assms(2) None, of x a h] assms(1) show ?thesis by (simp add: moves_def)
next
  case (Some s)
  from clears_run_task[OF assms(2) Some, of x a h] assms(1) assms(3)[OF Some] show ?thesis
    by (simp add: clears_def)
qed

lemma conserved_thread_step:
  assumes "sound w" "conserved w"
  shows "conserved (after (thread_step a i) w)"
proof (cases "outcome (take_task i) w")
  case None
  then have "after (take_task i) w = w" by (auto simp: take_task_def split: prod.splits list.splits)
  then show ?thesis using assms(2) None by (simp add: thread_step_def split_beta)
next
  case (Some htt)
  obtain h t ts where o: "outcome (take_task i) w = Some (h, t, ts)" using Some by (cases htt) auto
  let ?w = "after (take_task i) w"
  let ?r = "run_task a h t"
  have c: "token_count x ?w + tok_task x t + toks x ts = 1" "tidy ?w" for x
    using take_task_count[OF o, of x] assms(2) by (auto simp: conserved_def)
  have fl: "s_inflight (sub_at ?w s)" if "carries t = Some s" for s
  proof -
    have "token_count (Carrier s) ?w \<le> 0"
      using c(1)[of "Carrier s"] carries_token[OF that] counts_nonneg(1)[of "Carrier s" ts] by linarith
    then have "at_rest (Carrier s) ?w \<le> 0"
      using counts_nonneg(2)[of "Carrier s" "w_threads ?w"] counts_nonneg(3)[of "Carrier s" "c_requests (w_cl ?w)"]
        counts_nonneg(4)[of "Carrier s" "w_lost ?w"] counts_nonneg(5)[of "Carrier s" "c_futures (w_cl ?w)"]
        counts_nonneg(6)[of "Carrier s" "w_heap ?w"] counts_nonneg(7)[of "Carrier s" "w_results ?w"]
        counts_nonneg(7)[of "Carrier s" "w_returns ?w"]
      unfolding token_count_def by linarith
    then show ?thesis by (cases "s_inflight (sub_at ?w s)") (simp_all add: at_rest_def)
  qed
  have "safe_task t" using sound_take_task[OF assms(1), of i] o by blast
  from run_task_count[OF c(2) this fl, of a h]
  have r: "tidy (after ?r ?w)"
    "token_count x (after ?r ?w) + toks x (outcome ?r ?w) = token_count x ?w + tok_task x t" for x
    by blast+
  have "token_count x (after (put_tasks h (outcome ?r ?w @ ts)) (after ?r ?w)) = 1" for x
    using put_tasks_count[of x h "outcome ?r ?w @ ts" "after ?r ?w"] r(2)[of x] c(1)[of x]
    unfolding toks_simps by linarith
  moreover have "tidy (after (put_tasks h (outcome ?r ?w @ ts)) (after ?r ?w))"
    using put_tasks_count r(1) by blast
  ultimately show ?thesis
    using o by (simp add: conserved_def thread_step_def split_beta)
qed

lemma still_fire_timer: "still x (fire_timer n)"
  by (auto simp: fire_timer_def timer_task_def intro!: moves_intro split: timer.split)

lemma still_job_round [moves_intro]: "still x (job_round j)"
  by (cases j) (auto simp: job_round_def deliver_def intro!: moves_intro split: list.split)

lemma still_dispatcher: "still x dispatcher_step"
  unfolding dispatcher_step_def
  by (rule moves_bind, rule moves_gets) (auto split: dispatcher.split prod.split intro!: moves_intro)

text \<open>A new call takes its token from where it rests.\<close>

lemma still_start_call:
  assumes "\<And>k. tok_task x (f k) = tok_call x k"
  shows "still x (start_call h f)"
  using assms
  by (auto simp: moves_def start_call_def token_count_def in_threads_def at_rest_def tok_call_def sub_at_def
      split: token.split)

lemma still_api: "still x (api_step h a)"
  by (cases a) (auto simp: api_step_def onClientEvent_def onSubEvent_def intro!: still_start_call moves_intro)

lemma conserved_still: "(\<And>x. still x m) \<Longrightarrow> conserved w \<Longrightarrow> conserved (after m w)"
  by (auto simp: moves_def conserved_def)

lemma conserved_act: "sound w \<Longrightarrow> conserved w \<Longrightarrow> conserved (after (act x) w)"
  by (cases x)
     (auto simp: act_def intro: conserved_thread_step conserved_still still_fire_timer still_dispatcher still_api)

lemma conserved_init: "client_init w \<Longrightarrow> conserved w"
  by (auto simp: client_init_def initial_world_def newClient_def conserved_def tidy_def futures_ok_def
      gm_keys_def token_count_def in_threads_def in_requests_def in_lost_def in_futures_def in_subs_def
      in_answers_def at_rest_def sub_at_def no_sub_def Let_def split: token.split)

interpretation tokens: safe_system client_init client_step conserved
proof
  show "conserved w" if "client_init w" for w using that by (rule conserved_init)
  show "conserved w'" if "reachable w" "conserved w" "client_step w w'" for w w'
    using that nil_safe.invariant conserved_act by (auto elim!: client_stepE)
qed

section \<open>Properties\<close>

text \<open>Where a call waits, and how often it has been answered.\<close>

definition waiting :: "call \<Rightarrow> world \<Rightarrow> int" where
  "waiting k w = in_threads (CallOf k) (w_threads w) + in_requests (CallOf k) (c_requests (w_cl w))
     + in_futures (CallOf k) (c_futures (w_cl w)) + in_subs (CallOf k) (w_heap w)"

definition answered :: "call \<Rightarrow> world \<Rightarrow> nat" where
  "answered k w = length (filter (\<lambda>r. fst r = k) (w_results w)) + length (filter (\<lambda>r. fst r = k) (w_returns w))"

lemma in_answers_length: "in_answers (CallOf k) rs = int (length (filter (\<lambda>r. fst r = k) rs))"
  by (induction rs) (auto simp: in_answers_def tok_call_def)

text \<open>
  C1: a call of the application (\<open>Connect\<close>, \<open>Disconnect\<close>, \<open>Close\<close>, \<open>Subscribe\<close>, \<open>Unsubscribe\<close>,
  \<open>RPC\<close>, \<open>Publish\<close>, \<open>History\<close>, ...) is answered at most once, and as long as it has no answer it
  waits in exactly one place: a goroutine that still has to run, a pending request, or a future of
  the client or of a subscription. No teardown, timeout, reply or race of them loses a call or
  answers it twice (a request whose id was given out again after \<open>2^32 - 1\<close> commands excepted).
\<close>

theorem call_answered_once:
  assumes "reachable w" "k < w_next_call w" "w_lost w = []"
  shows "waiting k w + int (answered k w) = 1"
proof -
  have "token_count (CallOf k) w = 1" using tokens.invariant[OF assms(1)] by (simp add: conserved_def)
  then show ?thesis
    using assms(2,3)
    by (simp add: token_count_def waiting_def answered_def in_answers_length in_lost_def at_rest_def)
qed

theorem call_answered_once_witness:
  "waiting 1 demo_in_flight = 0 \<and> answered 1 demo_in_flight = 1"
proof -
  have "1 < w_next_call demo_in_flight \<and> w_lost demo_in_flight = [] \<and> answered 1 demo_in_flight = 1"
    using demo_in_flight by (simp add: answered_def)
  then show ?thesis using call_answered_once[OF reachable_demo(2), of 1] by simp
qed

text \<open>
  C8: \<open>inflight\<close> of a subscription is set if and only if exactly one goroutine or pending request
  carries its subscribe, and clear if and only if none does: there are never two subscribes of one
  subscription under way, and the flag never stays set with nobody left to clear it, which would
  keep the subscription from ever subscribing again.
\<close>

theorem one_subscribe_in_flight:
  assumes "reachable w" "w_lost w = []"
  shows "in_threads (Carrier s) (w_threads w) + in_requests (Carrier s) (c_requests (w_cl w))
    = (if s_inflight (sub_at w s) then 1 else 0)"
proof -
  have none: "in_futures (Carrier s) futs = 0" for futs
    by (simp add: in_futures_def tok_call_def)
  have "in_answers (Carrier s) rs = 0" for rs :: "(call \<times> 'a) list" by (simp add: in_answers_def tok_call_def)
  moreover have "in_answers (Carrier s) rs = 0" for rs :: "(call \<times> 'b) list" by (simp add: in_answers_def tok_call_def)
  moreover have "token_count (Carrier s) w = 1" using tokens.invariant[OF assms(1)] by (simp add: conserved_def)
  ultimately show ?thesis
    using assms(2) none
    by (cases "s_inflight (sub_at w s)")
      (simp_all add: token_count_def in_subs_def in_lost_def in_answers_def tok_call_def at_rest_def)
qed

theorem one_subscribe_in_flight_witness:
  "in_requests (Carrier 0) (c_requests (w_cl demo_in_flight)) = 1 \<and> s_inflight (sub_at demo_in_flight 0)"
proof -
  have "w_lost demo_in_flight = [] \<and> in_threads (Carrier 0) (w_threads demo_in_flight) = 0
      \<and> in_requests (Carrier 0) (c_requests (w_cl demo_in_flight)) = 1"
    using demo_in_flight by (simp add: in_threads_def in_requests_def toks_def tok_sub_def)
  then show ?thesis
    using one_subscribe_in_flight[OF reachable_demo(2), of 0] by (simp split: if_splits)
qed

end
