(* ===== verification/ConnMachine.thy ===== *)
theory ConnMachine
  imports Frames
begin

text \<open>
  The connection of a client as a small state machine, and the proof that the whole client, with
  all its goroutines, refines it. What the machine promises then holds of the client: \<open>Close\<close> is
  final, a session generation ends whenever the client leaves the connected state, an attempt
  number never comes back.
\<close>

section \<open>The abstract machine\<close>

type_synonym conn_state = "cstate \<times> bool \<times> tr option \<times> nat \<times> int"

text \<open>
  A state is the client state, the \<open>connected\<close> flag, the current transport, the attempt and the
  session generation.
\<close>

inductive conn_next :: "conn_state \<Rightarrow> conn_state \<Rightarrow> bool" where
  conn_stay: "conn_next c c"
| conn_start: "conn_next (StateDisconnected, False, t, a, g) (StateConnecting, False, t, a, g)"
| conn_attempt: "conn_next (StateConnecting, False, t, a, g) (StateConnecting, False, None, Suc a, g)"
| conn_sent: "conn_next (StateConnecting, False, t, a, g) (StateConnecting, False, Some t', a, g)"
| conn_failed: "conn_next (StateConnecting, False, t, a, g) (StateConnecting, False, None, a, g)"
| conn_established: "conn_next (StateConnecting, False, t, a, g) (StateConnected, True, t, a, g)"
| conn_disconnect: "st = StateConnecting \<or> st = StateConnected
    \<Longrightarrow> conn_next (st, b, t, a, g) (StateDisconnected, False, None, Suc a, g + 1)"
| conn_lost: "conn_next (StateConnected, b, t, a, g) (StateConnecting, False, None, a, g + 1)"
| conn_retry: "conn_next (StateConnecting, False, Some t, a, g) (StateConnecting, False, None, Suc a, g + 1)"
| conn_close: "st \<noteq> StateClosed \<Longrightarrow> conn_next (st, b, t, a, g) (StateClosed, False, None, Suc a, g + 1)"

definition conn_init :: "conn_state \<Rightarrow> bool" where
  "conn_init c \<longleftrightarrow> c = (StateDisconnected, False, None, 0, 0)"

text \<open>The flag mirrors the state, and without a connection there is no transport.\<close>

definition conn_inv :: "conn_state \<Rightarrow> bool" where
  "conn_inv c = (case c of (st, b, t, a, g) \<Rightarrow>
     (b \<longleftrightarrow> st = StateConnected) \<and> (st = StateDisconnected \<or> st = StateClosed \<longrightarrow> t = None))"

lemma conn_inv_next: "conn_next c c' \<Longrightarrow> conn_inv c \<Longrightarrow> conn_inv c'"
  by (induction rule: conn_next.induct) (auto simp: conn_inv_def)

interpretation conn_machine: safe_system conn_init conn_next conn_inv
proof
  show "conn_inv c" if "conn_init c" for c using that by (simp add: conn_init_def conn_inv_def)
  show "conn_inv t" if "reach conn_init conn_next s" "conn_inv s" "conn_next s t" for s t
    using that conn_inv_next by blast
qed

text \<open>What one step of the machine can do.\<close>

lemma conn_closed_final: "conn_next c c' \<Longrightarrow> fst c = StateClosed \<Longrightarrow> c' = c"
  by (induction rule: conn_next.induct) auto

lemma conn_numbers:
  "conn_next (st, b, t, a, g) (st', b', t', a', g')
    \<Longrightarrow> a \<le> a' \<and> g \<le> g' \<and> (st = StateConnected \<and> st' \<noteq> StateConnected \<longrightarrow> g < g')
      \<and> (st' = StateConnected \<and> st \<noteq> StateConnected \<longrightarrow> st = StateConnecting \<and> a' = a \<and> g' = g)"
  by (cases rule: conn_next.cases) auto

lemma conn_parts [simp]:
  "fst (conn w) = c_state (w_cl w)" "fst (snd (snd (conn w))) = c_transport (w_cl w)"
  by (simp_all add: conn_def)

section \<open>What the transitions of the code do to the connection\<close>

text \<open>\<open>conn_does m F\<close>: whatever the state, \<open>m\<close> changes the connection by \<open>F\<close>.\<close>

definition conn_does :: "'a op \<Rightarrow> (conn_state \<Rightarrow> conn_state) \<Rightarrow> bool" where
  "conn_does m F \<longleftrightarrow> (\<forall>w. conn (after m w) = F (conn w))"

lemma does_keeps: "keeps conn m \<Longrightarrow> conn_does m (\<lambda>c. c)"
  by (simp add: keeps_def conn_does_def)

lemma does_bind:
  "conn_does m F \<Longrightarrow> (\<And>x. conn_does (k x) G) \<Longrightarrow> conn_does (State_Monad.bind m k) (\<lambda>c. G (F c))"
  by (simp add: conn_does_def split_beta)

lemma does_after_keeps:
  "keeps conn m \<Longrightarrow> (\<And>x. conn_does (k x) G) \<Longrightarrow> conn_does (State_Monad.bind m k) G"
  by (simp add: conn_does_def keeps_def split_beta)

lemma does_before_keeps:
  "conn_does m F \<Longrightarrow> (\<And>x. keeps conn (k x)) \<Longrightarrow> conn_does (State_Monad.bind m k) F"
  by (simp add: conn_does_def keeps_def split_beta)

lemma does_setState: "conn_does (setStateLocked st) (\<lambda>(_, _, t, a, g). (st, st = StateConnected, t, a, g))"
  by (simp add: conn_does_def setStateLocked_def modc_def conn_def)

lemma does_setTransport: "conn_does (setTransportLocked t) (\<lambda>(st, b, _, a, g). (st, b, t, a, g))"
  by (simp add: conn_does_def setTransportLocked_def modc_def conn_def)

lemma does_bump:
  "conn_does (modc (\<lambda>c. c\<lparr>c_attempt := Suc (c_attempt c)\<rparr>)) (\<lambda>(st, b, t, a, g). (st, b, t, Suc a, g))"
  by (simp add: conn_does_def modc_def conn_def)

lemma does_drop_transport: "conn_does drop_transport (\<lambda>(st, b, _, a, g). (st, b, None, a, g))"
proof -
  have "conn (after (close_transport t) w) = conn w" for t w
    by (rule keepsD) (rule keeps_intro)
  then show ?thesis
    using does_setTransport[of None]
    by (auto simp: conn_does_def drop_transport_def split_beta conn_def split: option.split)
qed

lemma does_clear: "conn_does clearConnectedState (\<lambda>(st, b, t, a, g). (st, b, t, a, g + 1))"
proof -
  have 1: "conn_does (modc (\<lambda>c. c\<lparr>c_generation := c_generation c + 1, c_subs_by_id := []\<rparr>))
      (\<lambda>(st, b, t, a, g). (st, b, t, a, g + 1))"
    by (simp add: conn_does_def modc_def conn_def)
  show ?thesis
    unfolding clearConnectedState_def
    by (rule does_before_keeps[OF 1]) (auto intro!: keeps_intro)
qed

lemma does_disconnect:
  "conn_does (disconnect_now code reason) (\<lambda>(st, b, t, a, g). (StateDisconnected, False, None, Suc a, g + 1))"
proof -
  have "conn_does (disconnect_now code reason)
      (\<lambda>c. (\<lambda>(st, b, t, a, g). (st, b, t, a, g + 1))
        ((\<lambda>(_, _, t, a, g). (StateDisconnected, StateDisconnected = StateConnected, t, a, g))
          ((\<lambda>(st, b, _, a, g). (st, b, None, a, g)) ((\<lambda>(st, b, t, a, g). (st, b, t, Suc a, g)) c))))"
    unfolding disconnect_now_def
    by (intro does_bind[OF does_bump] does_bind[OF does_drop_transport] does_bind[OF does_setState]
        does_after_keeps[OF keeps_gets] does_before_keeps[OF does_clear])
       (auto intro!: keeps_intro)
  then show ?thesis by (simp add: conn_does_def split_beta)
qed

lemma does_reconnect:
  "conn_does (reconnect_now h code reason) (\<lambda>(st, b, t, a, g). (StateConnecting, False, None, a, g + 1))"
proof -
  have "conn_does (reconnect_now h code reason)
      (\<lambda>c. (\<lambda>(st, b, t, a, g). (st, b, t, a, g + 1))
        ((\<lambda>(_, _, t, a, g). (StateConnecting, StateConnecting = StateConnected, t, a, g))
          ((\<lambda>(st, b, _, a, g). (st, b, None, a, g)) c)))"
    unfolding reconnect_now_def
    by (intro does_bind[OF does_drop_transport] does_bind[OF does_setState]
        does_after_keeps[OF keeps_gets] does_before_keeps[OF does_clear])
       (auto intro!: keeps_intro)
  then show ?thesis by (simp add: conn_does_def split_beta)
qed

lemma does_retry:
  "conn_does (retry_connecting t') (\<lambda>(st, b, t, a, g). (st, b, None, Suc a, g + 1))"
proof -
  have "conn_does (retry_connecting t')
      (\<lambda>c. (\<lambda>(st, b, t, a, g). (st, b, t, a, g + 1))
        ((\<lambda>(st, b, _, a, g). (st, b, None, a, g)) ((\<lambda>(st, b, t, a, g). (st, b, t, Suc a, g)) c)))"
    unfolding retry_connecting_def
    by (intro does_bind[OF does_bump] does_bind[OF does_setTransport] does_before_keeps[OF does_clear]
        does_after_keeps[of "close_transport t'"])
       (auto intro!: keeps_intro)
  then show ?thesis by (simp add: conn_does_def split_beta)
qed

lemma does_close: "conn_does close_now (\<lambda>(st, b, t, a, g). (StateClosed, False, None, Suc a, g + 1))"
proof -
  have "conn_does close_now
    (\<lambda>c. (\<lambda>(st, b, t, a, g). (st, b, t, a, g + 1)) ((\<lambda>(st, b, _, a, g). (st, b, None, a, g))
      ((\<lambda>(st, b, t, a, g). (st, b, t, Suc a, g))
        ((\<lambda>(_, _, t, a, g). (StateClosed, StateClosed = StateConnected, t, a, g)) c))))"
    unfolding close_now_def
    by (intro does_bind[OF does_setState] does_bind[OF does_bump] does_bind[OF does_drop_transport]
        does_before_keeps[OF does_clear]) (auto intro!: keeps_intro)
  then show ?thesis by (simp add: conn_does_def split_beta)
qed

section \<open>Operations that make a legal transition\<close>

text \<open>
  \<open>conn_ok P m\<close>: from a state that satisfies the invariant and \<open>P\<close>, \<open>m\<close> makes one transition of the
  machine. What a goroutine reads of the connection under the lock becomes part of \<open>P\<close>.
\<close>

definition conn_ok :: "(conn_state \<Rightarrow> bool) \<Rightarrow> 'a op \<Rightarrow> bool" where
  "conn_ok P m \<longleftrightarrow> (\<forall>w. conn_inv (conn w) \<and> P (conn w) \<longrightarrow> conn_next (conn w) (conn (after m w)))"

named_theorems ok_intro \<open>rules for legal transitions\<close>

lemma ok_keeps: "keeps conn m \<Longrightarrow> conn_ok P m"
  by (simp add: conn_ok_def keeps_def conn_stay)

lemma ok_after_keeps:
  assumes "keeps conn m" "\<And>x. conn_ok P (k x)"
  shows "conn_ok P (State_Monad.bind m k)"
  unfolding conn_ok_def after_bind
proof (intro allI impI)
  fix w assume "conn_inv (conn w) \<and> P (conn w)"
  moreover have "conn (after m w) = conn w" by (rule keepsD[OF assms(1)])
  ultimately show "conn_next (conn w) (conn (after (k (outcome m w)) (after m w)))"
    using assms(2)[of "outcome m w"] by (metis conn_ok_def)
qed

lemma ok_before_keeps:
  "conn_ok P m \<Longrightarrow> (\<And>x. keeps conn (k x)) \<Longrightarrow> conn_ok P (State_Monad.bind m k)"
  by (simp add: conn_ok_def keeps_def split_beta)

lemma ok_does:
  "conn_does m F \<Longrightarrow> (\<And>c. conn_inv c \<Longrightarrow> P c \<Longrightarrow> conn_next c (F c)) \<Longrightarrow> conn_ok P m"
  by (simp add: conn_ok_def conn_does_def)

lemma ok_state [ok_intro]:
  "(\<And>st. conn_ok (\<lambda>c. P c \<and> fst c = st) (k st)) \<Longrightarrow> conn_ok P (State_Monad.bind (getc c_state) k)"
  by (simp add: conn_ok_def conn_def)

lemma ok_transport [ok_intro]:
  "(\<And>t. conn_ok (\<lambda>c. P c \<and> fst (snd (snd c)) = t) (k t))
    \<Longrightarrow> conn_ok P (State_Monad.bind (getc c_transport) k)"
  by (simp add: conn_ok_def conn_def)

lemma ok_current [ok_intro]:
  assumes "conn_ok (\<lambda>c. P c \<and> fst c = StateConnecting) (k True)" "conn_ok P (k False)"
  shows "conn_ok P (State_Monad.bind (isCurrentAttemptLocked n) k)"
  unfolding conn_ok_def
proof (intro allI impI)
  fix w assume w: "conn_inv (conn w) \<and> P (conn w)"
  show "conn_next (conn w) (conn (after (State_Monad.bind (isCurrentAttemptLocked n) k) w))"
  proof (cases "c_state (w_cl w) = StateConnecting \<and> c_attempt (w_cl w) = n")
    case True
    then have "fst (conn w) = StateConnecting" by (simp add: conn_def)
    with w True assms(1) show ?thesis by (simp add: conn_ok_def isCurrentAttemptLocked_def)
  next
    case False
    then have *: "(c_state (w_cl w) = StateConnecting \<and> c_attempt (w_cl w) = n) = False" by simp
    show ?thesis using w assms(2) by (simp add: conn_ok_def isCurrentAttemptLocked_def *)
  qed
qed

lemma ok_if [ok_intro]:
  "(b \<Longrightarrow> conn_ok P m) \<Longrightarrow> (\<not> b \<Longrightarrow> conn_ok P n) \<Longrightarrow> conn_ok P (if b then m else n)"
  by simp

lemma ok_option [ok_intro]:
  "(x = None \<Longrightarrow> conn_ok P m) \<Longrightarrow> (\<And>y. x = Some y \<Longrightarrow> conn_ok P (n y))
    \<Longrightarrow> conn_ok P (case x of None \<Rightarrow> m | Some y \<Rightarrow> n y)"
  by (cases x) auto

lemma ok_sum [ok_intro]:
  "(\<And>y. x = Inl y \<Longrightarrow> conn_ok P (m y)) \<Longrightarrow> (\<And>y. x = Inr y \<Longrightarrow> conn_ok P (n y))
    \<Longrightarrow> conn_ok P (case x of Inl y \<Rightarrow> m y | Inr y \<Rightarrow> n y)"
  by (cases x) auto


section \<open>The operations of the client\<close>

lemma ok_moveToDisconnectedIf: "conn_ok P (moveToDisconnectedIf current code reason)"
proof -
  have "conn_ok (\<lambda>c. fst c = StateConnecting \<or> fst c = StateConnected) (disconnect_now code reason)"
    by (rule ok_does[OF does_disconnect]) (auto intro: conn_disconnect)
  then have "conn_next (conn w) (conn (after (disconnect_now code reason) w))"
    if "conn_inv (conn w)" "c_state (w_cl w) \<noteq> StateDisconnected" "c_state (w_cl w) \<noteq> StateClosed" for w
    using that unfolding conn_ok_def by (cases "c_state (w_cl w)") simp_all
  then show ?thesis
    by (auto simp: conn_ok_def moveToDisconnectedIf_def split_beta intro: conn_stay)
qed

lemma ok_disconnects:
  "conn_ok P (moveToDisconnected c r)" "conn_ok P (moveToDisconnectedFrom t c r)"
  unfolding moveToDisconnected_def moveToDisconnectedFrom_def by (rule ok_moveToDisconnectedIf)+

lemma ok_moveToConnectingFrom: "conn_ok (\<lambda>_. True) (moveToConnectingFrom h t code reason)"
proof -
  have 1: "conn_ok (\<lambda>c. fst c = StateConnecting \<and> fst (snd (snd c)) = Some t') (retry_connecting t')" for t'
    by (rule ok_does[OF does_retry]) (auto simp: conn_inv_def intro: conn_retry)
  have 2: "conn_ok (\<lambda>c. fst c = StateConnected) (reconnect_now h code reason)"
    by (rule ok_does[OF does_reconnect]) (auto intro: conn_lost)
  show ?thesis
    unfolding conn_ok_def
  proof (intro allI impI)
    fix w assume w: "conn_inv (conn w) \<and> True"
    have r: "conn_next (conn w) (conn (after (retry_connecting t') w))"
      if "c_state (w_cl w) = StateConnecting" "c_transport (w_cl w) = Some t'" for t'
      using w 1[of t'] that by (simp add: conn_ok_def)
    have c: "conn_next (conn w) (conn (after (reconnect_now h code reason) w))"
      if "c_state (w_cl w) = StateConnected"
      using w 2 that by (simp add: conn_ok_def)
    show "conn_next (conn w) (conn (after (moveToConnectingFrom h t code reason) w))"
      using r c
      by (cases "c_state (w_cl w)"; cases t) (auto simp: moveToConnectingFrom_def split_beta intro: conn_stay)
  qed
qed

lemma ok_closeCall: "conn_ok (\<lambda>_. True) (closeCall k)"
proof -
  have 1: "st \<noteq> StateClosed \<Longrightarrow> conn_ok (\<lambda>c. True \<and> fst c = st) close_now" for st
    by (rule ok_does[OF does_close]) (auto intro: conn_close)
  show ?thesis
    unfolding closeCall_def
    by (intro ok_state ok_if ok_before_keeps[OF 1]) (auto intro!: keeps_intro intro: ok_keeps)
qed

lemma ok_connFailedClosed: "conn_ok P (connectFailedClosed n tok e)"
  unfolding connectFailedClosed_def
  by (intro ok_if ok_option ok_keeps ok_before_keeps[OF ok_moveToDisconnectedIf]) (auto intro!: keeps_intro)

lemma ok_refresh:
  "conn_ok P (disconnect_refresh g c r)" "conn_ok P (gotRefreshToken h g tk)" "conn_ok P (refreshReply h g x)"
proof -
  show d: "conn_ok P (disconnect_refresh g c r)" for P c r
    unfolding disconnect_refresh_def by (rule ok_before_keeps[OF ok_moveToDisconnectedIf]) (rule keeps_intro)
  show "conn_ok P (gotRefreshToken h g tk)"
    unfolding gotRefreshToken_def
    by (intro ok_after_keeps[of "isConnRefreshCurrent g"] ok_if ok_sum ok_before_keeps[OF d] ok_keeps)
       (auto intro!: keeps_intro)
  show "conn_ok P (refreshReply h g x)"
    unfolding refreshReply_def
    by (intro ok_after_keeps[of "isConnRefreshCurrent g"] ok_if ok_sum ok_option ok_before_keeps[OF d] ok_keeps)
       (auto intro!: keeps_intro)
qed

lemma ok_gotConnectToken: "conn_ok P (gotConnectToken h n r k res)"
  unfolding gotConnectToken_def
  by (intro ok_sum ok_if ok_after_keeps[OF keeps_gets] ok_before_keeps[OF ok_moveToDisconnectedIf] ok_keeps)
     (auto intro!: keeps_intro)

lemma ok_startConnecting: "conn_ok (\<lambda>_. True) (startConnecting h k)"
proof -
  have "conn_ok (\<lambda>c. fst c = StateDisconnected) (setStateLocked StateConnecting)"
    by (rule ok_does[OF does_setState]) (auto simp: conn_inv_def intro: conn_start)
  then have 1: "st \<noteq> StateClosed \<Longrightarrow> \<not> (st = StateConnected \<or> st = StateConnecting)
      \<Longrightarrow> conn_ok (\<lambda>c. True \<and> fst c = st) (setStateLocked StateConnecting)" for st
    by (cases st) simp_all
  show ?thesis
    unfolding startConnecting_def
    by (intro ok_state ok_if ok_after_keeps[OF keeps_gets] ok_after_keeps[of "when_do _ _"]
        ok_before_keeps[OF 1]) (auto intro!: keeps_intro intro: ok_keeps)
qed

lemma ok_startReconnectingIf: "conn_ok (\<lambda>_. True) (startReconnectingIf ex k)"
proof -
  have 1: "conn_does (do { modc (\<lambda>c. c\<lparr>c_attempt := Suc (c_attempt c)\<rparr>); attempt \<leftarrow> getc c_attempt;
      drop_transport; ret [TConnect (ConnectToken attempt r k)] })
    (\<lambda>c. (\<lambda>(st, b, _, a, g). (st, b, None, a, g)) ((\<lambda>(st, b, t, a, g). (st, b, t, Suc a, g)) c))" for r
    by (intro does_bind[OF does_bump] does_after_keeps[OF keeps_gets] does_before_keeps[OF does_drop_transport])
       (rule keeps_intro)
  have 2: "conn_ok (\<lambda>c. True \<and> fst c = st) (do { modc (\<lambda>c. c\<lparr>c_attempt := Suc (c_attempt c)\<rparr>);
      attempt \<leftarrow> getc c_attempt; drop_transport; ret [TConnect (ConnectToken attempt r k)] })"
    if "\<not> (st \<noteq> StateConnecting \<or> b)" for r st b
    by (rule ok_does[OF 1]) (use that in \<open>auto simp: conn_inv_def intro: conn_attempt\<close>)
  show ?thesis
    unfolding startReconnectingIf_def
    by (rule ok_after_keeps, (auto intro!: keeps_intro)[1])
       (intro ok_after_keeps[OF keeps_gets] ok_state ok_if 2, auto intro!: keeps_intro intro: ok_keeps)
qed

lemma ok_dialed: "conn_ok (\<lambda>_. True) (dialed h n t k)"
proof -
  have 1: "conn_ok (\<lambda>c. fst c = StateConnecting) (setTransportLocked (Some t))"
    by (rule ok_does[OF does_setTransport]) (auto simp: conn_inv_def intro: conn_sent)
  show ?thesis
    unfolding dialed_def
    by (rule ok_current)
       (auto intro!: ok_after_keeps[of "modc _"] ok_after_keeps[of "gets _"] ok_after_keeps[of fresh]
         ok_after_keeps[of "spawn _"] ok_after_keeps[of "sendConnect _ _"] ok_option
         ok_before_keeps[OF 1] keeps_intro intro: ok_keeps)
qed

lemma ok_connectFailed: "conn_ok (\<lambda>_. True) (connectFailed n t tok e)"
proof -
  have 1: "conn_ok (\<lambda>c. fst c = StateConnecting) (setTransportLocked None)"
    by (rule ok_does[OF does_setTransport]) (auto simp: conn_inv_def intro: conn_failed)
  show ?thesis
    unfolding connectFailed_def
    by (rule ok_current) (auto intro!: ok_before_keeps[OF 1] keeps_intro intro: ok_keeps)
qed

lemma ok_connectOk: "conn_ok (\<lambda>_. True) (connectOk h n t ch res)"
proof -
  have 1: "conn_ok (\<lambda>c. fst c = StateConnecting) (setStateLocked StateConnected)"
    by (rule ok_does[OF does_setState]) (auto simp: conn_inv_def intro: conn_established)
  show ?thesis
    unfolding connectOk_def
    by (rule ok_current) (auto intro!: ok_before_keeps[OF 1] keeps_intro intro: ok_keeps)
qed


section \<open>The client refines the machine\<close>

lemma ok_run_connect: "conn_ok (\<lambda>_. True) (run_connect a h t)"
  using ok_startConnecting ok_startReconnectingIf ok_gotConnectToken ok_dialed ok_connectFailed
    ok_connFailedClosed ok_connectOk
  by (cases t) (auto simp: run_connect_def intro!: ok_keeps keeps_intro ok_before_keeps[OF ok_connFailedClosed])

lemma ok_run_client: "conn_ok (\<lambda>_. True) (run_client a h t)"
  using ok_moveToConnectingFrom ok_closeCall ok_refresh
  by (cases t) (auto simp: run_client_def intro!: keeps_intro ok_before_keeps[OF ok_disconnects(1)]
      ok_before_keeps[OF ok_disconnects(2)] intro: ok_keeps)

lemma ok_run_task: "conn_ok (\<lambda>_. True) (run_task a h t)"
  using ok_run_connect ok_run_client
  by (cases t) (auto simp: run_task_def intro!: ok_keeps keeps_intro)

lemma ok_act: "conn_ok (\<lambda>_. True) (act x)"
proof (cases x)
  case (ThreadStep a i)
  have "conn_ok (\<lambda>_. True) (thread_step a i)"
    unfolding thread_step_def
    by (rule ok_after_keeps, rule keeps_intro)
       (auto intro!: ok_option ok_before_keeps[OF ok_run_task] keeps_intro intro: ok_keeps)
  with ThreadStep show ?thesis by (simp add: act_def)
qed (auto simp: act_def intro!: ok_keeps keeps_intro)

lemma conn_initial: "client_init w \<Longrightarrow> conn_init (conn w)"
  by (auto simp: client_init_def initial_world_def newClient_def conn_def conn_init_def Let_def)

text \<open>
  A simulation: every step of the concrete system is a step of the abstract one, under the
  abstraction function. The abstract invariant may be used to prove it.
\<close>

locale simulation =
  spec: safe_system ainit astep J
  for ainit :: "'a \<Rightarrow> bool" and astep :: "'a \<Rightarrow> 'a \<Rightarrow> bool" and J :: "'a \<Rightarrow> bool" +
  fixes cinit :: "'c \<Rightarrow> bool" and cstep :: "'c \<Rightarrow> 'c \<Rightarrow> bool" and abs :: "'c \<Rightarrow> 'a"
  assumes sim_init: "cinit s \<Longrightarrow> ainit (abs s)"
    and sim_step: "J (abs s) \<Longrightarrow> cstep s t \<Longrightarrow> astep (abs s) (abs t)"
begin

lemma sim_reach: "reach cinit cstep s \<Longrightarrow> reach ainit astep (abs s)"
proof (induction rule: reach.induct)
  case (reach_init s)
  then show ?case by (simp add: sim_init reach.reach_init)
next
  case (reach_step s t)
  then have "astep (abs s) (abs t)" by (intro sim_step spec.invariant)
  with reach_step.IH show ?case by (rule reach.reach_step)
qed

lemma sim_inv: "reach cinit cstep s \<Longrightarrow> J (abs s)"
  using sim_reach by (rule spec.invariant)

lemma sim_next: "reach cinit cstep s \<Longrightarrow> cstep s t \<Longrightarrow> astep (abs s) (abs t)"
  using sim_inv sim_step by blast

text \<open>Every run is a run of the abstract system, and stays reachable.\<close>

lemma sim_run:
  "cstep\<^sup>*\<^sup>* s t \<Longrightarrow> reach cinit cstep s \<Longrightarrow> astep\<^sup>*\<^sup>* (abs s) (abs t) \<and> reach cinit cstep t"
proof (induction rule: rtranclp_induct)
  case (step t u)
  then have "astep (abs t) (abs u)" using sim_next by blast
  with step show ?case by (auto intro: rtranclp.rtrancl_into_rtrancl reach.reach_step)
qed simp

end

interpretation conn_sim: simulation conn_init conn_next conn_inv client_init client_step conn
proof
  show "conn_init (conn w)" if "client_init w" for w using that by (rule conn_initial)
  show "conn_next (conn w) (conn w')" if "conn_inv (conn w)" "client_step w w'" for w w'
    using that ok_act by (auto simp: conn_ok_def elim: client_stepE)
qed

lemmas conn_refines = conn_sim.sim_reach and conn_reachable = conn_sim.sim_inv
  and conn_step_next = conn_sim.sim_next and conn_run = conn_sim.sim_run

end
