(* ===== verification/Connection.thy ===== *)
theory Connection
  imports ConnMachine Demo
begin

text \<open>
  What the connection machine means for the client: every step is a legal transition, and a session
  generation names one uninterrupted connection.
\<close>

section \<open>Sessions of the machine\<close>

abbreviation conn_gen :: "conn_state \<Rightarrow> int" where
  "conn_gen c \<equiv> snd (snd (snd (snd c)))"

lemma conn_gen_of [simp]: "conn_gen (conn w) = c_generation (w_cl w)"
  by (simp add: conn_def)

lemma conn_leaves: "conn_next c d \<Longrightarrow> fst c = StateConnected \<Longrightarrow> d = c \<or> conn_gen c < conn_gen d"
  by (induction rule: conn_next.induct) auto

lemma conn_gen_mono: "conn_next c d \<Longrightarrow> conn_gen c \<le> conn_gen d"
  by (induction rule: conn_next.induct) auto

lemma conn_session: "conn_next\<^sup>*\<^sup>* c d \<Longrightarrow> fst c = StateConnected \<Longrightarrow> d = c \<or> conn_gen c < conn_gen d"
proof (induction rule: rtranclp_induct)
  case (step d e)
  from step.IH[OF step.prems] show ?case
  proof
    assume "d = c"
    with step.hyps(2) step.prems show ?thesis by (simp add: conn_leaves)
  next
    assume "conn_gen c < conn_gen d"
    with conn_gen_mono[OF step.hyps(2)] show ?thesis by linarith
  qed
qed simp

lemma conn_gens_mono: "conn_next\<^sup>*\<^sup>* c d \<Longrightarrow> conn_gen c \<le> conn_gen d"
  by (induction rule: rtranclp_induct) (auto dest: conn_gen_mono)

lemma conn_closed_run: "conn_next\<^sup>*\<^sup>* c d \<Longrightarrow> fst c = StateClosed \<Longrightarrow> d = c"
  by (induction rule: rtranclp_induct) (auto dest: conn_closed_final)

section \<open>Properties\<close>

text \<open>
  C9: the client refines the connection machine: whatever goroutine runs next, with whatever the
  network, the server and the application do, the client state, the connected flag, the current
  transport, the attempt number and the session generation together make a transition of the
  machine (or stay), from a state in which the flag mirrors the state and a client that is neither
  connecting nor connected has no transport.
\<close>

theorem connection_refines:
  assumes "reachable w" "client_step w w'"
  shows "conn_next (conn w) (conn w') \<and> conn_inv (conn w) \<and> conn_inv (conn w')"
  using conn_step_next[OF assms] conn_reachable[OF assms(1)] conn_inv_next by blast

theorem connection_refines_witness:
  "conn_next (conn demo_connected) (conn (after (act Dispatcher) demo_connected))
    \<and> conn_inv (conn demo_connected) \<and> conn_inv (conn (after (act Dispatcher) demo_connected))"
  by (rule connection_refines[OF reachable_demo(1) step_act]) (simp add: allowed_def)

text \<open>
  C15: a session generation names one uninterrupted connection: if the client was connected and
  later has the same generation, then all the time in between it was connected on the same
  transport, with the same attempt. A callback that compares the generation it captured while
  connected with the current one therefore acts only on the connection it belongs to.
\<close>

theorem generation_is_session:
  assumes "reachable w" "c_state (w_cl w) = StateConnected"
    and "client_step\<^sup>*\<^sup>* w u" "client_step\<^sup>*\<^sup>* u w'"
    and "c_generation (w_cl w') = c_generation (w_cl w)"
  shows "c_state (w_cl u) = StateConnected \<and> c_transport (w_cl u) = c_transport (w_cl w)
    \<and> c_attempt (w_cl u) = c_attempt (w_cl w)"
proof -
  have 1: "conn_next\<^sup>*\<^sup>* (conn w) (conn u)" "reachable u" using conn_run[OF assms(3,1)] by auto
  have "conn_next\<^sup>*\<^sup>* (conn u) (conn w')" using conn_run[OF assms(4) 1(2)] by auto
  then have "conn_gen (conn u) \<le> conn_gen (conn w)" using conn_gens_mono assms(5) by fastforce
  with conn_session[OF 1(1)] assms(2) have "conn u = conn w" by auto
  then show ?thesis using assms(2) by (simp add: conn_def)
qed

theorem generation_is_session_witness:
  "c_state (w_cl demo_in_flight) = StateConnected
    \<and> c_transport (w_cl demo_in_flight) = c_transport (w_cl demo_connected)
    \<and> c_attempt (w_cl demo_in_flight) = c_attempt (w_cl demo_connected)"
proof -
  have "c_state (w_cl demo_connected) = StateConnected"
    "c_generation (w_cl demo_live) = c_generation (w_cl demo_connected)"
    using demo_connected demo_live by simp_all
  then show ?thesis using generation_is_session[OF reachable_demo(1) _ demo_steps] by simp
qed

end
