(* ===== verification/Known.thy ===== *)
theory Known
  imports NoPanic Frames ConnMachine
begin

text \<open>
  The references inside the client are good. Every \<open>*Subscription\<close> that a goroutine, a pending
  request, a timer, a queued closure or a registry refers to was made by \<open>NewSubscription\<close>, and a
  subscribe that is under way carries the generation of a connection that was established: if it
  is the current generation, the client is connected now.
\<close>

section \<open>Values and keys of maps\<close>

lemma put_vals: "x \<in> set (gm_vals (gm_put k v m)) \<Longrightarrow> x = v \<or> x \<in> set (gm_vals m)"
  by (auto simp: gm_vals_def dest: gm_put_mem)

lemma del_vals: "x \<in> set (gm_vals (gm_del k m)) \<Longrightarrow> x \<in> set (gm_vals m)"
  by (auto simp: gm_vals_def gm_del_mem)

lemma put_keys: "x \<in> set (gm_keys (gm_put k v m)) \<longleftrightarrow> x = k \<or> x \<in> set (gm_keys m)"
  by (auto simp: gm_keys_get)

lemma nil_vals [simp]: "gm_vals [] = []" "gm_keys [] = []"
  by (simp_all add: gm_vals_def gm_keys_def)

section \<open>What tasks refer to\<close>

definition sub_sid :: "sub_task \<Rightarrow> sid" where
  "sub_sid t = (case t of
     SubscribeCall s _ \<Rightarrow> s | SubscribeRegistered s _ \<Rightarrow> s | SubscribeStart s _ \<Rightarrow> s
   | SubscribeConnected s _ \<Rightarrow> s | UnsubscribeCall s _ \<Rightarrow> s | Unsubscribe s _ \<Rightarrow> s | RemoveCall s _ \<Rightarrow> s
   | RemoveEntry s _ \<Rightarrow> s | Resubscribe s \<Rightarrow> s | GetState s \<Rightarrow> s | CallGetState s _ _ \<Rightarrow> s
   | GetStateFailed s _ \<Rightarrow> s | ContinueResubscribe s _ \<Rightarrow> s | CallGetSubToken s _ _ \<Rightarrow> s
   | SendSubscribe s _ _ _ \<Rightarrow> s | SubscribeError s _ _ _ \<Rightarrow> s | SubscribeUnrecoverable s _ _ \<Rightarrow> s
   | SubscribeErrorReported s _ _ _ \<Rightarrow> s | MoveToSubscribed s _ _ _ \<Rightarrow> s | DeltaFailed s _ _ \<Rightarrow> s
   | EmitError s _ \<Rightarrow> s | HandlePublication s _ \<Rightarrow> s | HandleJoin s _ \<Rightarrow> s | HandleLeave s _ \<Rightarrow> s
   | HandleUnsubscribe s _ \<Rightarrow> s | MoveToSubscribing s _ _ \<Rightarrow> s | MoveToUnsubscribed s _ _ \<Rightarrow> s
   | InvalidateState s \<Rightarrow> s | SubRefresh s _ \<Rightarrow> s | CallGetSubTokenRefresh s _ _ \<Rightarrow> s
   | SubRefreshSend s _ _ _ \<Rightarrow> s | SubRefreshReply s _ _ _ \<Rightarrow> s | SubRefreshWrite s _ _ _ \<Rightarrow> s
   | SubRefreshArm s _ _ \<Rightarrow> s | SubRefreshFatal s _ _ _ _ \<Rightarrow> s)"

definition fit_cb :: "(sid \<Rightarrow> bool) \<Rightarrow> (int \<Rightarrow> bool) \<Rightarrow> callback \<Rightarrow> bool" where
  "fit_cb K E cb = (case cb of CbSubscribe s g a \<Rightarrow> K s \<and> E g | CbSubRefresh s n i \<Rightarrow> K s | _ \<Rightarrow> True)"

definition fit_call :: "(sid \<Rightarrow> bool) \<Rightarrow> (int \<Rightarrow> bool) \<Rightarrow> call_task \<Rightarrow> bool" where
  "fit_call K E t = (case t of
     RunCallback cb x \<Rightarrow> fit_cb K E cb
   | SubCall s k oper \<Rightarrow> K s | OnSubscribe s k oper \<Rightarrow> K s
   | RunSubOperation s k oper e \<Rightarrow> K s | SubFutureTimeout s i \<Rightarrow> K s
   | _ \<Rightarrow> True)"

definition fit_sub :: "(sid \<Rightarrow> bool) \<Rightarrow> (int \<Rightarrow> bool) \<Rightarrow> sub_task \<Rightarrow> bool" where
  "fit_sub K E t \<longleftrightarrow> K (sub_sid t) \<and> (case t of MoveToSubscribed s res g a \<Rightarrow> E g | _ \<Rightarrow> True)"

definition fit_task :: "(sid \<Rightarrow> bool) \<Rightarrow> (int \<Rightarrow> bool) \<Rightarrow> task \<Rightarrow> bool" where
  "fit_task K E t = (case t of TSub t \<Rightarrow> fit_sub K E t | TCall t \<Rightarrow> fit_call K E t | _ \<Rightarrow> True)"

definition fit_timer :: "(sid \<Rightarrow> bool) \<Rightarrow> timer \<Rightarrow> bool" where
  "fit_timer K tm = (case tm of TmResubscribe s \<Rightarrow> K s | TmSubRefresh s n \<Rightarrow> K s | _ \<Rightarrow> True)"

definition fit_job :: "(sid \<Rightarrow> bool) \<Rightarrow> job \<Rightarrow> bool" where
  "fit_job K j = (case j of JSubPubs s n ps \<Rightarrow> K s | _ \<Rightarrow> True)"

definition fit_queue :: "(sid \<Rightarrow> bool) \<Rightarrow> (nat \<times> job) cbq \<Rightarrow> bool" where
  "fit_queue K q \<longleftrightarrow> (\<forall>a n j. cb_fn (q_nodes q a) = Some (n, j) \<longrightarrow> fit_job K j)
     \<and> (\<forall>n j. q_disp q = Running (n, j) \<longrightarrow> fit_job K j)"

text \<open>The subscriptions there are, and the ones that were given out.\<close>

definition known :: "(sid \<Rightarrow> bool) \<Rightarrow> (sid, sub) gomap \<Rightarrow> sid \<Rightarrow> bool" where
  "known K h n \<longleftrightarrow> (\<forall>s. K s \<longleftrightarrow> s \<in> set (gm_keys h)) \<and> (\<forall>s. K s \<longleftrightarrow> s < n)"

lemma known_put: "known K h n \<Longrightarrow> K s \<Longrightarrow> known K (gm_put s x h) n"
  by (auto simp: known_def put_keys)

definition fit :: "(sid \<Rightarrow> bool) \<Rightarrow> (int \<Rightarrow> bool) \<Rightarrow> world \<Rightarrow> bool" where
  "fit K E w \<longleftrightarrow>
     (\<forall>h ts t. (h, ts) \<in> set (w_threads w) \<and> t \<in> set ts \<longrightarrow> fit_task K E t)
     \<and> (\<forall>q \<in> set (gm_vals (c_requests (w_cl w))). fit_cb K E (rq_cb q))
     \<and> (\<forall>x \<in> set (gm_vals (w_timers w)). fit_timer K (fst x))
     \<and> fit_queue K (w_queue w)
     \<and> (\<forall>s \<in> set (gm_vals (c_subs (w_cl w))). K s)
     \<and> (\<forall>s \<in> set (gm_vals (c_subs_by_id (w_cl w))). K s)
     \<and> known K (w_heap w) (w_next_sid w)"

abbreviation fit_tasks :: "(sid \<Rightarrow> bool) \<Rightarrow> (int \<Rightarrow> bool) \<Rightarrow> task list \<Rightarrow> bool" where
  "fit_tasks K E ts \<equiv> list_all (fit_task K E) ts"

lemma fit_task_simps [simp]:
  "fit_task K E (WaitEvent n)" "fit_task K E (WaitChan n)" "fit_task K E WaitQueueClosed"
  "fit_task K E (TConnect ct)" "fit_task K E (TClient clt)"
  "fit_task K E (TSub st) = fit_sub K E st" "fit_task K E (TCall cat) = fit_call K E cat"
  by (simp_all add: fit_task_def)

lemmas fit_sub_defs [simp] = fit_sub_def sub_sid_def fit_call_def

lemma fit_cb_simps [simp]:
  "fit_cb K E (CbConnect n t tok ch)" "fit_cb K E (CbSubscribe s g a) = (K s \<and> E g)" "fit_cb K E (CbRefresh g)"
  "fit_cb K E (CbSubRefresh s n i) = K s" "fit_cb K E CbUnsubscribe" "fit_cb K E (CbCall k oper)"
  by (simp_all add: fit_cb_def)

lemma fit_timer_simps [simp]:
  "fit_timer K TmReconnect" "fit_timer K (TmRefresh g)" "fit_timer K (TmResubscribe s) = K s"
  "fit_timer K (TmSubRefresh s n) = K s"
  by (simp_all add: fit_timer_def)

lemma fit_job_simps [simp]:
  "fit_job K (JEvents es)" "fit_job K (JSubPubs s n ps) = K s" "fit_job K (JServerPubs ch a pps)"
  by (simp_all add: fit_job_def)

section \<open>Fitting operations\<close>

lemma fit_frames [simp]:
  "fit K E (w\<lparr>w_next := n\<rparr>) = fit K E w"
  "fit K E (w\<lparr>w_ran := r\<rparr>) = fit K E w" "fit K E (w\<lparr>w_chans := ch\<rparr>) = fit K E w"
  "fit K E (w\<lparr>w_wire := wi\<rparr>) = fit K E w" "fit K E (w\<lparr>w_closed_tr := ct\<rparr>) = fit K E w"
  "fit K E (w\<lparr>w_dials := d\<rparr>) = fit K E w" "fit K E (w\<lparr>w_results := rs\<rparr>) = fit K E w"
  "fit K E (w\<lparr>w_returns := rt\<rparr>) = fit K E w" "fit K E (w\<lparr>w_delivered := dl\<rparr>) = fit K E w"
  "fit K E (w\<lparr>w_ctx_done := cd\<rparr>) = fit K E w" "fit K E (w\<lparr>w_lost := l\<rparr>) = fit K E w"
  "fit K E (w\<lparr>w_next_call := nc\<rparr>) = fit K E w" "fit K E (w\<lparr>w_panic := p\<rparr>) = fit K E w"
  by (simp_all add: fit_def)

lemma fit_cl [simp]:
  "c_requests c = c_requests (w_cl w) \<Longrightarrow> c_subs c = c_subs (w_cl w) \<Longrightarrow> c_subs_by_id c = c_subs_by_id (w_cl w)
    \<Longrightarrow> fit K E (w\<lparr>w_cl := c\<rparr>) = fit K E w"
  by (simp add: fit_def)

text \<open>An operation fits when it keeps the invariant and returns tasks that fit.\<close>

definition fits :: "(sid \<Rightarrow> bool) \<Rightarrow> (int \<Rightarrow> bool) \<Rightarrow> task list op \<Rightarrow> bool" where
  "fits K E m \<longleftrightarrow> (\<forall>w. fit K E w \<longrightarrow> fit K E (after m w) \<and> fit_tasks K E (outcome m w))"

named_theorems fit_intro \<open>rules for fitting operations\<close>

lemma fits_pres: "fits K E m \<Longrightarrow> pres (fit K E) m"
  by (simp add: fits_def pres_def)

lemma fits_return [fit_intro]: "fit_tasks K E ts \<Longrightarrow> fits K E (ret ts)"
  by (simp add: fits_def)

lemma fits_bind [fit_intro]: "pres (fit K E) m \<Longrightarrow> (\<And>x. fits K E (k x)) \<Longrightarrow> fits K E (State_Monad.bind m k)"
  by (simp add: fits_def pres_def split_beta)

lemma fits_bind_gets: "(\<And>w. fit K E w \<Longrightarrow> fits K E (k (f w))) \<Longrightarrow> fits K E (State_Monad.bind (gets f) k)"
  by (simp add: fits_def)

lemma fits_bind_tasks:
  "fits K E m \<Longrightarrow> (\<And>ts. fit_tasks K E ts \<Longrightarrow> fits K E (k ts)) \<Longrightarrow> fits K E (State_Monad.bind m k)"
  by (simp add: fits_def split_beta)

lemma fits_if [fit_intro]: "(b \<Longrightarrow> fits K E m) \<Longrightarrow> (\<not> b \<Longrightarrow> fits K E n) \<Longrightarrow> fits K E (if b then m else n)"
  by simp

lemma fits_option [fit_intro]:
  "(x = None \<Longrightarrow> fits K E m) \<Longrightarrow> (\<And>y. x = Some y \<Longrightarrow> fits K E (n y)) \<Longrightarrow> fits K E (case x of None \<Rightarrow> m | Some y \<Rightarrow> n y)"
  by (cases x) auto

lemma fits_sum [fit_intro]:
  "(\<And>y. x = Inl y \<Longrightarrow> fits K E (m y)) \<Longrightarrow> (\<And>y. x = Inr y \<Longrightarrow> fits K E (n y))
    \<Longrightarrow> fits K E (case x of Inl y \<Rightarrow> m y | Inr y \<Rightarrow> n y)"
  by (cases x) auto

lemma fits_prod [fit_intro]:
  "(\<And>a b. x = (a, b) \<Longrightarrow> fits K E (m a b)) \<Longrightarrow> fits K E (case x of (a, b) \<Rightarrow> m a b)"
  by (cases x) auto

lemma fits_cases [fit_intro]:
  "fits K E a \<Longrightarrow> fits K E b \<Longrightarrow> fits K E c \<Longrightarrow> fits K E d
    \<Longrightarrow> fits K E (case st of StateDisconnected \<Rightarrow> a | StateConnecting \<Rightarrow> b | StateConnected \<Rightarrow> c | StateClosed \<Rightarrow> d)"
  "fits K E a \<Longrightarrow> fits K E b \<Longrightarrow> fits K E c
    \<Longrightarrow> fits K E (case p of PingSeen \<Rightarrow> a | PingTimeout \<Rightarrow> b | PingClosed \<Rightarrow> c)"
  by ((cases st; simp), (cases p; simp))

lemmas fit_rules [fit_intro] = pres_return pres_gets pres_bind pres_if pres_when pres_for_each
  pres_option pres_sum pres_prod pres_list pres_cases pres_operation

section \<open>The primitives\<close>

lemma fit_modc [fit_intro]:
  "(\<And>c. c_requests (f c) = c_requests c) \<Longrightarrow> (\<And>c. c_subs (f c) = c_subs c)
    \<Longrightarrow> (\<And>c. c_subs_by_id (f c) = c_subs_by_id c) \<Longrightarrow> pres (fit K E) (modc f)"
  by (simp add: pres_def modc_def)

lemma fit_mods [fit_intro]: "K s \<Longrightarrow> pres (fit K E) (mods s f)"
  by (simp add: pres_def mods_def fit_def known_put)

lemma fit_spawn [fit_intro]: "fit_tasks K E ts \<Longrightarrow> pres (fit K E) (spawn ts)"
  by (auto simp: pres_def spawn_def fit_def list_all_iff)

lemma fit_effects [fit_intro]:
  "pres (fit K E) fresh" "pres (fit K E) (add_result k r)" "pres (fit K E) (return_to c e)"
  "pres (fit K E) (close_chan ch)" "pres (fit K E) (close_transport t)" "pres (fit K E) panic"
  by (simp_all add: pres_def fresh_def add_result_def return_to_def close_chan_def
      close_transport_def panic_def split: option.split)

lemma fit_stop [fit_intro]: "pres (fit K E) (stop_timer n)"
  by (cases n) (auto simp: pres_def stop_timer_def fit_def dest!: del_vals)

lemma fit_after_func [fit_intro]: "fit_timer K tm \<Longrightarrow> pres (fit K E) (after_func d tm)"
  by (auto simp: pres_def after_func_def fresh_def fit_def dest!: put_vals del_vals)

lemma fit_queue_push: "fit_queue K q \<Longrightarrow> fit_job K j \<Longrightarrow> fit_queue K (snd (push (n, j) q))"
  by (auto simp: fit_queue_def push_def pushOrClose_def Let_def split: option.splits)

lemma fit_queue_close: "fit_queue K q \<Longrightarrow> fit_queue K (close_queue q)"
  by (auto simp: fit_queue_def close_queue_def pushOrClose_def Let_def split: option.splits)

lemma fit_queue_dispatch: "fit_queue K q \<Longrightarrow> fit_queue K (dispatch_step q)"
  by (auto simp: fit_queue_def dispatch_step_def take_head_def Let_def split: dispatcher.splits option.splits)

lemma fit_push_job [fit_intro]: "fit_job K j \<Longrightarrow> pres (fit K E) (push_job j)"
  by (auto simp: pres_def push_job_def fresh_def fit_def split_beta dest: fit_queue_push)

lemma fit_queueEvent [fit_intro]:
  "fit_job K j \<Longrightarrow> pres (fit K E) (queueEvent j)" "fit_job K j \<Longrightarrow> pres (fit K E) (runHandlerAsync j)"
proof -
  have ran: "pres (fit K E) (modify (\<lambda>w. w\<lparr>w_ran := n # w_ran w\<rparr>))" for n by (simp add: pres_def)
  show "fit_job K j \<Longrightarrow> pres (fit K E) (queueEvent j)" "fit_job K j \<Longrightarrow> pres (fit K E) (runHandlerAsync j)"
    by (auto simp: queueEvent_def runHandlerAsync_def intro!: fit_intro ran)
qed

lemma fit_queue_if [fit_intro]: "(b \<Longrightarrow> fit_job K j) \<Longrightarrow> pres (fit K E) (queue_if b j)"
  by (auto simp: queue_if_def intro!: fit_intro)

lemma fit_waitEvent [simp]:
  "fit_tasks K E (waitEvent h d)" "t \<in> set (waitEvent h d) \<Longrightarrow> fit_task K E t"
  by (auto simp: waitEvent_def split: option.splits if_splits)

lemma fits_handlers [fit_intro]:
  "fit_job K j \<Longrightarrow> fits K E (runHandlerSync j)" "fit_job K j \<Longrightarrow> fits K E (runHandlerSyncReentrant h j)"
  "fits K E (handleError h e)" "fits K E (emitError s e)"
  by (auto simp: runHandlerSync_def runHandlerSyncReentrant_def handleError_def emitError_def
      intro!: fit_intro)

section \<open>Requests\<close>

lemma fit_addRequest [fit_intro]: "fit_cb K E cb \<Longrightarrow> pres (fit K E) (addRequest i r cb)"
proof -
  have lost: "pres (fit K E) (modify (\<lambda>w. w\<lparr>w_lost := x # w_lost w\<rparr>))" for x by (simp add: pres_def)
  have "fit_cb K E cb \<Longrightarrow> pres (fit K E) (modc (\<lambda>c. c\<lparr>c_requests := gm_put i \<lparr>rq_cb = cb, rq_result = r\<rparr> (c_requests c)\<rparr>))"
    by (auto simp: pres_def modc_def fit_def dest!: put_vals del_vals)
  then show "fit_cb K E cb \<Longrightarrow> pres (fit K E) (addRequest i r cb)"
    unfolding addRequest_def by (intro pres_bind pres_gets pres_option pres_return lost)
qed

lemma fit_pop:
  assumes "fit K E w"
  shows "fit K E (after (popRequest i) w)
    \<and> (\<forall>q. outcome (popRequest i) w = Some q \<longrightarrow> fit_cb K E (rq_cb q))"
proof (cases "gm_get (c_requests (w_cl w)) i")
  case (Some q)
  with assms gm_get_vals[OF Some] show ?thesis
    by (auto simp: popRequest_def modc_def fit_def gm_pop_def split_beta dest!: del_vals)
qed (use assms in \<open>simp add: popRequest_def modc_def gm_pop_def split_beta\<close>)

lemma fit_popRequest [fit_intro]: "pres (fit K E) (popRequest i)"
  using fit_pop by (auto simp: pres_def)

lemma fits_bind_pop:
  assumes "fits K E (k None)" "\<And>q. fit_cb K E (rq_cb q) \<Longrightarrow> fits K E (k (Some q))"
  shows "fits K E (State_Monad.bind (popRequest i) k)"
  unfolding fits_def
proof (intro allI impI)
  fix w assume "fit K E w"
  note p = fit_pop[OF this, of i]
  show "fit K E (after (State_Monad.bind (popRequest i) k) w)
      \<and> fit_tasks K E (outcome (State_Monad.bind (popRequest i) k) w)"
    using p assms unfolding after_bind outcome_bind
    by (cases "outcome (popRequest i) w") (simp_all add: fits_def)
qed

lemma fit_sendOn [fit_intro]: "pres (fit K E) (sendOn t cmd)"
proof -
  have "pres (fit K E) (modify (\<lambda>w. w\<lparr>w_wire := w_wire w @ ws\<rparr>))" for ws by (simp add: pres_def)
  then show ?thesis by (auto simp: sendOn_def intro!: fit_intro)
qed

lemma fit_ids [fit_intro]:
  "pres (fit K E) (nextCmdID)"
  "pres (fit K E) (nextFutureID)"
  "pres (fit K E) (send cmd)"
  unfolding nextCmdID_def nextFutureID_def send_def
  by (auto intro!: fit_intro)

lemma fit_sendAsync [fit_intro]:
  "fit_cb K E cb \<Longrightarrow> pres (fit K E) (sendAsyncOn t cmd cb)" "fit_cb K E cb \<Longrightarrow> pres (fit K E) (sendAsync cmd cb)"
  by (auto simp: sendAsyncOn_def sendAsync_def intro!: fit_intro)

lemma fits_popAndFail [fit_intro]: "fits K E (popAndFail i e)"
  unfolding popAndFail_def by (rule fits_bind_pop) (auto intro!: fit_intro)

lemma fits_await [fit_intro]:
  "fits K E (awaitReply i)"
  "fits K E (awaitReplyOn b i ch)"
  unfolding awaitReply_def awaitReplyOn_def
  by (auto intro!: fit_intro)

lemma fit_send_operation [fit_intro]:
  "pres (fit K E) (send_operation k oper cmd)"
  "pres (fit K E) (send_message k d)"
  unfolding send_operation_def send_message_def
  by (auto intro!: fit_intro)

lemma fit_calls [fit_intro]:
  "pres (fit K E) (sendRPC k m d)"
  "pres (fit K E) (sendPublish k ch d)"
  "pres (fit K E) (sendHistory k ch opts)"
  "pres (fit K E) (sendPresence k ch)"
  "pres (fit K E) (sendPresenceStats k ch)"
  unfolding sendRPC_def sendPublish_def sendHistory_def sendPresence_def sendPresenceStats_def
  by (auto intro!: fit_intro)

lemma fit_runOperation [fit_intro]:
  "pres (fit K E) (runOperation k oper e)"
  "pres (fit K E) (operationReply k oper r)"
  unfolding runOperation_defs operationReply_def
  by (auto intro!: fit_intro)

lemma fit_futures [fit_intro]:
  "pres (fit K E) (resolveConnectFutures e)"
  "pres (fit K E) (futureTimeout i)"
  unfolding resolveConnectFutures_def futureTimeout_def
  by (auto intro!: fit_intro)

lemma fits_onConnect [fit_intro]:
  "fits K E (onConnect k oper)"
  "fits K E (clientCall k oper)"
  unfolding onConnect_def clientCall_def
  by (auto intro!: fit_intro)

section \<open>Subscriptions\<close>

lemma fit_registry [fit_intro]: "K s \<Longrightarrow> pres (fit K E) (updateSubscriptionPushID s a b)"
proof -
  assume s: "K s"
  have "pres (fit K E) (modc (\<lambda>c. c\<lparr>c_subs_by_id := gm_del a (c_subs_by_id c)\<rparr>))"
    "pres (fit K E) (modc (\<lambda>c. c\<lparr>c_subs_by_id := gm_put b s (c_subs_by_id c)\<rparr>))"
    using s by (auto simp: pres_def modc_def fit_def dest!: put_vals del_vals)
  then show ?thesis unfolding updateSubscriptionPushID_def by (auto intro!: fit_intro)
qed

lemma fit_sub_calls [fit_intro]:
  "K s \<Longrightarrow> pres (fit K E) (SetTagsFilter s f)"
  "K s \<Longrightarrow> pres (fit K E) (resolveSubFutures s e)"
  "K s \<Longrightarrow> pres (fit K E) (onSubscribe s k oper)"
  unfolding SetTagsFilter_def resolveSubFutures_def onSubscribe_def
  by (auto intro!: fit_intro)

lemma fits_sub_futures [fit_intro]:
  "K s \<Longrightarrow> fits K E (runSubOperation s k oper e)"
  unfolding runSubOperation_def
  by (auto intro!: fit_intro)

lemma fits_sub_futures2 [fit_intro]:
  "K s \<Longrightarrow> fits K E (subFutureTimeout s i)"
  "K s \<Longrightarrow> fits K E (subCall s k oper)"
  unfolding subFutureTimeout_def subCall_def
  by (auto intro!: fit_intro)

lemma fit_sub_moves [fit_intro]:
  "K s \<Longrightarrow> pres (fit K E) (queueSubscribingLocked s c r)"
  "K s \<Longrightarrow> pres (fit K E) (stop_sub_timers s)"
  "K s \<Longrightarrow> pres (fit K E) (scheduleResubscribe s)"
  "K s \<Longrightarrow> pres (fit K E) (arm_sub_refresh s ttl)"
  "pres (fit K E) (unsubscribe_failed)"
  unfolding queueSubscribingLocked_def stop_sub_timers_def scheduleResubscribe_def arm_sub_refresh_def unsubscribe_failed_def
  by (auto intro!: fit_intro)

lemma fit_sub_unsubscribed [fit_intro]:
  "K s \<Longrightarrow> pres (fit K E) (moveToUnsubscribedLocked s c r e)"
  "K s \<Longrightarrow> pres (fit K E) (moveToSubscribingLocked s c r)"
  unfolding moveToUnsubscribedLocked_def moveToSubscribingLocked_def
  by (auto intro!: fit_intro)

lemma fit_sub_commands [fit_intro]:
  "K s \<Longrightarrow> pres (fit K E) (moveToUnsubscribed s c r)"
  "pres (fit K E) (sendUnsubscribe ch)"
  "pres (fit K E) (unsubscribeReply x)"
  "fit_cb K E cb \<Longrightarrow> pres (fit K E) (sendSubRefresh ch tok cb)"
  unfolding moveToUnsubscribed_def sendUnsubscribe_def unsubscribeReply_def sendSubRefresh_def
  by (auto intro!: fit_intro)

lemma fit_sendUnsubscribeLocked [fit_intro]:
  "K s \<Longrightarrow> pres (fit K E) (sendUnsubscribeLocked s)"
  "K s \<Longrightarrow> pres (fit K E) (isRegistered s)"
  unfolding sendUnsubscribeLocked_def isRegistered_def
  by (auto intro!: fit_intro)

lemma fit_sub_api1 [fit_intro]: "K s \<Longrightarrow> pres (fit K E) (unsubscribe s c r b)" "K s \<Longrightarrow> pres (fit K E) (removeEntry s k)"
proof -
  have del: "pres (fit K E) (modc (\<lambda>c. c\<lparr>c_subs := gm_del x (c_subs c)\<rparr>))" for x
    by (auto simp: pres_def modc_def fit_def dest!: del_vals)
  show "K s \<Longrightarrow> pres (fit K E) (unsubscribe s c r b)" "K s \<Longrightarrow> pres (fit K E) (removeEntry s k)"
    unfolding unsubscribe_def removeEntry_def by (auto intro!: fit_intro del)
qed

lemma fits_sub_api [fit_intro]:
  "K s \<Longrightarrow> fits K E (subscribeCall s k)"
  "K s \<Longrightarrow> fits K E (subscribeRegistered s k)"
  "K s \<Longrightarrow> fits K E (subscribeStart s k)"
  "K s \<Longrightarrow> fits K E (subscribeConnected s k)"
  "K s \<Longrightarrow> fits K E (unsubscribeCall s k)"
  "K s \<Longrightarrow> fits K E (removeCall s k)"
  unfolding subscribeCall_def subscribeRegistered_def subscribeStart_def subscribeConnected_def unsubscribeCall_def removeCall_def
  by (auto intro!: fit_intro)

lemma fits_flow1 [fit_intro]:
  "K s \<Longrightarrow> fits K E (resubscribe s)"
  "K s \<Longrightarrow> fits K E (getState s)"
  unfolding resubscribe_def getState_def
  by (auto intro!: fit_intro)

lemma fit_flow1 [fit_intro]:
  "K s \<Longrightarrow> pres (fit K E) (end_inflight s)"
  "K s \<Longrightarrow> pres (fit K E) (lockCurrentAttempt s a)"
  "K s \<Longrightarrow> pres (fit K E) (isRefreshCurrent s n i)"
  unfolding end_inflight_def lockCurrentAttempt_def isRefreshCurrent_def
  by (auto intro!: fit_intro)

lemma fit_flow2 [fit_intro]:
  "K s \<Longrightarrow> pres (fit K E) (lockCurrentSubscribe s a g)"
  unfolding lockCurrentSubscribe_def
  by (auto intro!: fit_intro)

lemma fits_flow2 [fit_intro]:
  "K s \<Longrightarrow> fits K E (gotState res s a i)"
  "K s \<Longrightarrow> fits K E (continueResubscribe s b)"
  "K s \<Longrightarrow> fits K E (gotSubToken tk s a i)"
  unfolding gotState_def continueResubscribe_def gotSubToken_def
  by (auto intro!: fit_intro)

lemma fits_bind_lock:
  assumes "pres (fit K E) m" "\<And>w. fit_tasks K E (snd (outcome m w))" "\<And>b ts. fit_tasks K E ts \<Longrightarrow> fits K E (k (b, ts))"
  shows "fits K E (State_Monad.bind m k)"
  unfolding fits_def
proof (intro allI impI)
  fix w assume "fit K E w"
  then have "fit K E (after m w)" by (rule presD[OF assms(1)])
  then show "fit K E (after (State_Monad.bind m k) w) \<and> fit_tasks K E (outcome (State_Monad.bind m k) w)"
    using assms(3)[OF assms(2)[of w], of "fst (outcome m w)"] unfolding after_bind outcome_bind by (simp add: fits_def)
qed

lemma fit_locks:
  "K s \<Longrightarrow> fit_tasks K E (snd (outcome (lockCurrentAttempt s a) w))"
  "K s \<Longrightarrow> fit_tasks K E (snd (outcome (lockCurrentSubscribe s a g) w))"
  by (auto simp: lockCurrentAttempt_def lockCurrentSubscribe_def)

lemma fits_subscribeError [fit_intro]:
  "K s \<Longrightarrow> fits K E (subscribeError s e a g)" "K s \<Longrightarrow> fits K E (subscribeUnrecoverable s a g)"
  "K s \<Longrightarrow> fits K E (subscribeErrorReported s e a g)" "K s \<Longrightarrow> fits K E (getStateFailed s a)"
  unfolding subscribeError_def subscribeUnrecoverable_def subscribeErrorReported_def getStateFailed_def
  by (rule fits_bind_lock[OF _ fit_locks(1)] fits_bind_lock[OF _ fit_locks(2)];
      auto intro!: fit_intro)+

text \<open>A subscribe is sent with the generation of the connection it is sent on.\<close>

lemma fit_sendSubscribeNow:
  assumes "K s" "fit K E w" "c_connected (w_cl w) \<Longrightarrow> E (c_generation (w_cl w))"
  shows "fit K E (after (sendSubscribeNow s a i tok) w)"
proof (cases "c_connected (w_cl w)")
  case True
  then have g: "E (c_generation (w_cl w))" using assms(3) by blast
  have "pres (fit K E) (do {
      params \<leftarrow> gets_of s (\<lambda>x. subscribe_params x tok);
      e \<leftarrow> sendSubscribe params (CbSubscribe s (c_generation (w_cl w)) a);
      (case e of None \<Rightarrow> ret () | Some _ \<Rightarrow> do { end_inflight s; scheduleResubscribe s }) })"
    using g assms(1) by (auto simp: sendSubscribe_def intro!: fit_intro)
  moreover have "pres (fit K E) (end_inflight s)" "pres (fit K E) (do { end_inflight s; spawn [TSub (Resubscribe s)] })"
    using assms(1) by (auto intro!: fit_intro)
  ultimately show ?thesis
    using assms(2) True by (auto simp: sendSubscribeNow_def pres_def split_beta)
next
  case False
  have "pres (fit K E) (end_inflight s)" "pres (fit K E) (do { end_inflight s; spawn [TSub (Resubscribe s)] })"
    using assms(1) by (auto intro!: fit_intro)
  then show ?thesis
    using assms(2) False by (auto simp: sendSubscribeNow_def pres_def split_beta)
qed

lemma fits_deltaFailed [fit_intro]: "K s \<Longrightarrow> fits K E (deltaFailed h s off e)"
  unfolding deltaFailed_def
  by (intro fits_bind pres_gets fits_bind_tasks[OF fits_handlers(3)] fits_return) simp

lemma fits_enterSubscribed [fit_intro]:
  "K s \<Longrightarrow> fits K E (enterSubscribed h s res pubs ds)"
  unfolding enterSubscribed_def
  by (auto intro!: fit_intro)

lemma fits_moveToSubscribed [fit_intro]:
  "K s \<Longrightarrow> fits K E (moveToSubscribed h s res g a)"
  unfolding moveToSubscribed_def
  by (auto intro!: fit_intro)

lemma fits_sub_pushes [fit_intro]:
  "K s \<Longrightarrow> fits K E (handlePublication h s p)"
  "K s \<Longrightarrow> fits K E (handleJoin h s i)"
  "K s \<Longrightarrow> fits K E (handleLeave h s i)"
  "K s \<Longrightarrow> fits K E (handleUnsubscribe s u)"
  unfolding handlePublication_def handleJoin_def handleLeave_def handleUnsubscribe_def
  by (auto intro!: fit_intro)

lemma fit_deliver_sub [fit_intro]:
  "K s \<Longrightarrow> pres (fit K E) (deliver_sub_pub s n pe)" "K s \<Longrightarrow> pres (fit K E) (invalidateState s)"
  "K s \<Longrightarrow> pres (fit K E) (unsubscribeIfRefreshCurrent s n i c r)" "K s \<Longrightarrow> pres (fit K E) (subRefreshArm s n ttl)"
proof -
  have delivered: "pres (fit K E) (modify (\<lambda>w. w\<lparr>w_delivered := w_delivered w @ es\<rparr>))" for es by (simp add: pres_def)
  show "K s \<Longrightarrow> pres (fit K E) (deliver_sub_pub s n pe)" "K s \<Longrightarrow> pres (fit K E) (invalidateState s)"
    "K s \<Longrightarrow> pres (fit K E) (unsubscribeIfRefreshCurrent s n i c r)" "K s \<Longrightarrow> pres (fit K E) (subRefreshArm s n ttl)"
    unfolding deliver_sub_pub_def invalidateState_def unsubscribeIfRefreshCurrent_def subRefreshArm_def
    by (auto intro!: fit_intro delivered)
qed

lemma fits_sub_refresh [fit_intro]:
  "K s \<Longrightarrow> fits K E (refresh s n)"
  "K s \<Longrightarrow> fits K E (gotRefreshSubToken tk s n i)"
  "K s \<Longrightarrow> fits K E (subRefreshSend s n i tok)"
  unfolding refresh_def gotRefreshSubToken_def subRefreshSend_def
  by (auto intro!: fit_intro)

lemma fit_subRefreshWrite [fit_intro]:
  "K s \<Longrightarrow> pres (fit K E) (subRefreshWrite s n i tok)"
  unfolding subRefreshWrite_def
  by (auto intro!: fit_intro)

lemma fits_subRefreshReply [fit_intro]:
  "K s \<Longrightarrow> fits K E (subRefreshReply s n i r)"
  unfolding subRefreshReply_def
  by (auto simp: list_all_iff split: option.split sum.split intro!: fit_intro)

section \<open>The client\<close>

lemma fit_clear [fit_intro]: "pres (fit K E) clearConnectedState"
proof (rule presI)
  fix w assume w: "fit K E w"
  let ?m = "do {
     modc (\<lambda>c. c\<lparr>c_generation := c_generation c + 1, c_subs_by_id := []\<rparr>);
     t \<leftarrow> getc c_reconnect_timer;
     stop_timer t;
     r \<leftarrow> getc c_refresh_timer;
     stop_timer r;
     modc (\<lambda>c. c\<lparr>c_reconnect_timer := None, c_refresh_timer := None\<rparr>);
     ch \<leftarrow> getc c_close_ch;
     (case ch of None \<Rightarrow> ret () | Some n \<Rightarrow> do {
        close_chan n;
        modc (\<lambda>c. c\<lparr>c_close_ch := None\<rparr>) }) }"
  have by_id: "pres (fit K E) (modc (\<lambda>c. c\<lparr>c_generation := c_generation c + 1, c_subs_by_id := []\<rparr>))"
    by (simp add: pres_def modc_def fit_def)
  have "pres (fit K E) ?m" by (auto intro!: by_id fit_intro)
  then have 1: "fit K E (after ?m w)" using w by (rule presD)
  then have cbs: "fit_cb K E (rq_cb q)" if "q \<in> set (gm_vals (c_requests (w_cl (after ?m w))))" for q
    using that by (simp add: fit_def)
  have fails: "pres (fit K E) (for_each (\<lambda>q. spawn [TCall (RunCallback (rq_cb q) (Inl e))]) qs)"
    if "\<And>q. q \<in> set qs \<Longrightarrow> fit_cb K E (rq_cb q)" for qs e
    using that by (induction qs) (auto intro!: fit_intro)
  have drop: "pres (fit K E) (modc (\<lambda>c. c\<lparr>c_requests := []\<rparr>))"
    by (simp add: pres_def modc_def fit_def)
  have "fit K E (after (for_each (\<lambda>q. spawn [TCall (RunCallback (rq_cb q) (Inl (Sentinel ErrClientDisconnected)))])
      (gm_vals (c_requests (w_cl (after ?m w))))) (after (modc (\<lambda>c. c\<lparr>c_requests := []\<rparr>)) (after ?m w)))"
    by (rule presD[OF fails presD[OF drop 1]]) (rule cbs)
  then show "fit K E (after clearConnectedState w)"
    unfolding clearConnectedState_def by (simp add: split_beta)
qed

lemma fit_subs_to_subscribing [fit_intro]: "pres (fit K E) subs_to_subscribing"
proof (rule presI)
  fix w assume w: "fit K E w"
  have each: "pres (fit K E) (for_each (\<lambda>s. moveToSubscribingLocked s c r) ss)" if "\<And>s. s \<in> set ss \<Longrightarrow> K s" for ss c r
    using that by (induction ss) (auto intro!: fit_intro)
  have "K s" if "s \<in> set (gm_vals (c_subs (w_cl w)))" for s
    using w that by (simp add: fit_def)
  from presD[OF each[OF this] w] show "fit K E (after subs_to_subscribing w)"
    by (simp add: subs_to_subscribing_def)
qed

lemma fit_transitions [fit_intro]:
  "pres (fit K E) (setStateLocked st)"
  "pres (fit K E) (setTransportLocked t)"
  "pres (fit K E) (isCurrentAttemptLocked n)"
  "pres (fit K E) (isConnectedAttemptLocked n)"
  unfolding setStateLocked_def setTransportLocked_def isCurrentAttemptLocked_def isConnectedAttemptLocked_def
  by (auto intro!: fit_intro)

lemma fit_drop [fit_intro]:
  "pres (fit K E) (drop_transport)"
  "pres (fit K E) (scheduleReconnectLocked)"
  "pres (fit K E) (scheduleRefreshLocked d)"
  unfolding drop_transport_def scheduleReconnectLocked_def scheduleRefreshLocked_def
  by (auto intro!: fit_intro)

lemma fit_disconnect_now [fit_intro]:
  "pres (fit K E) (disconnect_now c r)"
  "pres (fit K E) (close_now)"
  "pres (fit K E) (retry_connecting t)"
  unfolding disconnect_now_def close_now_def retry_connecting_def
  by (auto intro!: fit_intro)

lemma fit_moveToDisconnectedIf [fit_intro]:
  "pres (fit K E) (moveToDisconnectedIf cu c r)"
  unfolding moveToDisconnectedIf_def
  by (auto intro!: fit_intro)

lemma fit_disconnects [fit_intro]:
  "pres (fit K E) (moveToDisconnected c r)"
  "pres (fit K E) (moveToDisconnectedFrom t c r)"
  "pres (fit K E) (connectingReported n)"
  "pres (fit K E) (setToken tok)"
  unfolding moveToDisconnected_def moveToDisconnectedFrom_def connectingReported_def setToken_def
  by (auto intro!: fit_intro)

lemma fits_reconnect_now [fit_intro]:
  "fits K E (reconnect_now h c r)"
  unfolding reconnect_now_def
  by (auto intro!: fit_intro)

lemma fits_moveToConnectingFrom [fit_intro]: "fits K E (moveToConnectingFrom h t c r)"
  by (auto simp: moveToConnectingFrom_def split: option.split cstate.split intro!: fit_intro)

lemma fits_known_subs [fit_intro]: "fits K E invalidateConnectionState" "fits K E (closeCall k)" "fits K E (connectDone n t ch cres)"
proof -
  have vals: "K s" if "fit K E w" "s \<in> set (gm_vals (c_subs (w_cl w)))" for w s
    using that by (simp add: fit_def)
  show "fits K E invalidateConnectionState"
    unfolding invalidateConnectionState_def
    by (intro fits_bind pres_gets fits_bind_gets fits_return pres_when fit_modc)
       (auto simp: list_all_iff dest: vals)
  show "fits K E (closeCall k)"
    unfolding closeCall_def
    by (intro fits_bind pres_gets fits_bind_gets fits_if fits_return fit_disconnect_now fit_effects)
       (auto simp: list_all_iff dest: vals)
  show "fits K E (connectDone n t ch cres)"
    unfolding connectDone_def
    by (intro fits_bind pres_gets fits_if fit_transitions fits_return fits_bind_gets pres_when pres_bind fit_modc fit_spawn)
       (auto simp: list_all_iff dest: vals)
qed

lemma fits_client1 [fit_intro]:
  "fits K E (handleTransportDisconnect t d)"
  "fits K E (disconnectCall k)"
  "fits K E (closeReport st chs k)"
  "fits K E (closeWaitReader h k)"
  unfolding handleTransportDisconnect_def disconnectCall_def closeReport_def closeWaitReader_def
  by (auto simp: Let_def split: option.split intro!: fit_intro)

lemma fits_closeQueue [fit_intro]: "fits K E (closeQueue h b k)"
proof -
  have "pres (fit K E) (modify (\<lambda>w. w\<lparr>w_queue := close_queue (w_queue w)\<rparr>))"
    by (simp add: pres_def fit_def fit_queue_close)
  then show ?thesis by (auto simp: closeQueue_def intro!: fit_intro)
qed

section \<open>Connecting\<close>

lemma fits_connecting [fit_intro]:
  "fits K E (startConnecting h k)"
  "fits K E (startReconnectingIf ex k)"
  unfolding startConnecting_def startReconnectingIf_def
  by (auto intro!: fit_intro)

lemma fits_with_errors [fit_intro]:
  "fit_task K E a \<Longrightarrow> (\<And>x. fit_task K E (f x)) \<Longrightarrow> fits K E (refreshToken h a f)"
  "fits K E (gotConnectToken h n r k tk)" "fits K E (dial h eo n r k)" "fits K E (gotRefreshToken h g tk)"
proof -
  have dials: "pres (fit K E) (modify (\<lambda>w. w\<lparr>w_dials := w_dials w @ us\<rparr>))" for us by (simp add: pres_def)
  show "fit_task K E a \<Longrightarrow> (\<And>x. fit_task K E (f x)) \<Longrightarrow> fits K E (refreshToken h a f)"
    "fits K E (gotConnectToken h n r k tk)" "fits K E (dial h eo n r k)" "fits K E (gotRefreshToken h g tk)"
    unfolding refreshToken_def gotConnectToken_def dial_def gotRefreshToken_def disconnect_refresh_def
      isConnRefreshCurrent_def
    by (auto intro!: fits_bind_tasks[OF fits_handlers(3)] fit_intro dials)
qed

lemma fits_connectToken [fit_intro]:
  "fits K E (connectToken h n r k)"
  "fits K E (connectFailed n t tok e)"
  "fits K E (sendRefresh h g)"
  unfolding connectToken_def connectFailed_def sendRefresh_def
  by (auto simp: isConnRefreshCurrent_def intro!: fit_intro)

lemma fit_scheduled [fit_intro]:
  "pres (fit K E) (scheduleIfCurrent n k e)"
  "pres (fit K E) (connectFailedClosed n tok e)"
  "pres (fit K E) (refreshSend g tok)"
  "pres (fit K E) (handleRefreshError g)"
  unfolding scheduleIfCurrent_def connectFailedClosed_def refreshSend_def handleRefreshError_def
  by (auto simp: isConnRefreshCurrent_def intro!: fit_intro)

lemma fits_dialed [fit_intro]: "fits K E (dialed h n t k)"
  unfolding dialed_def sendConnect_def
  by (auto intro!: fits_bind_tasks[OF fits_handlers(3)] fit_intro)

lemma fits_connectReply [fit_intro]:
  "fits K E (connectReply h n t tok ch x)" "fits K E (connectOk h n t ch cres)" "fits K E (refreshReply h g y)"
  unfolding connectReply_def connectOk_def refreshReply_def disconnect_refresh_def isConnRefreshCurrent_def
  by (auto intro!: fits_bind_tasks[OF fits_handlers(3)] fit_intro)

lemma fits_connectSubs [fit_intro]: "fits K E (connectSubs h n t ch cres rest)"
  by (cases rest) (auto simp: connectSubs_def intro!: fit_intro)

lemma fit_queue_each [fit_intro]: "pres (fit K E) (queue_each es d)"
  by (induction es arbitrary: d) (auto intro!: fit_intro)

lemma fits_connectUnsubs [fit_intro]:
  "fits K E (connectUnsubs h n t ch cres)"
  unfolding connectUnsubs_def
  by (auto intro!: fit_intro)

section \<open>The reader\<close>

lemma fits_runCallback: "fit_cb K E cb \<Longrightarrow> fits K E (runCallback cb x)"
  by (cases cb) (auto simp: runCallback_def intro!: fit_intro)

lemma fits_server_pushes [fit_intro]:
  "fits K E (handleServerPublication h c p)"
  "fits K E (handleServerJoin h c i)"
  "fits K E (handleServerLeave h c i)"
  "fits K E (handleServerSub h c sp)"
  "fits K E (handleServerUnsub h c)"
  "fits K E (handleMessage m)"
  unfolding handleServerPublication_def handleServerJoin_def handleServerLeave_def handleServerSub_def handleServerUnsub_def handleMessage_def
  by (auto intro!: fit_intro)

lemma fits_handlePush [fit_intro]: "fits K E (handlePush t p)"
proof -
  have "K s" if "fit K E w" "route p (w_cl w) = Some s" for w s
    using that gm_get_vals[of "c_subs_by_id (w_cl w)" "pu_id p" s] gm_get_vals[of "c_subs (w_cl w)" "pu_channel p" s]
    by (auto simp: fit_def route_def split: if_splits)
  then have "fit_tasks K E (push_tasks t p (route p (w_cl w)))" if "fit K E w" for w
    using that by (auto simp: push_tasks_def unknown_def split: option.split)
  then show ?thesis
    unfolding handlePush_def by (intro fits_bind_gets fits_return)
qed

lemma fits_handleReply [fit_intro]: "fits K E (handleReply t r)"
  unfolding handleReply_def by (rule fits_bind_pop) (auto intro!: fit_intro)

lemma fit_handlePing [fit_intro]:
  "pres (fit K E) (handlePing t)"
  unfolding handlePing_def
  by (auto intro!: fit_intro)

lemma fits_handle [fit_intro]:
  "fits K E (handle t r)"
  "fits K E (waitServerPing pw t ch p)"
  unfolding handle_def waitServerPing_def
  by (auto intro!: fit_intro)

lemma fits_reader [fit_intro]: "fits K E (reader rd t ch)"
  by (cases rd) (auto simp: reader_def intro!: fits_bind_tasks[OF fits_handle(1)] fit_intro)

section \<open>The whole client\<close>

lemma fits_run_connect: "fits K E (run_connect a h t)"
  by (cases t) (auto simp: run_connect_def intro!: fit_intro)

lemma fits_run_client: "fits K E (run_client a h t)"
  by (cases t) (auto simp: run_client_def intro!: fit_intro)

lemma fits_run_call: "fit_call K E t \<Longrightarrow> fits K E (run_call a t)"
  by (cases t) (auto simp: run_call_def intro!: fit_intro fits_runCallback)

lemma fits_run_sub: "fit_sub K E t \<Longrightarrow> (\<And>s n i tok. t \<noteq> SendSubscribe s n i tok) \<Longrightarrow> fits K E (run_sub a h t)"
  by (cases t) (auto simp: run_sub_def subscribeAgain_def intro!: fit_intro)

text \<open>The moment a subscribe is written, the current generation must be an established one.\<close>

lemma fit_run_task:
  assumes "fit K E w" "fit_task K E t" "c_connected (w_cl w) \<Longrightarrow> E (c_generation (w_cl w))"
  shows "fit K E (after (run_task a h t) w) \<and> fit_tasks K E (outcome (run_task a h t) w)"
proof (cases "\<exists>s n i tok. t = TSub (SendSubscribe s n i tok)")
  case True
  then show ?thesis
    using assms fit_sendSubscribeNow by (auto simp: run_task_def run_sub_def split_beta)
next
  case False
  then have "fits K E (run_task a h t)"
    using assms(2) fits_run_connect fits_run_client fits_run_call fits_run_sub
    by (cases t) (auto simp: run_task_def intro!: fit_intro)
  then show ?thesis using assms(1) by (simp add: fits_def)
qed

lemma fit_take_task:
  assumes "fit K E w"
  shows "fit K E (after (take_task i) w)
    \<and> (\<forall>h t ts. outcome (take_task i) w = Some (h, t, ts) \<longrightarrow> fit_task K E t \<and> fit_tasks K E ts)"
proof (cases "i < length (w_threads w) \<and> snd (w_threads w ! i) \<noteq> []")
  case True
  obtain h t ts where th: "w_threads w ! i = (h, t # ts)"
    using True by (cases "w_threads w ! i"; cases "snd (w_threads w ! i)") auto
  have mem: "(h, t # ts) \<in> set (w_threads w)" using th True nth_mem[of i "w_threads w"] by simp
  have all: "fit_task K E x" if "(h', us) \<in> set (w_threads w)" "x \<in> set us" for h' us x
    using assms that unfolding fit_def by blast
  then have "fit_task K E t" "fit_tasks K E ts" using mem by (auto simp: list_all_iff)
  moreover have "fit K E (w\<lparr>w_threads := take i (w_threads w) @ drop (Suc i) (w_threads w)\<rparr>)"
    using assms all set_take_subset[of i "w_threads w"] set_drop_subset[of "Suc i" "w_threads w"]
    unfolding fit_def by auto
  ultimately show ?thesis
    using True th by (auto simp: take_task_def)
next
  case False
  then show ?thesis using assms by (auto simp: take_task_def split: prod.splits list.splits)
qed

lemma fit_put_tasks: "fit K E w \<Longrightarrow> fit_tasks K E ts \<Longrightarrow> fit K E (after (put_tasks h ts) w)"
  by (auto simp: put_tasks_def fit_def list_all_iff)

lemma fit_thread_step:
  assumes w: "fit K E w" and g: "c_connected (w_cl w) \<Longrightarrow> E (c_generation (w_cl w))"
  shows "fit K E (after (thread_step a i) w)"
proof -
  let ?w = "after (take_task i) w"
  have w1: "fit K E ?w" using fit_take_task[OF w] by blast
  have cl: "w_cl ?w = w_cl w" by (auto simp: take_task_def split: prod.split list.split)
  show ?thesis
  proof (cases "outcome (take_task i) w")
    case None
    then show ?thesis using w1 by (simp add: thread_step_def split_beta)
  next
    case (Some ht)
    obtain h t ts where ht: "ht = (h, t, ts)" by (cases ht)
    then have t: "fit_task K E t" "fit_tasks K E ts" using fit_take_task[OF w, of i] Some by blast+
    have "fit K E (after (run_task a h t) ?w)" "fit_tasks K E (outcome (run_task a h t) ?w @ ts)"
      using fit_run_task[OF w1 t(1), of a h] g t(2) unfolding cl by auto
    then have "fit K E (after (put_tasks h (outcome (run_task a h t) ?w @ ts)) (after (run_task a h t) ?w))"
      by (rule fit_put_tasks)
    then show ?thesis using Some ht by (simp add: thread_step_def split_beta)
  qed
qed

lemma fit_fire_timer: "pres (fit K E) (fire_timer n)"
proof (rule presI)
  fix w assume w: "fit K E w"
  show "fit K E (after (fire_timer n) w)"
  proof (cases "gm_get (w_timers w) n")
    case (Some tmd)
    obtain tm d where tmd: "tmd = (tm, d)" by (cases tmd)
    have "fit_timer K tm" using w gm_get_vals[OF Some] tmd by (force simp: fit_def)
    then have "fit_task K E (timer_task tm)" by (cases tm) (auto simp: timer_task_def)
    moreover have "fit K E (w\<lparr>w_timers := gm_del n (w_timers w)\<rparr>)" using w by (auto simp: fit_def dest!: del_vals)
    ultimately have "fit K E (after (spawn [timer_task tm]) (w\<lparr>w_timers := gm_del n (w_timers w)\<rparr>))"
      using presD[OF fit_spawn] by simp
    then show ?thesis using Some tmd by (simp add: fire_timer_def)
  qed (simp add: fire_timer_def w)
qed

lemma fit_job_round:
  assumes "fit_job K j"
  shows "pres (fit K E) (job_round j)" "outcome (job_round j) w = Some j' \<Longrightarrow> fit_job K j'"
proof -
  have delivered: "pres (fit K E) (modify (\<lambda>w. w\<lparr>w_delivered := w_delivered w @ es\<rparr>))" for es by (simp add: pres_def)
  have server: "pres (fit K E) (deliver_server_pub ch n p)" for ch n p
    unfolding deliver_server_pub_def by (auto intro!: fit_intro delivered)
  show "pres (fit K E) (job_round j)"
    using assms by (cases j rule: job.exhaust)
      (auto simp: job_round_def deliver_def intro!: fit_intro delivered server)
  show "outcome (job_round j) w = Some j' \<Longrightarrow> fit_job K j'"
    using assms by (cases j rule: job.exhaust) (auto simp: job_round_def split_beta split: list.splits if_splits)
qed

lemma fit_dispatcher: "pres (fit K E) dispatcher_step"
proof (rule presI)
  fix w assume w: "fit K E w"
  have other: "fit K E (w'\<lparr>w_queue := dispatch_step (w_queue w')\<rparr>)" if "fit K E w'" for w'
    using that by (simp add: fit_def fit_queue_dispatch)
  show "fit K E (after dispatcher_step w)"
  proof (cases "q_disp (w_queue w)")
    case (Running nj)
    obtain n j where nj: "nj = (n, j)" by (cases nj)
    have j: "fit_job K j" using w Running nj by (auto simp: fit_def fit_queue_def)
    let ?w = "after (job_round j) w"
    have w1: "fit K E ?w" using fit_job_round(1)[OF j] w by (rule presD)
    have run: "fit K E (?w\<lparr>w_queue := (w_queue ?w)\<lparr>q_disp := Running (n, j')\<rparr>\<rparr>)" if "fit_job K j'" for j'
      using w1 that by (simp add: fit_def fit_queue_def)
    show ?thesis
    proof (cases "outcome (job_round j) w")
      case None
      have "fit K E (?w\<lparr>w_queue := dispatch_step (w_queue ?w), w_ran := n # w_ran ?w\<rparr>)"
        using other[OF w1] by simp
      then show ?thesis using Running nj None by (simp add: dispatcher_step_def split_beta)
    next
      case (Some j')
      with run[of j'] fit_job_round(2)[OF j Some] show ?thesis
        using Running nj by (simp add: dispatcher_step_def split_beta)
    qed
  qed (use other[OF w] in \<open>simp_all add: dispatcher_step_def\<close>)
qed

text \<open>A call of the application uses a subscription it got, or makes a new one.\<close>

lemma fit_api:
  assumes "fit K E w" "\<And>s. api_sid a = Some s \<Longrightarrow> K s" "\<And>ch cfg. a \<noteq> ApiNew ch cfg"
  shows "fit K E (after (api_step h a) w)"
proof -
  have start: "pres (fit K E) (start_call h f)" if "\<And>k. fit_task K E (f k)" for f
    using that by (auto simp: start_call_def pres_def fit_def)
  have ctx: "pres (fit K E) (modify (\<lambda>w. w\<lparr>w_ctx_done := k # w_ctx_done w\<rparr>))" for k by (simp add: pres_def)
  have "pres (fit K E) (api_step h a)"
    using assms(2,3) by (cases a)
      (auto simp: api_step_def api_sid_def onClientEvent_def onSubEvent_def intro!: start fit_intro ctx)
  then show ?thesis using assms(1) by (rule presD)
qed

lemma fit_mono:
  assumes "fit K E w" "\<And>g. E g \<Longrightarrow> E' g"
  shows "fit K E' w"
proof -
  have cb: "fit_cb K E cb \<Longrightarrow> fit_cb K E' cb" for cb using assms(2) by (cases cb) auto
  then have call: "fit_call K E ct \<Longrightarrow> fit_call K E' ct" for ct by (cases ct) auto
  have sub: "fit_sub K E st \<Longrightarrow> fit_sub K E' st" for st using assms(2) by (cases st) auto
  have task: "fit_task K E t \<Longrightarrow> fit_task K E' t" for t using call sub by (cases t) auto
  show ?thesis using assms(1) cb task unfolding fit_def by blast
qed

lemma fit_mono_sid:
  assumes "fit K E w" "\<And>s. K s \<Longrightarrow> K' s"
    and "known K' h n"
  shows "fit K' E (w\<lparr>w_next_sid := n, w_heap := h\<rparr>)"
proof -
  have cb: "fit_cb K E cb \<Longrightarrow> fit_cb K' E cb" for cb using assms(2) by (cases cb) auto
  then have call: "fit_call K E ct \<Longrightarrow> fit_call K' E ct" for ct using assms(2) by (cases ct) auto
  have sub: "fit_sub K E st \<Longrightarrow> fit_sub K' E st" for st using assms(2) by (cases st) auto
  have task: "fit_task K E t \<Longrightarrow> fit_task K' E t" for t using call sub by (cases t) auto
  have timer: "fit_timer K tm \<Longrightarrow> fit_timer K' tm" for tm using assms(2) by (cases tm) auto
  have "fit_job K j \<Longrightarrow> fit_job K' j" for j using assms(2) by (cases j rule: job.exhaust) auto
  then have queue: "fit_queue K q \<Longrightarrow> fit_queue K' q" for q unfolding fit_queue_def by blast
  show ?thesis
    using assms(1-3) cb task timer queue unfolding fit_def by simp
qed

lemma fit_NewSubscription:
  assumes "fit K E w"
  shows "\<exists>K'. (\<forall>s. K s \<longrightarrow> K' s) \<and> fit K' E (after (NewSubscription ch cfg) w)"
proof -
  let ?K = "\<lambda>s. K s \<or> s = w_next_sid w"
  let ?w = "w\<lparr>w_next_sid := Suc (w_next_sid w),
    w_heap := w_heap w @ [(w_next_sid w, newSubscription ch cfg)]\<rparr>"
  have k: "known K (w_heap w) (w_next_sid w)" using assms by (simp add: fit_def)
  then have "known ?K (w_heap w @ [(w_next_sid w, newSubscription ch cfg)]) (Suc (w_next_sid w))"
    by (auto simp: known_def gm_keys_def less_Suc_eq)
  from fit_mono_sid[OF assms _ this] have 1: "fit ?K E ?w" by simp
  have 2: "fit ?K E (?w\<lparr>w_cl := (w_cl ?w)\<lparr>c_subs := gm_put ch (w_next_sid w) (c_subs (w_cl ?w))\<rparr>\<rparr>)"
    using 1 by (auto simp: fit_def dest!: put_vals)
  have "\<exists>K'. (\<forall>s. K s \<longrightarrow> K' s) \<and> fit K' E w" using assms by blast
  moreover have "\<exists>K'. (\<forall>s. K s \<longrightarrow> K' s) \<and> fit K' E (?w\<lparr>w_cl := (w_cl ?w)\<lparr>c_subs := gm_put ch (w_next_sid w) (c_subs (w_cl ?w))\<rparr>\<rparr>)"
    using 2 by (intro exI[of _ ?K]) simp
  ultimately show ?thesis
    by (simp add: NewSubscription_def modc_def split_beta)
qed

section \<open>The invariant\<close>

text \<open>The generation of an established connection: an earlier one, or the current one.\<close>

definition established :: "world \<Rightarrow> int \<Rightarrow> bool" where
  "established w g \<longleftrightarrow> g < c_generation (w_cl w)
     \<or> g = c_generation (w_cl w) \<and> c_state (w_cl w) = StateConnected"

definition sub_exists :: "world \<Rightarrow> sid \<Rightarrow> bool" where
  "sub_exists w s \<longleftrightarrow> gm_get (w_heap w) s \<noteq> None"

definition well_referenced :: "world \<Rightarrow> bool" where
  "well_referenced w \<longleftrightarrow> fit (sub_exists w) (established w) w"

lemma fit_exists: "fit K E w \<Longrightarrow> K = sub_exists w"
  by (auto simp: fit_def known_def sub_exists_def gm_keys_get)

lemma established_step:
  assumes "conn_next (conn w) (conn w')" "established w g"
  shows "established w' g"
  using conn_numbers[OF assms(1)[unfolded conn_def]] assms(2)
  by (cases "c_state (w_cl w) = StateConnected"; cases "c_state (w_cl w') = StateConnected")
     (auto simp: established_def)

lemma fit_step:
  assumes w: "reachable w" "well_referenced w" and x: "allowed x w"
  shows "well_referenced (after (act x) w)"
proof -
  let ?K = "sub_exists w" and ?w = "after (act x) w"
  have f: "fit ?K (established w) w" using w(2) by (simp add: well_referenced_def)
  have conn: "c_connected (w_cl w) \<longleftrightarrow> c_state (w_cl w) = StateConnected"
    using conn_reachable[OF w(1)] by (simp add: conn_inv_def conn_def)
  have kn: "?K s" if "s < w_next_sid w" for s using f that unfolding fit_def known_def by blast
  have same: "fit ?K (established w) (after m w)" if "pres (fit ?K (established w)) m" for m :: "unit op"
    using that f by (rule presD)
  have "\<exists>K. fit K (established w) ?w"
  proof (cases x)
    case (ThreadStep a i)
    have "fit ?K (established w) (after (thread_step a i) w)"
      using f by (rule fit_thread_step) (simp add: conn established_def)
    then show ?thesis using ThreadStep by (auto simp: act_def)
  next
    case (Api h a)
    show ?thesis
    proof (cases "\<exists>ch cfg. a = ApiNew ch cfg")
      case True
      then obtain ch cfg where a: "a = ApiNew ch cfg" by blast
      show ?thesis using fit_NewSubscription[OF f, of ch cfg] Api by (auto simp: act_def api_step_def a split_beta)
    next
      case False
      have "fit ?K (established w) (after (api_step h a) w)"
        by (rule fit_api[OF f]) (use x kn Api False in \<open>auto simp: allowed_def\<close>)
      then show ?thesis using Api by (auto simp: act_def)
    qed
  qed (use same[OF fit_fire_timer] same[OF fit_dispatcher] in \<open>auto simp: act_def\<close>)
  then obtain K where K: "fit K (established w) ?w" by blast
  have "conn_next (conn w) (conn ?w)" using w(1) x by (intro conn_step_next step_act)
  then have "fit K (established ?w) ?w" using K established_step by (blast intro: fit_mono)
  then show ?thesis using fit_exists by (auto simp: well_referenced_def)
qed

lemma well_referenced_init: "client_init w \<Longrightarrow> well_referenced w"
  by (auto simp: client_init_def initial_world_def newClient_def well_referenced_def fit_def sub_exists_def
      known_def fit_queue_def new_queue_def Let_def)

interpretation refs: safe_system client_init client_step well_referenced
proof
  show "well_referenced w" if "client_init w" for w using that by (rule well_referenced_init)
  show "well_referenced w'" if "reachable w" "well_referenced w" "client_step w w'" for w w'
    using that(3) fit_step[OF that(1,2)] by (auto elim: client_stepE)
qed

section \<open>Properties\<close>



end
