(* ===== verification/Waiting.thy ===== *)
theory Waiting
  imports Known
begin

text \<open>
  What goroutines wait for, and which tasks the goroutine that runs the event handlers may run. An
  event that is queued is due: it has run, or the dispatcher has it still before it. The tasks that
  wait, and those \<open>Close\<close> goes through, are the only ones that look at the callback queue.
\<close>

section \<open>Kinds of tasks\<close>

definition waits :: "task \<Rightarrow> bool" where
  "waits t = (case t of WaitEvent n \<Rightarrow> True | WaitChan n \<Rightarrow> True | WaitQueueClosed \<Rightarrow> True | _ \<Rightarrow> False)"

text \<open>What is left to do of a \<open>Close\<close> after the client is closed.\<close>

definition closing :: "task \<Rightarrow> bool" where
  "closing t = (case t of
     TClient clt \<Rightarrow> (case clt of CloseReport st chs k \<Rightarrow> True | CloseWaitReader k \<Rightarrow> True
       | CloseQueue q k \<Rightarrow> True | _ \<Rightarrow> False)
   | _ \<Rightarrow> False)"

text \<open>
  What the calls an application makes in an event handler may lead to on the dispatcher goroutine.
  The rest runs on goroutines of the client only: it reads, waits for replies, or calls
  \<open>runHandlerSync\<close> without a look at the goroutine it is on.
\<close>

definition may_handle :: "task \<Rightarrow> bool" where
  "may_handle t = (case t of
     TConnect ct \<Rightarrow> True
   | TClient clt \<Rightarrow> (case clt of Reader tr ch \<Rightarrow> False | HandlePush tr p \<Rightarrow> False | HandleMessage d \<Rightarrow> False
       | _ \<Rightarrow> True)
   | TCall ct \<Rightarrow> (case ct of RunCallback cb r \<Rightarrow> False | AwaitReply i \<Rightarrow> False | AwaitReplyOn i ch \<Rightarrow> False
       | _ \<Rightarrow> True)
   | TSub st \<Rightarrow> (case st of
         SubscribeCall s k \<Rightarrow> True | SubscribeRegistered s k \<Rightarrow> True | SubscribeStart s k \<Rightarrow> True
       | SubscribeConnected s k \<Rightarrow> True | UnsubscribeCall s k \<Rightarrow> True | Unsubscribe s k \<Rightarrow> True
       | RemoveCall s k \<Rightarrow> True | RemoveEntry s k \<Rightarrow> True | Resubscribe s \<Rightarrow> True
       | ContinueResubscribe s async \<Rightarrow> \<not> async | SendSubscribe s n i tok \<Rightarrow> True
       | MoveToUnsubscribed s c r \<Rightarrow> True | InvalidateState s \<Rightarrow> True | _ \<Rightarrow> False)
   | _ \<Rightarrow> False)"

definition starts :: "bool \<Rightarrow> task \<Rightarrow> bool" where
  "starts h t \<longleftrightarrow> \<not> waits t \<and> \<not> closing t \<and> (h \<longrightarrow> may_handle t)"

lemma starts_simps [simp]:
  "starts h (TConnect ct)"
  "starts False (TSub st)" "starts False (TCall cat)"
  "starts h (TSub st) \<longleftrightarrow> (h \<longrightarrow> may_handle (TSub st))" "starts h (TCall cat) \<longleftrightarrow> (h \<longrightarrow> may_handle (TCall cat))"
  "starts h (TClient clt) \<longleftrightarrow> \<not> closing (TClient clt) \<and> (h \<longrightarrow> may_handle (TClient clt))"
  by (simp_all add: starts_def waits_def closing_def may_handle_def)

lemma closing_simps [simp]:
  "\<not> closing (TClient (HandleTransportDisconnect tr d))" "\<not> closing (TClient (Reader t ch))"
  "\<not> closing (TClient (WaitServerPing t ch png))" "\<not> closing (TClient (SendRefresh g))"
  "\<not> closing (TClient (DisconnectCall k))" "\<not> closing (TClient (CloseCall k))"
  "\<not> closing (TConnect ct)" "\<not> closing (TSub st)" "\<not> closing (TCall cat)"
  by (simp_all add: closing_def)

lemmas kinds = waits_def closing_def may_handle_def

section \<open>Queued events\<close>

text \<open>The events the dispatcher has still before it, the one it runs included.\<close>

definition queue_ids :: "(nat \<times> job) cbq \<Rightarrow> nat set" where
  "queue_ids q = {n. \<exists>j. Some (n, j) \<in> set (qlist q) \<or> q_disp q = Running (n, j)}"

definition due :: "world \<Rightarrow> nat \<Rightarrow> bool" where
  "due w n \<longleftrightarrow> n \<in> set (w_ran w) \<or> n \<in> queue_ids (w_queue w)"

definition closers :: "world \<Rightarrow> task list" where
  "closers w = filter closing (concat (map snd (w_threads w)))"

text \<open>What is due stays due, a closed queue or channel stays closed.\<close>

definition carries_on :: "world \<Rightarrow> world \<Rightarrow> bool" where
  "carries_on w w' \<longleftrightarrow> set (w_chans w) \<subseteq> set (w_chans w') \<and> (q_closed (w_queue w) \<longrightarrow> q_closed (w_queue w'))
     \<and> (disp_inv (w_queue w) \<longrightarrow> disp_inv (w_queue w') \<and> (\<forall>n. due w n \<longrightarrow> due w' n))"

lemma carries_on_same:
  "w_queue w' = w_queue w \<Longrightarrow> set (w_ran w) \<subseteq> set (w_ran w') \<Longrightarrow> set (w_chans w) \<subseteq> set (w_chans w') \<Longrightarrow> carries_on w w'"
  by (auto simp: carries_on_def due_def)

lemma push_ids:
  assumes "disp_inv q"
  shows "queue_ids q \<subseteq> queue_ids (snd (push (n, j) q))"
    "fst (push (n, j) q) \<Longrightarrow> n \<in> queue_ids (snd (push (n, j) q))"
    "q_closed (snd (push (n, j) q)) = q_closed q"
proof -
  have "q_disp (snd (push (n, j) q)) = q_disp q"
    by (simp add: push_def split_beta pushOrClose_frame)
  moreover have "qlist (snd (push (n, j) q)) = (if q_closed q then qlist q else qlist q @ [Some (n, j)])"
    "q_closed q \<Longrightarrow> \<not> fst (push (n, j) q)" "q_closed (snd (push (n, j) q)) = q_closed q"
    using assms cbq.put_open[of q "(n, j)"] cbq.put_closed[of q "(n, j)"] by (auto simp: disp_inv_def)
  ultimately show "queue_ids q \<subseteq> queue_ids (snd (push (n, j) q))"
    "fst (push (n, j) q) \<Longrightarrow> n \<in> queue_ids (snd (push (n, j) q))" "q_closed (snd (push (n, j) q)) = q_closed q"
    by (auto simp: queue_ids_def split: if_splits)
qed

lemma close_ids:
  assumes "disp_inv q"
  shows "queue_ids (close_queue q) = queue_ids q" "q_closed (close_queue q)"
proof -
  have "q_disp (close_queue q) = q_disp q" by (simp add: close_queue_def pushOrClose_frame)
  moreover have "qlist (close_queue q) = (if q_closed q then qlist q else qlist q @ [None])" "q_closed (close_queue q)"
    using assms cbq.shut_open[of q] cbq.shut_closed[of q] by (cases "q_closed q"; auto simp: disp_inv_def)+
  ultimately show "queue_ids (close_queue q) = queue_ids q" "q_closed (close_queue q)"
    by (auto simp: queue_ids_def)
qed

lemma push_job_run:
  "run_state (push_job j) w = ((fst (push (w_next w, j) (w_queue w)), w_next w),
     w\<lparr>w_next := Suc (w_next w), w_queue := snd (push (w_next w, j) (w_queue w))\<rparr>)"
  by (simp add: push_job_def fresh_def split_beta)

lemma push_closed: "q_closed q \<Longrightarrow> q_closed (snd (push f q))"
  using cbq.put_closed[of q f] by simp

lemma push_job_carries_on: "carries_on w (after (push_job j) w)"
  using push_ids(1)[of "w_queue w" "w_next w" j] push_closed[of "w_queue w" "(w_next w, j)"]
  by (auto simp: push_job_run carries_on_def due_def intro: disp_inv_push)

end
