(* ===== verification/Steady.thy ===== *)
theory Steady
  imports Waiting
begin

text \<open>
  What an invariant of the client has to show. Most operations leave the connection, the registries
  and the connection timers alone; the locale \<open>calm_core\<close> states what an invariant promises for
  the primitive effects and derives that the operations built from them keep it, and \<open>calm_turns\<close> adds
  the few operations that move the client or a subscription from one state to another. They are for
  invariants that look at what the goroutines may do next; \<open>steady_core\<close>, \<open>steady_base\<close>, \<open>steady_turns\<close>
  and \<open>steady\<close> are their specialisations for those that do not, and for these every step of the
  client keeps the invariant.
\<close>

section \<open>What an invariant may look at\<close>

type_synonym client_view = "(cstate \<times> bool \<times> tr option \<times> nat \<times> int) \<times> (channel, sid) gomap
    \<times> (int, sid) gomap \<times> (u32, request) gomap \<times> (nat, call \<times> operation) gomap \<times> nat option \<times> nat option"

definition cview :: "client \<Rightarrow> client_view" where
  "cview c = ((c_state c, c_connected c, c_transport c, c_attempt c, c_generation c), c_subs c,
     c_subs_by_id c, c_requests c, c_futures c, c_reconnect_timer c, c_refresh_timer c)"

definition sview :: "sub \<Rightarrow> channel \<times> sstate \<times> int" where
  "sview x = (s_channel x, s_state x, s_push_id x)"

text \<open>The same with the counters and the timers of a subscription.\<close>

definition sfull :: "sub \<Rightarrow> (channel \<times> sstate \<times> int) \<times> nat \<times> nat \<times> nat \<times> nat option \<times> nat option" where
  "sfull x = (sview x, s_attempt x, s_invalidations x, s_session x, s_resubscribe_timer x, s_refresh_timer x)"

definition wview :: "world \<Rightarrow> client \<times> (sid, sub) gomap \<times> sid \<times> (nat, timer \<times> duration) gomap \<times> (tr \<times> command) list
    \<times> callback list" where
  "wview w = (w_cl w, w_heap w, w_next_sid w, w_timers w, w_wire w, w_lost w)"

text \<open>
  Nothing of it changes, the goroutines lose no task, the calls no answer, and no identity is used
  again.
\<close>

definition tasks_of :: "world \<Rightarrow> task set" where
  "tasks_of w = (\<Union>th \<in> set (w_threads w). set (snd th))"

definition grows :: "world \<Rightarrow> world \<Rightarrow> bool" where
  "grows w w' \<longleftrightarrow> wview w' = wview w \<and> tasks_of w \<subseteq> tasks_of w' \<and> w_next w \<le> w_next w'
     \<and> prefix (w_results w) (w_results w')"

lemmas grow_defs = grows_def wview_def tasks_of_def

text \<open>
  In addition nothing that is due is forgotten, and new goroutines begin with what their goroutine may
  run and do not wait yet.
\<close>

definition calm :: "world \<Rightarrow> world \<Rightarrow> bool" where
  "calm w w' \<longleftrightarrow> grows w w' \<and> carries_on w w' \<and> closers w' = closers w
     \<and> (\<forall>th \<in> set (w_threads w'). th \<in> set (w_threads w) \<or> list_all (starts (fst th)) (snd th))"

text \<open>What only \<open>Close\<close> and the reader look at.\<close>

definition cfull :: "client \<Rightarrow> client_view \<times> nat option \<times> bool" where
  "cfull c = (cview c, c_disconnected_ch c, c_cb_queue c)"

lemma calmI:
  assumes "grows w w'" "w_queue w' = w_queue w" "set (w_ran w) \<subseteq> set (w_ran w')" "set (w_chans w) \<subseteq> set (w_chans w')"
    "w_threads w' = w_threads w @ ths" "\<And>h ts. (h, ts) \<in> set ths \<Longrightarrow> list_all (starts h) ts"
  shows "calm w w'"
proof -
  have "\<not> closing t" if "(h, ts) \<in> set ths" "t \<in> set ts" for h ts t
    using assms(6)[OF that(1)] that(2) by (auto simp: list_all_iff starts_def)
  then have "filter closing (concat (map snd ths)) = []" by (auto simp: filter_empty_conv)
  then show ?thesis using assms carries_on_same[of w' w] by (auto simp: calm_def closers_def)
qed

lemmas calm_defs = calm_def grow_defs carries_on_def due_def closers_def
lemmas calm_simps = cfull_def cview_def sfull_def sview_def calm_defs

definition sub_timer :: "timer \<Rightarrow> bool" where
  "sub_timer tm = (case tm of TmResubscribe s \<Rightarrow> True | TmSubRefresh s n \<Rightarrow> True | _ \<Rightarrow> False)"

lemma sub_timer_simps [simp]:
  "sub_timer (TmResubscribe s)" "sub_timer (TmSubRefresh s n)" "\<not> sub_timer TmReconnect" "\<not> sub_timer (TmRefresh g)"
  by (simp_all add: sub_timer_def)

named_theorems steady_intro \<open>rules for operations that keep an invariant\<close>
named_theorems calm_intro \<open>rules for primitive effects and an invariant that looks at the goroutines\<close>

lemmas steady_rules [steady_intro] = pres_return pres_gets pres_bind pres_if pres_when pres_for_each
  pres_option pres_sum pres_prod pres_list pres_cases pres_operation

section \<open>Primitive effects\<close>

locale calm_core =
  fixes I :: "world \<Rightarrow> bool"
  assumes C_client: "I w \<Longrightarrow> cfull c = cfull (w_cl w) \<Longrightarrow> I (w\<lparr>w_cl := c\<rparr>)"
    and C_sub: "I w \<Longrightarrow> sfull x = sfull (sub_at w s) \<Longrightarrow> I (w\<lparr>w_heap := gm_put s x (w_heap w)\<rparr>)"
    and C_rest: "I w \<Longrightarrow> calm w w' \<Longrightarrow> I w'"
    and C_write: "I w \<Longrightarrow> c_transport (w_cl w) = Some t \<Longrightarrow> I (w\<lparr>w_wire := w_wire w @ [(t, cmd)]\<rparr>)"
    and C_sendAsync: "pres I (sendAsync cmd cb)"
    and C_onConnect: "pres I (onConnect k oper)"
    and C_forget: "I w \<Longrightarrow> I (w\<lparr>w_cl := (w_cl w)\<lparr>c_futures := gm_del fi (c_futures (w_cl w))\<rparr>\<rparr>)"
    and C_resolved: "I w \<Longrightarrow> I (w\<lparr>w_cl := (w_cl w)\<lparr>c_futures := []\<rparr>\<rparr>)"
    and C_sub_timers: "pres I (scheduleResubscribe s)" "pres I (arm_sub_refresh s ttl)"
begin

lemmas assumed [steady_intro] = C_sendAsync C_onConnect C_sub_timers

lemma calm_modc [calm_intro]: "(\<And>c. cfull (f c) = cfull c) \<Longrightarrow> pres I (modc f)"
  by (simp add: pres_def modc_def C_client)

lemma calm_mods [calm_intro]: "(\<And>x. sfull (f x) = sfull x) \<Longrightarrow> pres I (mods s f)"
  by (simp add: pres_def mods_def C_sub)

lemma calm_modify [calm_intro]: "(\<And>w. calm w (f w)) \<Longrightarrow> pres I (modify f)"
  unfolding pres_def by (auto intro: C_rest)

lemma calm_effects [calm_intro]:
  "pres I fresh" "list_all (starts False) ts \<Longrightarrow> pres I (spawn ts)" "pres I panic" "pres I (add_result k r)"
  "pres I (close_chan ch)" "pres I (close_transport t)" "pres I (return_to c e)"
  "(\<And>k. starts h (g k)) \<Longrightarrow> pres I (start_call h g)"
proof -
  have new: "pres I (modify (\<lambda>w. w\<lparr>w_next_call := f w, w_threads := w_threads w @ [(h, ts)]\<rparr>))"
    "pres I (modify (\<lambda>w. w\<lparr>w_threads := w_threads w @ [(h, ts)]\<rparr>))" if "list_all (starts h) ts" for f h ts
    using that by (auto intro!: calm_modify calmI simp: grow_defs)
  show "pres I (spawn ts)" if "list_all (starts False) ts"
    unfolding spawn_def using that by (rule new(2))
  show "pres I (start_call h g)" if "\<And>k. starts h (g k)"
    unfolding start_call_def using that by (intro pres_bind pres_gets new(1)) simp
  have same: "pres I (modify f)"
    if "\<And>w. grows w (f w)" "\<And>w. w_queue (f w) = w_queue w" "\<And>w. w_threads (f w) = w_threads w"
      "\<And>w. set (w_ran w) \<subseteq> set (w_ran (f w))" "\<And>w. set (w_chans w) \<subseteq> set (w_chans (f w))" for f
    using that by (intro calm_modify calmI[where ths = "[]"]) simp_all
  show "pres I fresh"
  proof (rule presI)
    fix w assume "I w"
    moreover have "calm w (after fresh w)" by (rule calmI[where ths = "[]"]) (simp_all add: fresh_def grow_defs)
    ultimately show "I (after fresh w)" by (rule C_rest)
  qed
  show "pres I panic" "pres I (add_result k r)" "pres I (close_chan ch)"
    "pres I (close_transport t)" "pres I (return_to c e)"
    unfolding panic_def add_result_def close_chan_def close_transport_def return_to_def
    by (auto simp: grow_defs intro!: same steady_rules)
qed

lemma calm_push_job [calm_intro]: "pres I (push_job j)"
proof (rule presI)
  fix w assume "I w"
  then show "I (after (push_job j) w)"
    by (rule C_rest) (use push_job_carries_on[of w j] in \<open>simp add: calm_defs push_job_run\<close>)
qed

lemma calm_queue [steady_intro]: "pres I (queueEvent j)" "pres I (runHandlerSync j)" "pres I (runHandlerAsync j)"
proof -
  have ran: "pres I (modify (\<lambda>w. w\<lparr>w_ran := n # w_ran w\<rparr>))" for n
    by (rule calm_modify) (auto simp: calm_defs intro: carries_on_same)
  show "pres I (queueEvent j)" "pres I (runHandlerSync j)" "pres I (runHandlerAsync j)"
    by (auto simp: queueEvent_def runHandlerSync_def runHandlerAsync_def intro!: steady_rules ran calm_push_job)
qed

lemma steady_handlers [steady_intro]: "pres I (queue_if b j)" "pres I (runHandlerSyncReentrant h j)"
  by (auto simp: queue_if_def runHandlerSyncReentrant_def intro!: steady_intro calm_intro)

lemma steady_errors [steady_intro]: "pres I (handleError h e)" "pres I (emitError s e)"
  by (auto simp: handleError_def emitError_def intro!: steady_intro calm_intro)

text \<open>Writing on the current transport.\<close>

lemma steady_sendOn: "I w \<Longrightarrow> c_transport (w_cl w) = Some t \<Longrightarrow> I (after (sendOn t cmd) w)"
proof -
  assume "I w" "c_transport (w_cl w) = Some t"
  then have w: "I (w\<lparr>w_wire := w_wire w @ [(t, cmd)]\<rparr>)" by (rule C_write)
  have "list_all (starts False) ts \<Longrightarrow> pres I (if b then do { spawn ts; ret (Some e) } else ret None)" for b ts and e :: err
    by (auto intro!: steady_intro calm_intro)
  from presD[OF this w] show ?thesis
    by (simp add: sendOn_def split_beta)
qed

lemma steady_send [steady_intro]: "pres I (send cmd)"
  by (auto simp: pres_def send_def split_beta intro: steady_sendOn split: option.split)

lemma steady_handlePing [steady_intro]: "pres I (handlePing t)"
proof (rule presI)
  fix w assume w: "I w"
  let ?f = "\<lambda>c. if c_delay_ping c < delay_ping_capacity then c\<lparr>c_delay_ping := Suc (c_delay_ping c)\<rparr> else c"
  let ?w = "after (modc ?f) w"
  have "I ?w" by (rule presD[OF calm_modc w]) (simp add: cfull_def cview_def)
  then show "I (after (handlePing t) w)"
    by (auto simp: handlePing_def split_beta intro: steady_sendOn)
qed

section \<open>Operations built from them\<close>

lemma steady_ids [steady_intro]:
  "pres I (nextCmdID)"
  "pres I (nextFutureID)"
  "pres I (awaitReply i)"
  unfolding nextCmdID_def nextFutureID_def awaitReply_def
  by (auto simp: calm_simps intro!: steady_intro calm_intro)

lemma steady_await [steady_intro]:
  "pres I (send_operation k oper cmd)"
  "pres I (send_message k d)"
  unfolding send_operation_def send_message_def
  by (auto simp: calm_simps intro!: steady_intro calm_intro)

lemma steady_calls [steady_intro]:
  "pres I (sendRPC k m d)"
  "pres I (sendPublish k ch d)"
  "pres I (sendHistory k ch opts)"
  "pres I (sendPresence k ch)"
  "pres I (sendPresenceStats k ch)"
  unfolding sendRPC_def sendPublish_def sendHistory_def sendPresence_def sendPresenceStats_def
  by (auto simp: calm_simps intro!: steady_intro calm_intro)

lemma steady_runOperation [steady_intro]:
  "pres I (runOperation k oper e)"
  "pres I (operationReply k oper r)"
  unfolding runOperation_defs operationReply_def
  by (auto simp: calm_simps intro!: steady_intro calm_intro)

lemma steady_futures [steady_intro]: "pres I (resolveConnectFutures e)" "pres I (futureTimeout i)"
proof -
  have forget: "pres I (modc (\<lambda>c. c\<lparr>c_futures := gm_del i (c_futures c)\<rparr>))"
    "pres I (modc (\<lambda>c. c\<lparr>c_futures := []\<rparr>))" for i
    by (simp_all add: pres_def modc_def C_forget C_resolved)
  show "pres I (resolveConnectFutures e)" "pres I (futureTimeout i)"
    unfolding resolveConnectFutures_def futureTimeout_def
    by (auto intro!: steady_intro calm_intro forget)
qed

lemma steady_clientCall [steady_intro]:
  "pres I (clientCall k oper)"
  "pres I (SetTagsFilter s f)"
  "pres I (resolveSubFutures s e)"
  "pres I (onSubscribe s k oper)"
  "pres I (runSubOperation s k oper e)"
  unfolding clientCall_def SetTagsFilter_def resolveSubFutures_def onSubscribe_def runSubOperation_def
  by (auto simp: calm_simps intro!: steady_intro calm_intro)

lemma steady_sub_futures [steady_intro]:
  "pres I (subFutureTimeout s i)"
  "pres I (subCall s k oper)"
  "pres I (queueSubscribingLocked s c r)"
  "pres I (unsubscribe_failed)"
  unfolding subFutureTimeout_def subCall_def queueSubscribingLocked_def unsubscribe_failed_def
  by (auto simp: calm_simps intro!: steady_intro calm_intro)

lemma steady_sub_commands [steady_intro]:
  "pres I (sendUnsubscribe ch)"
  "pres I (unsubscribeReply x)"
  "pres I (sendSubscribe params cb)"
  "pres I (sendSubRefresh ch tok cb)"
  unfolding sendUnsubscribe_def unsubscribeReply_def sendSubscribe_def sendSubRefresh_def
  by (auto simp: calm_simps intro!: steady_intro calm_intro)

lemma steady_sub_api1 [steady_intro]:
  "pres I (sendUnsubscribeLocked s)"
  "pres I (isRegistered s)"
  unfolding sendUnsubscribeLocked_def isRegistered_def
  by (auto simp: calm_simps intro!: steady_intro calm_intro)

lemma steady_sub_api2 [steady_intro]:
  "pres I (subscribeCall s k)"
  "pres I (subscribeRegistered s k)"
  "pres I (subscribeConnected s k)"
  "pres I (unsubscribeCall s k)"
  "pres I (removeCall s k)"
  unfolding subscribeCall_def subscribeRegistered_def subscribeConnected_def unsubscribeCall_def removeCall_def
  by (auto simp: calm_simps intro!: steady_intro calm_intro)

lemma steady_flow1 [steady_intro]:
  "pres I (resubscribe s)"
  "pres I (getState s)"
  "pres I (end_inflight s)"
  "pres I (lockCurrentAttempt s a)"
  unfolding resubscribe_def getState_def end_inflight_def lockCurrentAttempt_def
  by (auto simp: calm_simps intro!: steady_intro calm_intro)

lemma steady_flow2 [steady_intro]:
  "pres I (gotState res s a i)"
  "pres I (lockCurrentSubscribe s a g)"
  "pres I (getStateFailed s a)"
  "pres I (continueResubscribe s b)"
  unfolding gotState_def lockCurrentSubscribe_def getStateFailed_def continueResubscribe_def
  by (auto simp: calm_simps intro!: steady_intro calm_intro)

lemma steady_flow3 [steady_intro]:
  "pres I (sendSubscribeNow s a i tok)"
  "pres I (subscribeError s e a g)"
  "pres I (subscribeUnrecoverable s a g)"
  "pres I (deltaFailed h s off e)"
  unfolding sendSubscribeNow_def subscribeError_def subscribeUnrecoverable_def deltaFailed_def
  by (auto simp: calm_simps intro!: steady_intro calm_intro)

lemma adopt_position_view [simp]: "sview (adopt_position p x) = sview x" "sfull (adopt_position p x) = sfull x"
  by (simp_all add: adopt_position_def sfull_def sview_def Let_def)

lemma steady_handlePublication [steady_intro]: "pres I (handlePublication h s p)" "pres I (deliver_sub_pub s n pe)"
proof -
  have [simp]: "sfull (adopt_position p (x\<lparr>s_prev_data := d\<rparr>)) = sfull x" for p x d
    unfolding adopt_position_view by (simp add: sfull_def sview_def)
  have delivered: "pres I (modify (\<lambda>w. w\<lparr>w_delivered := w_delivered w @ es\<rparr>))" for es
    by (rule calm_modify) (simp add: calm_defs)
  have prev: "sfull (x\<lparr>s_prev_data := d\<rparr>) = sfull x" for x d by (simp add: sfull_def sview_def)
  show "pres I (handlePublication h s p)" "pres I (deliver_sub_pub s n pe)"
    unfolding handlePublication_def deliver_sub_pub_def
    by (auto simp: prev intro!: steady_intro calm_intro delivered)
qed

lemma steady_pushes [steady_intro]:
  "pres I (handleJoin h s i)"
  "pres I (handleLeave h s i)"
  unfolding handleJoin_def handleLeave_def
  by (auto simp: calm_simps intro!: steady_intro calm_intro)

lemma steady_refresh1 [steady_intro]:
  "pres I (isRefreshCurrent s n i)"
  "pres I (subRefreshArm s n ttl)"
  unfolding isRefreshCurrent_def subRefreshArm_def
  by (auto simp: calm_simps intro!: steady_intro calm_intro)

lemma steady_refresh2 [steady_intro]:
  "pres I (refresh s n)"
  "pres I (gotRefreshSubToken tk s n i)"
  "pres I (subRefreshSend s n i tok)"
  "pres I (subRefreshWrite s n i tok)"
  "pres I (subRefreshReply s n i r)"
  unfolding refresh_def gotRefreshSubToken_def subRefreshSend_def subRefreshWrite_def subRefreshReply_def
  by (auto simp: calm_simps intro!: steady_intro calm_intro)

lemma steady_client1 [steady_intro]:
  "pres I (isCurrentAttemptLocked n)"
  "pres I (isConnectedAttemptLocked n)"
  "pres I (setToken tok)"
  "pres I (handleTransportDisconnect t d)"
  "pres I (closeReport st chs k)"
  "pres I (closeWaitReader h k)"
  "pres I (disconnectCall k)"
  unfolding isCurrentAttemptLocked_def isConnectedAttemptLocked_def setToken_def handleTransportDisconnect_def closeReport_def closeWaitReader_def disconnectCall_def
  by (auto simp: calm_simps Let_def intro!: steady_intro calm_intro)

lemma steady_client2 [steady_intro]:
  "pres I (invalidateConnectionState)"
  "pres I (refreshToken h a b)"
  "pres I (dial h eo n r k)"
  "pres I (isConnRefreshCurrent g)"
  unfolding invalidateConnectionState_def refreshToken_def dial_def isConnRefreshCurrent_def
  by (auto simp: calm_simps intro!: steady_intro calm_intro)

lemma steady_client3 [steady_intro]:
  "pres I (connectToken h n r k)"
  "pres I (connectReply h n t tok ch x)"
  "pres I (connectSubs h n t ch res rest)"
  "pres I (connectDone n t ch res)"
  "pres I (deliver_server_pub c n p)"
  "pres I (sendRefresh h g)"
  unfolding connectToken_def connectReply_def connectSubs_def connectDone_def deliver_server_pub_def sendRefresh_def
  by (auto simp: calm_simps intro!: steady_intro calm_intro)

lemma steady_queue_each [steady_intro]: "pres I (queue_each es d)"
  by (induction es arbitrary: d) (auto intro!: steady_intro calm_intro)

lemma steady_client4 [steady_intro]:
  "pres I (connectUnsubs h n t ch res)"
  "pres I (handleServerPublication h c p)"
  "pres I (handleServerJoin h c i)"
  "pres I (handleServerLeave h c i)"
  "pres I (handleServerSub h c sp)"
  "pres I (handleServerUnsub h c)"
  "pres I (handleMessage m)"
  "pres I (handlePush t pu)"
  unfolding connectUnsubs_def handleServerPublication_def handleServerJoin_def handleServerLeave_def handleServerSub_def handleServerUnsub_def handleMessage_def handlePush_def
  by (auto simp: calm_simps intro!: steady_intro calm_intro)

lemma steady_client5 [steady_intro]:
  "pres I (waitServerPing pw t ch p)"
  "pres I (onClientEvent ev)"
  "pres I (onSubEvent s se)"
  "pres I (deliver e)"
  unfolding waitServerPing_def onClientEvent_def onSubEvent_def deliver_def
  by (auto simp: calm_simps intro!: steady_intro calm_intro)

lemma steady_runCallback [steady_intro]: "pres I (runCallback cb x)"
  by (cases cb) (auto simp: runCallback_def intro!: steady_intro calm_intro)

lemma steady_job_round [steady_intro]: "pres I (job_round j)"
  by (cases j rule: job.exhaust) (auto simp: job_round_def intro!: steady_intro calm_intro)

end

text \<open>An invariant that minds neither what new goroutines do nor the callback queue.\<close>

locale steady_core =
  fixes I :: "world \<Rightarrow> bool"
  assumes I_client: "I w \<Longrightarrow> cview c = cview (w_cl w) \<Longrightarrow> I (w\<lparr>w_cl := c\<rparr>)"
    and I_sub: "I w \<Longrightarrow> sfull x = sfull (sub_at w s) \<Longrightarrow> I (w\<lparr>w_heap := gm_put s x (w_heap w)\<rparr>)"
    and I_rest: "I w \<Longrightarrow> grows w w' \<Longrightarrow> I w'"
    and I_write: "I w \<Longrightarrow> c_transport (w_cl w) = Some t \<Longrightarrow> I (w\<lparr>w_wire := w_wire w @ [(t, cmd)]\<rparr>)"
    and I_sendAsync: "pres I (sendAsync cmd cb)"
    and I_onConnect: "pres I (onConnect k oper)"
    and I_forget: "I w \<Longrightarrow> I (w\<lparr>w_cl := (w_cl w)\<lparr>c_futures := gm_del fi (c_futures (w_cl w))\<rparr>\<rparr>)"
    and I_resolved: "I w \<Longrightarrow> I (w\<lparr>w_cl := (w_cl w)\<lparr>c_futures := []\<rparr>\<rparr>)"
    and I_sub_timers: "pres I (scheduleResubscribe s)" "pres I (arm_sub_refresh s ttl)"
begin

lemma core_calm: "calm_core I"
  by unfold_locales
    (simp_all add: I_client I_sub I_write I_sendAsync I_onConnect I_forget I_resolved I_sub_timers cfull_def,
     simp add: calm_def I_rest)

end

sublocale steady_core \<subseteq> calm_core I
  by (rule core_calm)

context steady_core
begin

lemma steady_modc [steady_intro]: "(\<And>c. cview (f c) = cview c) \<Longrightarrow> pres I (modc f)"
  by (simp add: pres_def modc_def I_client)

lemma steady_mods [steady_intro]: "(\<And>x. sfull (f x) = sfull x) \<Longrightarrow> pres I (mods s f)"
  by (simp add: pres_def mods_def I_sub)

lemma steady_modify [steady_intro]: "(\<And>w. grows w (f w)) \<Longrightarrow> pres I (modify f)"
  unfolding pres_def by (auto intro: I_rest)

lemma steady_effects [steady_intro]:
  "pres I fresh" "pres I (spawn ts)" "pres I panic" "pres I (add_result k r)" "pres I (close_chan ch)"
  "pres I (close_transport t)" "pres I (return_to c e)" "pres I (put_tasks h ts)" "pres I (push_job j)"
  "pres I (start_call h g)"
  by (auto simp: spawn_def put_tasks_def start_call_def grow_defs intro!: steady_modify steady_rules
      calm_effects calm_push_job)

lemma steady_closeQueue [steady_intro]: "pres I (closeQueue h b k)"
  unfolding closeQueue_def by (auto simp: cview_def grow_defs intro!: steady_intro)

lemma steady_dispatcher [steady_intro]: "pres I dispatcher_step"
  unfolding dispatcher_step_def
  by (rule pres_bind, rule pres_gets) (auto simp: grow_defs split: dispatcher.split prod.split intro!: steady_intro)

end

text \<open>An invariant that does not look at the goroutines and does not mind which request is taken.\<close>

locale steady_loose = steady_core +
  assumes loose_rest: "I w \<Longrightarrow> wview w' = wview w \<Longrightarrow> w_next w \<le> w_next w' \<Longrightarrow> w_results w' = w_results w \<Longrightarrow> I w'"
    and loose_popRequest: "pres I (popRequest i)"
    and loose_fire: "pres I (fire_timer n)"
begin

lemmas loose_ops [steady_intro] = loose_popRequest loose_fire

lemma loose_modify:
  "(\<And>w. wview (f w) = wview w \<and> w_next w \<le> w_next (f w) \<and> w_results (f w) = w_results w) \<Longrightarrow> pres I (modify f)"
  unfolding pres_def by (auto intro: loose_rest)

lemma steady_take [steady_intro]: "pres I (take_task i)"
  unfolding take_task_def by (auto simp: wview_def intro!: steady_rules loose_modify)

lemma steady_pops [steady_intro]:
  "pres I (popAndFail i e)" "pres I (awaitReplyOn b i ch)" "pres I (handleReply t r)" "pres I (handle t r)"
proof -
  show pop: "pres I (popAndFail i e)" for i e
    unfolding popAndFail_def by (auto intro!: steady_intro)
  show "pres I (awaitReplyOn b i ch)"
    unfolding awaitReplyOn_def by (auto intro!: steady_intro pop)
  show reply: "pres I (handleReply t r)"
    unfolding handleReply_def by (auto intro!: steady_intro)
  show "pres I (handle t r)"
    unfolding handle_def by (auto intro!: steady_intro reply)
qed

lemma steady_reader [steady_intro]: "pres I (reader rd t ch)"
  by (cases rd) (auto simp: reader_def intro!: steady_intro)

end

text \<open>
  Most invariants do not look at the timers and counters of subscriptions nor at the goroutines, and
  do not mind which timer is stopped or which request is taken.
\<close>

locale steady_base =
  fixes I :: "world \<Rightarrow> bool"
  assumes base_client: "I w \<Longrightarrow> cview c = cview (w_cl w) \<Longrightarrow> I (w\<lparr>w_cl := c\<rparr>)"
    and base_sub: "I w \<Longrightarrow> sview x = sview (sub_at w s) \<Longrightarrow> I (w\<lparr>w_heap := gm_put s x (w_heap w)\<rparr>)"
    and base_rest: "I w \<Longrightarrow> wview w' = wview w \<Longrightarrow> I w'"
    and base_timer: "I w \<Longrightarrow> sub_timer tm \<Longrightarrow> I (w\<lparr>w_timers := gm_put n (tm, d) (w_timers w)\<rparr>)"
    and base_stop: "I w \<Longrightarrow> I (w\<lparr>w_timers := gm_del n (w_timers w)\<rparr>)"
    and base_write: "I w \<Longrightarrow> c_transport (w_cl w) = Some t \<Longrightarrow> I (w\<lparr>w_wire := w_wire w @ [(t, cmd)]\<rparr>)"
    and base_sendAsync: "pres I (sendAsync cmd cb)"
    and base_popRequest: "pres I (popRequest i)"
    and base_onConnect: "pres I (onConnect k oper)"
    and base_forget: "I w \<Longrightarrow> I (w\<lparr>w_cl := (w_cl w)\<lparr>c_futures := gm_del fi (c_futures (w_cl w))\<rparr>\<rparr>)"
    and base_resolved: "I w \<Longrightarrow> I (w\<lparr>w_cl := (w_cl w)\<lparr>c_futures := []\<rparr>\<rparr>)"
begin

lemma steady_mods: "(\<And>x. sview (f x) = sview x) \<Longrightarrow> pres I (mods s f)"
  by (simp add: pres_def mods_def base_sub)

lemma base_modify: "(\<And>w. wview (f w) = wview w) \<Longrightarrow> pres I (modify f)"
  unfolding pres_def by (auto intro: base_rest)

lemma steady_stop [steady_intro]: "pres I (stop_timer n)"
  unfolding stop_timer_def by (auto simp: pres_def base_stop split: option.split)

lemma steady_after_func [steady_intro]: "sub_timer tm \<Longrightarrow> pres I (after_func d tm)"
  by (auto simp: pres_def after_func_def fresh_def wview_def intro: base_rest base_timer)

lemma base_sub_timers:
  "pres I (stop_sub_timers s)" "pres I (scheduleResubscribe s)" "pres I (arm_sub_refresh s ttl)"
  by (auto simp: stop_sub_timers_def scheduleResubscribe_def arm_sub_refresh_def sview_def
      intro!: steady_rules steady_mods steady_stop steady_after_func)

lemma base_fire_timer: "pres I (fire_timer n)"
proof -
  have "pres I (modify (\<lambda>w. w\<lparr>w_timers := gm_del n (w_timers w)\<rparr>))" by (simp add: pres_def base_stop)
  then show ?thesis unfolding fire_timer_def spawn_def
    by (auto simp: wview_def intro!: steady_rules base_modify)
qed

end

sublocale steady_base \<subseteq> core: steady_loose I
  by unfold_locales
    (auto simp: base_client base_sub sfull_def grows_def base_sendAsync base_onConnect base_forget
      base_resolved base_sub_timers base_popRequest
      base_fire_timer intro: base_rest base_write)

context steady_base
begin

lemmas base_ops [steady_intro] = steady_mods
lemmas base_stops [steady_intro] = base_sub_timers(1)

end

section \<open>Transitions\<close>

text \<open>
  The operations that move a subscription or end the connection, and those that start or continue a
  connect attempt. An invariant that follows the attempts treats the tasks of the latter, and those
  that take a request, on its own, and one that follows the subscribes those that move a subscription
  to subscribing or subscribed: they are the \<open>special\<close> ones.
\<close>

definition special :: "task \<Rightarrow> bool" where
  "special t = (case t of
     TConnect ct \<Rightarrow> (case ct of
         StartConnecting k \<Rightarrow> True | StartReconnectingIf ex k \<Rightarrow> True | ScheduleIfCurrent n k e \<Rightarrow> True
       | Dialed n tr k \<Rightarrow> True | ConnectFailed n tr tok e \<Rightarrow> True | ConnectFailedClosed n tok e \<Rightarrow> True
       | ConnectOk n tr ch res \<Rightarrow> True | _ \<Rightarrow> False)
   | TClient clt \<Rightarrow> (case clt of
         MoveToConnectingFrom tr c r \<Rightarrow> True | ConnectingReported n \<Rightarrow> True | Reader tr ch \<Rightarrow> True | _ \<Rightarrow> False)
   | TCall ct \<Rightarrow> (case ct of AwaitReplyOn n ch \<Rightarrow> True | _ \<Rightarrow> False)
   | TSub st \<Rightarrow> (case st of
         SubscribeStart s k \<Rightarrow> True | MoveToSubscribing s c r \<Rightarrow> True | MoveToSubscribed s res g a \<Rightarrow> True
       | _ \<Rightarrow> False)
   | _ \<Rightarrow> False)"

text \<open>The last segment of \<open>Close\<close> is the only task that closes the callback queue.\<close>

definition closes :: "client_task \<Rightarrow> bool" where
  "closes t = (case t of CloseQueue q k \<Rightarrow> True | _ \<Rightarrow> False)"

locale calm_turns = calm_core +
  assumes C_new_sub: "I w \<Longrightarrow> \<not> sub_exists w (w_next_sid w) \<Longrightarrow> I (after (NewSubscription ch cfg) w)"
    and C_unsubscribed: "pres I (moveToUnsubscribedLocked s c r e)"
    and C_invalidated: "pres I (invalidateState s)"
    and C_removed: "pres I (removeEntry s k)"
    and C_disconnected: "pres I (moveToDisconnectedIf current c r)"
    and C_closed: "pres I (closeCall k)"
    and C_refreshing: "pres I (handleRefreshError gen)" "pres I (refreshReply h gen x)"
begin

lemmas assumed_turns [steady_intro] = C_unsubscribed C_invalidated
  C_removed C_disconnected C_closed C_refreshing

lemma steady_moves1 [steady_intro]:
  "pres I (moveToUnsubscribed s c r)"
  "pres I (unsubscribe s c r b)"
  "pres I (gotSubToken tk s a i)"
  "pres I (subscribeErrorReported s e a g)"
  "pres I (handleUnsubscribe s u)"
  "pres I (unsubscribeIfRefreshCurrent s n i c r)"
  unfolding moveToUnsubscribed_def unsubscribe_def gotSubToken_def subscribeErrorReported_def handleUnsubscribe_def unsubscribeIfRefreshCurrent_def
  by (auto simp: calm_simps intro!: steady_intro calm_intro)

lemma steady_moves2 [steady_intro]:
  "pres I (moveToDisconnected c r)"
  "pres I (moveToDisconnectedFrom t c r)"
  "pres I (disconnect_refresh g c r)"
  unfolding moveToDisconnected_def moveToDisconnectedFrom_def disconnect_refresh_def
  by (auto simp: calm_simps intro!: steady_intro calm_intro)

lemma steady_moves3 [steady_intro]:
  "pres I (gotRefreshToken h g tk)"
  "pres I (refreshSend g tok)"
  "pres I (gotConnectToken h n rd k res)"
  unfolding gotRefreshToken_def refreshSend_def gotConnectToken_def
  by (auto simp: calm_simps intro!: steady_intro calm_intro)

lemma steady_run_connect: "\<not> special (TConnect t) \<Longrightarrow> pres I (run_connect a h t)"
  by (cases t) (auto simp: run_connect_def special_def intro!: steady_intro calm_intro)

lemma calm_run_client: "\<not> special (TClient t) \<Longrightarrow> \<not> closes t \<Longrightarrow> pres I (run_client a h t)"
  by (cases t) (auto simp: run_client_def special_def closes_def intro!: steady_intro calm_intro)

lemma steady_run_call: "\<not> special (TCall t) \<Longrightarrow> pres I (run_call a t)"
  by (cases t) (auto simp: run_call_def special_def intro!: steady_intro calm_intro)

lemma steady_run_sub: "\<not> special (TSub t) \<Longrightarrow> pres I (run_sub a h t)"
  by (cases t) (auto simp: run_sub_def special_def intro!: steady_intro calm_intro)

lemma calm_ordinary: "\<not> special t \<Longrightarrow> (\<And>clt. t = TClient clt \<Longrightarrow> \<not> closes clt) \<Longrightarrow> pres I (run_task a h t)"
  using steady_run_sub steady_run_connect calm_run_client steady_run_call
  by (cases t) (auto simp: run_task_def intro!: steady_intro)

lemma steady_api_step:
  assumes w: "I w" and refs: "well_referenced w"
  shows "I (after (api_step h a) w)"
proof (cases "\<exists>ch cfg. a = ApiNew ch cfg")
  case True
  then obtain ch cfg where a: "a = ApiNew ch cfg" by blast
  have "known (sub_exists w) (w_heap w) (w_next_sid w)" using refs by (simp add: well_referenced_def fit_def)
  then have "\<not> sub_exists w (w_next_sid w)" unfolding known_def by blast
  then show ?thesis using C_new_sub[OF w] a by (simp add: api_step_def split_beta)
next
  case False
  then have "pres I (api_step h a)"
    by (cases a) (auto simp: api_step_def calm_defs kinds intro!: steady_intro calm_intro)
  then show ?thesis using w by (rule presD)
qed

end

text \<open>The same for an invariant that does not mind the callback queue.\<close>

locale steady_turns = steady_core +
  assumes new_sub: "I w \<Longrightarrow> \<not> sub_exists w (w_next_sid w) \<Longrightarrow> I (after (NewSubscription ch cfg) w)"
    and unsubscribed: "pres I (moveToUnsubscribedLocked s c r e)"
    and invalidated: "pres I (invalidateState s)"
    and removed: "pres I (removeEntry s k)"
    and disconnected: "pres I (moveToDisconnectedIf current c r)"
    and closed: "pres I (closeCall k)"
    and refreshing: "pres I (handleRefreshError gen)" "pres I (refreshReply h gen x)"
begin

lemma core_turns: "calm_turns I"
  by unfold_locales (simp_all add: new_sub unsubscribed invalidated removed disconnected closed refreshing)

end

sublocale steady_turns \<subseteq> calm_turns I
  by (rule core_turns)

context steady_turns
begin

lemma steady_run_client: "\<not> special (TClient t) \<Longrightarrow> pres I (run_client a h t)"
  using calm_run_client[of t a h] by (cases "closes t") (auto simp: closes_def run_client_def split: client_task.splits intro!: steady_intro)

lemma steady_ordinary: "\<not> special t \<Longrightarrow> pres I (run_task a h t)"
  using steady_run_sub steady_run_connect steady_run_client steady_run_call
  by (cases t) (auto simp: run_task_def intro!: steady_intro)

end

text \<open>Where the special tasks do not matter either, every step keeps the invariant.\<close>

locale steady = steady_loose + steady_turns +
  assumes reconnecting: "pres I (moveToConnectingFrom h t c r)"
    and connecting: "pres I (startConnecting h cl)" "pres I (startReconnectingIf ex cl)"
    and attempt: "pres I (dialed h n tr cl)" "pres I (connectFailed n tr tok e)"
    and connected: "pres I (connectOk h n tr dch cres)"
    and scheduled: "pres I (connectingReported n)" "pres I (scheduleIfCurrent n cl e)"
      "pres I (connectFailedClosed n tok e)"
    and subscribing: "pres I (moveToSubscribingLocked s c r)"
    and subscribe_start: "pres I (subscribeStart s k)"
    and subscribed: "I w \<Longrightarrow> established w g \<Longrightarrow> I (after (moveToSubscribed h s res g a) w)"
begin

lemmas assumed_moves [steady_intro] = reconnecting connecting attempt connected scheduled subscribing
  subscribe_start

lemma steady_special:
  "special t \<Longrightarrow> (\<And>s res g b. t \<noteq> TSub (MoveToSubscribed s res g b)) \<Longrightarrow> pres I (run_task a h t)"
  by (auto simp: special_def run_task_def run_connect_def run_client_def run_call_def run_sub_def subscribeAgain_def
      intro!: steady_intro split: task.splits connect_task.splits client_task.splits call_task.splits sub_task.splits)

text \<open>A task that is well-referenced, run in the state it is well-referenced in.\<close>

lemma steady_run_task:
  assumes "I w" "fit_task K (established w) t"
  shows "I (after (run_task a h t) w)"
proof (cases "\<exists>s res g b. t = TSub (MoveToSubscribed s res g b)")
  case True
  then show ?thesis using assms subscribed by (auto simp: run_task_def run_sub_def)
next
  case False
  then have "pres I (run_task a h t)" using steady_ordinary steady_special by blast
  then show ?thesis using assms(1) by (rule presD)
qed

lemma steady_thread_step:
  assumes w: "I w" and refs: "well_referenced w"
  shows "I (after (thread_step a i) w)"
proof -
  let ?w = "after (take_task i) w"
  have w1: "I ?w" using steady_take w by (rule presD)
  have "w_cl ?w = w_cl w" by (auto simp: take_task_def split: prod.split list.split)
  then have est: "established ?w = established w" by (simp add: established_def fun_eq_iff)
  show ?thesis
  proof (cases "outcome (take_task i) w")
    case None
    then show ?thesis using w1 by (simp add: thread_step_def split_beta)
  next
    case (Some ht)
    obtain h t ts where ht: "ht = (h, t, ts)" by (cases ht)
    have "fit_task (sub_exists w) (established w) t"
      using fit_take_task[of _ _ w i] refs Some ht unfolding well_referenced_def by blast
    then have "I (after (run_task a h t) ?w)" using w1 steady_run_task est by metis
    moreover have "pres I (put_tasks h us)" for us by (intro steady_intro)
    ultimately show ?thesis using Some ht by (simp add: thread_step_def split_beta pres_def)
  qed
qed

lemma steady_act: "I w \<Longrightarrow> well_referenced w \<Longrightarrow> I (after (act x) w)"
  using steady_thread_step steady_api_step presD[OF loose_fire] presD[OF steady_dispatcher]
  by (cases x) (auto simp: act_def)

lemma steady_step: "reachable w \<Longrightarrow> client_step w w' \<Longrightarrow> I w \<Longrightarrow> I w'"
  using steady_act refs.invariant by (auto elim!: client_stepE)

lemma steady_steps: "client_step\<^sup>*\<^sup>* w w' \<Longrightarrow> reachable w \<Longrightarrow> I w \<Longrightarrow> I w'"
proof (induction rule: rtranclp_induct)
  case (step u v)
  then have "reachable u" using reachable_steps by blast
  with step show ?case using steady_step by blast
qed simp

lemma steady_reachable:
  assumes "\<And>w. client_init w \<Longrightarrow> I w" "reachable w"
  shows "I w"
  using assms(2) by (induction rule: reach.induct) (auto intro: assms(1) steady_step)

end

end
