(* ===== verification/Idle.thy ===== *)
theory Idle
  imports Steady
begin

text \<open>
  What a client that is neither connecting nor connected still holds: nothing. It has no transport,
  no pending request, no waiting connect future and no timer that would reconnect or refresh.
\<close>

definition idle :: "cstate \<Rightarrow> bool" where
  "idle st \<longleftrightarrow> st = StateDisconnected \<or> st = StateClosed"

text \<open>The armed timers of the connection are the ones the client knows.\<close>

definition owned :: "client \<Rightarrow> nat \<Rightarrow> timer \<Rightarrow> bool" where
  "owned c n tm = (case tm of
     TmReconnect \<Rightarrow> c_reconnect_timer c = Some n
   | TmRefresh g \<Rightarrow> c_refresh_timer c = Some n
   | _ \<Rightarrow> True)"

definition timers_owned :: "world \<Rightarrow> bool" where
  "timers_owned w \<longleftrightarrow> (\<forall>n tm d. gm_get (w_timers w) n = Some (tm, d) \<longrightarrow> owned (w_cl w) n tm)"

definition released :: "world \<Rightarrow> bool" where
  "released w \<longleftrightarrow> timers_owned w \<and> (idle (c_state (w_cl w)) \<longrightarrow> c_transport (w_cl w) = None
     \<and> c_requests (w_cl w) = [] \<and> c_reconnect_timer (w_cl w) = None \<and> c_refresh_timer (w_cl w) = None)"

definition busy :: "world \<Rightarrow> bool" where
  "busy w \<longleftrightarrow> timers_owned w \<and> \<not> idle (c_state (w_cl w))"

text \<open>Connect futures wait only while the client is connecting.\<close>

definition settled :: "world \<Rightarrow> bool" where
  "settled w \<longleftrightarrow> (c_state (w_cl w) \<noteq> StateConnecting \<longrightarrow> c_futures (w_cl w) = [])"

lemma idle_simps [simp]:
  "idle StateDisconnected" "idle StateClosed" "\<not> idle StateConnecting" "\<not> idle StateConnected"
  by (simp_all add: idle_def)

lemma busy_released: "busy w \<Longrightarrow> released w"
  by (simp add: busy_def released_def)

lemma released_owned: "released w \<Longrightarrow> timers_owned w"
  by (simp add: released_def)

lemma owned_sub [simp]: "sub_timer tm \<Longrightarrow> owned c n tm"
  by (cases tm) (auto simp: owned_def)

text \<open>\<open>timers_owned\<close> looks at two fields of the client and at the timers.\<close>

lemma owned_same:
  "c_reconnect_timer c = c_reconnect_timer c' \<Longrightarrow> c_refresh_timer c = c_refresh_timer c'
    \<Longrightarrow> owned c n tm = owned c' n tm"
  by (cases tm) (auto simp: owned_def)

lemma timers_owned_cl:
  "timers_owned w \<Longrightarrow> c_reconnect_timer c = c_reconnect_timer (w_cl w)
    \<Longrightarrow> c_refresh_timer c = c_refresh_timer (w_cl w) \<Longrightarrow> timers_owned (w\<lparr>w_cl := c\<rparr>)"
  using owned_same[of c "w_cl w"] by (auto simp: timers_owned_def)

lemma timers_owned_frame:
  "w_timers w' = w_timers w \<Longrightarrow> c_reconnect_timer (w_cl w') = c_reconnect_timer (w_cl w)
    \<Longrightarrow> c_refresh_timer (w_cl w') = c_refresh_timer (w_cl w) \<Longrightarrow> timers_owned w' = timers_owned w"
  using owned_same[of "w_cl w'" "w_cl w"] by (auto simp: timers_owned_def)

lemma timers_owned_put: "timers_owned w \<Longrightarrow> sub_timer tm \<Longrightarrow> timers_owned (w\<lparr>w_timers := gm_put n (tm, d) (w_timers w)\<rparr>)"
  by (cases tm) (auto simp: timers_owned_def owned_def)

lemma timers_owned_del: "timers_owned w \<Longrightarrow> timers_owned (w\<lparr>w_timers := gm_del n (w_timers w)\<rparr>)"
  by (auto simp: timers_owned_def split: if_splits)

lemma gm_del_put_nil [simp]: "gm_del i (gm_put i q []) = []"
  by (simp add: gm_del_def gm_put_def)

lemma gm_del_nil [simp]: "gm_del i [] = []"
  by (simp add: gm_del_def)

section \<open>The primitive effects\<close>

text \<open>Sending leaves the timers alone; without a transport a request is taken back at once.\<close>

definition held :: "world \<Rightarrow> _" where
  "held w = (w_timers w, c_reconnect_timer (w_cl w), c_refresh_timer (w_cl w), c_state (w_cl w),
     c_transport (w_cl w), c_futures (w_cl w))"

lemma held_pop: "keeps held (popRequest i)"
  by (simp add: keeps_def popRequest_def modc_def split_beta held_def)

lemma held_sendOn: "keeps held (sendOn t cmd)"
  by (simp add: keeps_def sendOn_def spawn_def split_beta held_def)

lemma held_send: "keeps held (send cmd)"
  unfolding send_def by (intro keeps_bind keeps_gets keeps_option keeps_return held_sendOn)

lemma held_add: "keeps held (addRequest i r cb)"
  by (simp add: keeps_def addRequest_def modc_def split_beta held_def split: option.split)

lemma held_sendAsyncOn: "keeps held (sendAsyncOn t cmd cb)"
proof -
  have sp: "keeps held (spawn ts)" for ts by (simp add: keeps_def spawn_def held_def)
  show ?thesis
    unfolding sendAsyncOn_def
    by (intro keeps_bind keeps_option keeps_return held_add held_send held_sendOn held_pop sp)
qed

lemma held_owned: "held w' = held w \<Longrightarrow> timers_owned w' = timers_owned w"
  by (rule timers_owned_frame) (simp_all add: held_def)

lemma held_busy: "held w' = held w \<Longrightarrow> busy w' = busy w"
proof -
  assume h: "held w' = held w"
  show ?thesis using h held_owned[OF h] by (simp add: busy_def held_def)
qed

lemma idle_sendAsync:
  "c_transport (w_cl w) = None \<Longrightarrow> c_requests (w_cl w) = []
    \<Longrightarrow> c_requests (w_cl (after (sendAsync cmd cb) w)) = []"
  by (simp add: sendAsync_def sendAsyncOn_def addRequest_def send_def popRequest_def modc_def gm_pop_def split_beta)

lemma released_sendAsync: "pres released (sendAsync cmd cb)"
proof (rule presI)
  fix w assume w: "released w"
  have h: "held (after (sendAsync cmd cb) w) = held w"
    unfolding sendAsync_def by (rule keepsD) (rule held_sendAsyncOn)
  then show "released (after (sendAsync cmd cb) w)"
    using w held_owned[OF h] idle_sendAsync[of w] by (auto simp: released_def held_def)
qed

lemma released_popRequest: "pres released (popRequest i)"
proof (rule presI)
  fix w assume w: "released w"
  have h: "held (after (popRequest i) w) = held w" by (rule keepsD) (rule held_pop)
  have "c_requests (w_cl w) = [] \<Longrightarrow> c_requests (w_cl (after (popRequest i) w)) = []"
    by (simp add: popRequest_def modc_def gm_pop_def split_beta)
  then show "released (after (popRequest i) w)"
    using w held_owned[OF h] h by (auto simp: released_def held_def)
qed

lemma settled_keeps: "keeps held m \<Longrightarrow> pres settled m"
  by (rule pres_keeps[where f = held and J = "\<lambda>(a, b, c, st, t, futs). st \<noteq> StateConnecting \<longrightarrow> futs = []"])
     (simp_all add: settled_def held_def)

lemma busy_keeps: "keeps held m \<Longrightarrow> pres busy m"
  unfolding pres_def keeps_def using held_busy by blast

lemma released_timers_cl:
  "timers_owned w \<Longrightarrow> c_reconnect_timer c = c_reconnect_timer (w_cl w)
    \<Longrightarrow> c_refresh_timer c = c_refresh_timer (w_cl w) \<Longrightarrow> timers_owned (w\<lparr>w_cl := c, w_threads := ths\<rparr>)"
  using timers_owned_frame[of "w\<lparr>w_cl := c, w_threads := ths\<rparr>" w] by simp

lemma future_ops:
  "pres released (onConnect k oper)" "pres busy (onConnect k oper)" "pres settled (onConnect k oper)"
  by (auto simp: pres_def onConnect_def nextFutureID_def modc_def spawn_def released_def busy_def settled_def
      split_beta released_timers_cl split: cstate.split)

interpretation released: steady_base released
proof
  show "released (w\<lparr>w_cl := c\<rparr>)" if "released w" "cview c = cview (w_cl w)" for w c
    using that timers_owned_cl[of w c] by (auto simp: released_def cview_def)
  show "released w'" if "released w" "wview w' = wview w" for w w'
    using that timers_owned_frame[of w' w] by (simp add: released_def wview_def)
  show "released (w\<lparr>w_heap := gm_put s x (w_heap w)\<rparr>)" if "released w" for w s x
    using that by (simp add: released_def timers_owned_def)
  show "released (w\<lparr>w_timers := gm_put n (tm, d) (w_timers w)\<rparr>)" if "released w" "sub_timer tm" for w n tm d
    using that timers_owned_put by (simp add: released_def)
  show "released (w\<lparr>w_timers := gm_del n (w_timers w)\<rparr>)" if "released w" for w n
    using that timers_owned_del by (simp add: released_def)
  show "released (w\<lparr>w_wire := w_wire w @ [(t, cmd)]\<rparr>)" if "released w" for w t cmd
    using that by (simp add: released_def timers_owned_def)
  show "released (w\<lparr>w_cl := (w_cl w)\<lparr>c_futures := gm_del i (c_futures (w_cl w))\<rparr>\<rparr>)"
    "released (w\<lparr>w_cl := (w_cl w)\<lparr>c_futures := []\<rparr>\<rparr>)" if "released w" for w i
    using that by (auto simp: released_def intro!: timers_owned_cl)
qed (simp_all add: released_sendAsync released_popRequest future_ops)

interpretation busy: steady_base busy
proof
  show "busy (w\<lparr>w_cl := c\<rparr>)" if "busy w" "cview c = cview (w_cl w)" for w c
    using that timers_owned_cl[of w c] by (auto simp: busy_def cview_def)
  show "busy w'" if "busy w" "wview w' = wview w" for w w'
    using that timers_owned_frame[of w' w] by (simp add: busy_def wview_def)
  show "busy (w\<lparr>w_heap := gm_put s x (w_heap w)\<rparr>)" if "busy w" for w s x
    using that by (simp add: busy_def timers_owned_def)
  show "busy (w\<lparr>w_timers := gm_put n (tm, d) (w_timers w)\<rparr>)" if "busy w" "sub_timer tm" for w n tm d
    using that timers_owned_put by (simp add: busy_def)
  show "busy (w\<lparr>w_timers := gm_del n (w_timers w)\<rparr>)" if "busy w" for w n
    using that timers_owned_del by (simp add: busy_def)
  show "busy (w\<lparr>w_wire := w_wire w @ [(t, cmd)]\<rparr>)" if "busy w" for w t cmd
    using that by (simp add: busy_def timers_owned_def)
  show "busy (w\<lparr>w_cl := (w_cl w)\<lparr>c_futures := gm_del i (c_futures (w_cl w))\<rparr>\<rparr>)"
    "busy (w\<lparr>w_cl := (w_cl w)\<lparr>c_futures := []\<rparr>\<rparr>)" if "busy w" for w i
    using that by (auto simp: busy_def intro!: timers_owned_cl)
  show "pres busy (sendAsync cmd cb)" for cmd cb
    unfolding sendAsync_def by (rule busy_keeps) (rule held_sendAsyncOn)
  show "pres busy (popRequest i)" for i by (rule busy_keeps) (rule held_pop)
qed (simp_all add: future_ops)

interpretation settled: steady_base settled
proof
  show "pres settled (sendAsync cmd cb)" for cmd cb
    unfolding sendAsync_def by (rule settled_keeps) (rule held_sendAsyncOn)
  show "pres settled (popRequest i)" for i by (rule settled_keeps) (rule held_pop)
qed (simp_all add: settled_def cview_def wview_def future_ops)

end
