(* ===== verification/Teardown.thy ===== *)
theory Teardown
  imports Idle Demo
begin

text \<open>
  The transitions of the client keep the invariants of \<open>Idle\<close>: a teardown stops the timers, drops
  the transport, hands every pending request to a goroutine that fails it, and resolves the
  connect futures, all in one lock hold.
\<close>

section \<open>Frames of the three invariants\<close>

declare released.core.steady_modc [steady_intro del] released.core.steady_mods [steady_intro del] released.base_ops [steady_intro del]
declare busy.core.steady_modc [steady_intro del] busy.core.steady_mods [steady_intro del] busy.base_ops [steady_intro del]
declare settled.core.steady_modc [steady_intro del] settled.core.steady_mods [steady_intro del] settled.base_ops [steady_intro del]

lemma released_mods [steady_intro]: "pres released (mods s f)" "pres busy (mods s f)" "pres settled (mods s f)"
  by (simp_all add: pres_def mods_def released_def busy_def settled_def timers_owned_def)

lemma released_modc [steady_intro]:
  "(\<And>c. c_reconnect_timer (f c) = c_reconnect_timer c) \<Longrightarrow> (\<And>c. c_refresh_timer (f c) = c_refresh_timer c)
    \<Longrightarrow> (\<And>c. c_state (f c) = c_state c) \<Longrightarrow> (\<And>c. c_transport (f c) = c_transport c)
    \<Longrightarrow> (\<And>c. c_requests (f c) = c_requests c) \<Longrightarrow> pres released (modc f)"
  by (auto simp: pres_def modc_def released_def intro!: timers_owned_cl)

lemma busy_modc [steady_intro]:
  "(\<And>c. c_reconnect_timer (f c) = c_reconnect_timer c) \<Longrightarrow> (\<And>c. c_refresh_timer (f c) = c_refresh_timer c)
    \<Longrightarrow> (\<And>c. idle (c_state (f c)) \<Longrightarrow> idle (c_state c)) \<Longrightarrow> pres busy (modc f)"
  by (auto simp: pres_def modc_def busy_def intro!: timers_owned_cl)

lemma settled_modc [steady_intro]:
  "(\<And>c. c_state (f c) = c_state c) \<Longrightarrow> (\<And>c. c_futures (f c) = c_futures c) \<Longrightarrow> pres settled (modc f)"
  by (auto simp: pres_def modc_def settled_def)

section \<open>Subscriptions\<close>

lemma heap_new [steady_intro]:
  "pres released (modify (\<lambda>w. w\<lparr>w_next_sid := n, w_heap := w_heap w @ xs\<rparr>))"
  "pres busy (modify (\<lambda>w. w\<lparr>w_next_sid := n, w_heap := w_heap w @ xs\<rparr>))"
  "pres settled (modify (\<lambda>w. w\<lparr>w_next_sid := n, w_heap := w_heap w @ xs\<rparr>))"
  by (simp_all add: pres_def released_def busy_def settled_def timers_owned_def)

lemma sub_registry [steady_intro]:
  "pres released (updateSubscriptionPushID s a b)" "pres busy (updateSubscriptionPushID s a b)"
  "pres settled (updateSubscriptionPushID s a b)"
  by (auto simp: updateSubscriptionPushID_def intro!: steady_intro)

lemma released_sub_moves [steady_intro]:
  "pres released (NewSubscription ch cfg)" "pres released (moveToUnsubscribedLocked s c r e)"
  "pres released (moveToSubscribingLocked s c r)" "pres released (subscribeStart s k)"
  "pres released (enterSubscribed h s res pubs ds)" "pres released (invalidateState s)"
  by (auto simp: NewSubscription_def moveToUnsubscribedLocked_def moveToSubscribingLocked_def
      subscribeStart_def enterSubscribed_def invalidateState_def intro!: steady_intro)

lemma settled_sub_moves [steady_intro]:
  "pres settled (NewSubscription ch cfg)" "pres settled (moveToUnsubscribedLocked s c r e)"
  "pres settled (moveToSubscribingLocked s c r)" "pres settled (subscribeStart s k)"
  "pres settled (enterSubscribed h s res pubs ds)" "pres settled (invalidateState s)"
  by (auto simp: NewSubscription_def moveToUnsubscribedLocked_def moveToSubscribingLocked_def
      subscribeStart_def enterSubscribed_def invalidateState_def intro!: steady_intro)

lemma busy_sub_moves [steady_intro]: "pres busy (moveToSubscribingLocked s c r)"
  by (auto simp: moveToSubscribingLocked_def intro!: steady_intro)

lemma sub_transitions:
  "pres released (moveToSubscribed h s res g a)" "pres settled (moveToSubscribed h s res g a)"
  "pres released (removeEntry s k)" "pres settled (removeEntry s k)"
  by (auto simp: moveToSubscribed_def removeEntry_def intro!: steady_intro)

section \<open>The teardown\<close>

text \<open>Spawning goroutines leaves everything else alone.\<close>

lemma spawn_frames [simp]:
  "w_cl (after (for_each (\<lambda>q. spawn (g q)) qs) w) = w_cl w"
  "w_timers (after (for_each (\<lambda>q. spawn (g q)) qs) w) = w_timers w"
  by (induction qs arbitrary: w) (simp_all add: spawn_def split_beta)

lemma clear_releases:
  assumes "timers_owned w"
  shows "timers_owned (after clearConnectedState w) \<and> c_requests (w_cl (after clearConnectedState w)) = []
    \<and> c_reconnect_timer (w_cl (after clearConnectedState w)) = None
    \<and> c_refresh_timer (w_cl (after clearConnectedState w)) = None
    \<and> c_state (w_cl (after clearConnectedState w)) = c_state (w_cl w)
    \<and> c_transport (w_cl (after clearConnectedState w)) = c_transport (w_cl w)"
proof -
  have gone: "sub_timer tm" if g: "gm_get (w_timers w) n = Some (tm, d)"
    "c_reconnect_timer (w_cl w) \<noteq> Some n" "c_refresh_timer (w_cl w) \<noteq> Some n" for n tm d
  proof -
    have "owned (w_cl w) n tm" using assms g(1) unfolding timers_owned_def by blast
    then show ?thesis using g by (cases tm) (auto simp: owned_def)
  qed
  show ?thesis
    by (auto simp: clearConnectedState_def modc_def split_beta stop_timer_def close_chan_def timers_owned_def
        split: option.split if_splits intro!: owned_sub; erule gone; simp)
qed

text \<open>The state that follows a teardown, as a triple.\<close>

definition torn :: "cstate \<Rightarrow> world \<Rightarrow> bool" where
  "torn st w \<longleftrightarrow> timers_owned w \<and> c_state (w_cl w) = st \<and> c_transport (w_cl w) = None"

lemma clear_torn: "triple (torn st) clearConnectedState (\<lambda>_ w. released w \<and> c_state (w_cl w) = st)"
  using clear_releases by (auto simp: triple_def torn_def released_def)

lemma drop_torn:
  assumes "timers_owned w"
  shows "torn (c_state (w_cl w)) (after drop_transport w)"
proof -
  let ?w = "after drop_transport w"
  have "w_timers ?w = w_timers w \<and> c_reconnect_timer (w_cl ?w) = c_reconnect_timer (w_cl w)
      \<and> c_refresh_timer (w_cl ?w) = c_refresh_timer (w_cl w) \<and> c_state (w_cl ?w) = c_state (w_cl w)
      \<and> c_transport (w_cl ?w) = None"
    by (simp add: drop_transport_def close_transport_def setTransportLocked_def modc_def split_beta split: option.split)
  then show ?thesis using assms timers_owned_frame[of ?w w] by (simp add: torn_def)
qed

lemma set_torn: "torn st w \<Longrightarrow> torn st' (after (setStateLocked st') w)"
  by (auto simp: torn_def setStateLocked_def modc_def intro!: timers_owned_cl)

lemma bump_torn:
  "torn st w \<Longrightarrow> torn st (after (modc (\<lambda>c. c\<lparr>c_attempt := Suc (c_attempt c)\<rparr>)) w)"
  "timers_owned w \<Longrightarrow> timers_owned (after (modc (\<lambda>c. c\<lparr>c_attempt := Suc (c_attempt c)\<rparr>)) w)"
  by (auto simp: torn_def modc_def intro!: timers_owned_cl)

lemma released_subs [steady_intro]:
  "pres released subs_to_subscribing" "pres settled subs_to_subscribing" "pres busy subs_to_subscribing"
  by (auto simp: subs_to_subscribing_def intro!: steady_intro)

lemma disconnect_releases: "timers_owned w \<Longrightarrow> released (after (disconnect_now code reason) w)"
proof -
  assume w: "timers_owned w"
  let ?a = "after (modc (\<lambda>c. c\<lparr>c_attempt := Suc (c_attempt c)\<rparr>)) w"
  let ?b = "after (setStateLocked StateDisconnected) (after drop_transport ?a)"
  have "torn StateDisconnected ?b" using drop_torn bump_torn(2)[OF w] set_torn by blast
  then have c: "released (after clearConnectedState ?b)" using clear_torn by (auto simp: triple_def)
  have "pres released (do {
     resolveConnectFutures (Some (Sentinel ErrClientDisconnected));
     subs_to_subscribing;
     serverSubs \<leftarrow> getc (\<lambda>c. gm_keys (c_server_subs c));
     ev \<leftarrow> getc c_events;
     when_do (prevState = StateConnected \<and> ev HServerSubscribing)
       (do { _ \<leftarrow> queueEvent (JEvents (map EvServerSubscribing serverSubs)); ret () });
     when_do (ev HDisconnected)
       (do { _ \<leftarrow> queueEvent (JEvents [EvDisconnected code reason]); ret () }) })" for prevState
    by (intro steady_intro)
  from presD[OF this c] show ?thesis
    unfolding disconnect_now_def by (simp add: split_beta)
qed

lemma close_releases: "timers_owned w \<Longrightarrow> released (after close_now w)"
proof -
  assume w: "timers_owned w"
  let ?a = "after (modc (\<lambda>c. c\<lparr>c_attempt := Suc (c_attempt c)\<rparr>)) (after (setStateLocked StateClosed) w)"
  have "timers_owned (after (setStateLocked StateClosed) w)"
    using w by (auto simp: setStateLocked_def modc_def intro!: timers_owned_cl)
  moreover have "c_state (w_cl ?a) = StateClosed" by (simp add: setStateLocked_def modc_def)
  ultimately have "torn StateClosed (after drop_transport ?a)" using drop_torn bump_torn(2) by metis
  then have "released (after clearConnectedState (after drop_transport ?a))" using clear_torn by (auto simp: triple_def)
  from presD[OF released.core.steady_futures(1) this] show ?thesis
    unfolding close_now_def by (simp add: split_beta)
qed

lemma reconnect_releases: "timers_owned w \<Longrightarrow> released (after (reconnect_now h code reason) w)"
proof -
  assume w: "timers_owned w"
  let ?b = "after (setStateLocked StateConnecting) (after drop_transport w)"
  have "torn StateConnecting ?b" using drop_torn[OF w] set_torn by blast
  then have c: "released (after clearConnectedState ?b)" using clear_torn by (auto simp: triple_def)
  have "pres released (do {
     resolveConnectFutures (Some (Sentinel ErrClientDisconnected));
     subs_to_subscribing;
     serverSubs \<leftarrow> getc (\<lambda>c. gm_keys (c_server_subs c));
     ev \<leftarrow> getc c_events;
     d1 \<leftarrow> queue_if (ev HServerSubscribing) (JEvents (map EvServerSubscribing serverSubs));
     d2 \<leftarrow> queue_if (ev HConnecting) (JEvents [EvConnecting code reason]);
     ret (waitEvent h (case d2 of None \<Rightarrow> d1 | Some n \<Rightarrow> Some n)
       @ [TClient (ConnectingReported teardownAttempt)]) })" for teardownAttempt
    by (intro steady_intro)
  from presD[OF this c] show ?thesis
    unfolding reconnect_now_def by (simp add: split_beta)
qed

section \<open>Scheduling\<close>

text \<open>A timer is armed only when the client is busy, and replaces the one it knew.\<close>

text \<open>A timer of the connection that is not the one the client knows is not armed.\<close>

lemma reconnect_timer_known:
  "timers_owned w \<Longrightarrow> gm_get (w_timers w) n = Some (TmReconnect, d) \<Longrightarrow> c_reconnect_timer (w_cl w) = Some n"
  unfolding timers_owned_def owned_def by fastforce

lemma refresh_timer_known:
  "timers_owned w \<Longrightarrow> gm_get (w_timers w) n = Some (TmRefresh g, d) \<Longrightarrow> c_refresh_timer (w_cl w) = Some n"
  unfolding timers_owned_def owned_def by fastforce

lemma timers_ownedI:
  "(\<And>n d. gm_get (w_timers w) n = Some (TmReconnect, d) \<Longrightarrow> c_reconnect_timer (w_cl w) = Some n)
    \<Longrightarrow> (\<And>n g d. gm_get (w_timers w) n = Some (TmRefresh g, d) \<Longrightarrow> c_refresh_timer (w_cl w) = Some n)
    \<Longrightarrow> timers_owned w"
  unfolding timers_owned_def owned_def by (auto split: timer.split)

lemma schedule_effect:
  "w_timers (after scheduleReconnectLocked w) = gm_put (w_next w) (TmReconnect,
        timeBeforeNextAttempt (en_for_attempt (w_env w)) (c_strategy (w_cl w)) (Suc (c_reconnect_attempts (w_cl w))))
      (case c_reconnect_timer (w_cl w) of None \<Rightarrow> w_timers w | Some t \<Rightarrow> gm_del t (w_timers w))"
  "c_reconnect_timer (w_cl (after scheduleReconnectLocked w)) = Some (w_next w)"
  "c_refresh_timer (w_cl (after scheduleReconnectLocked w)) = c_refresh_timer (w_cl w)"
  "c_state (w_cl (after scheduleReconnectLocked w)) = c_state (w_cl w)"
  by (cases "c_reconnect_timer (w_cl w)";
      simp add: scheduleReconnectLocked_def after_func_def fresh_def stop_timer_def modc_def split_beta)+

lemma schedule_refresh_effect:
  "w_timers (after (scheduleRefreshLocked dl) w)
      = gm_put (w_next w) (TmRefresh (c_generation (w_cl w)), refresh_delay dl)
      (case c_refresh_timer (w_cl w) of None \<Rightarrow> w_timers w | Some t \<Rightarrow> gm_del t (w_timers w))"
  "c_refresh_timer (w_cl (after (scheduleRefreshLocked dl) w)) = Some (w_next w)"
  "c_reconnect_timer (w_cl (after (scheduleRefreshLocked dl) w)) = c_reconnect_timer (w_cl w)"
  "c_state (w_cl (after (scheduleRefreshLocked dl) w)) = c_state (w_cl w)"
  by (cases "c_refresh_timer (w_cl w)";
      simp add: scheduleRefreshLocked_def after_func_def fresh_def stop_timer_def modc_def split_beta)+

lemma busy_schedule:
  assumes "busy w"
  shows "busy (after scheduleReconnectLocked w)" "busy (after (scheduleRefreshLocked dl) w)"
proof -
  have o: "timers_owned w" and i: "\<not> idle (c_state (w_cl w))" using assms by (simp_all add: busy_def)
  have "timers_owned (after scheduleReconnectLocked w)"
    by (rule timers_ownedI; unfold schedule_effect; cases "c_reconnect_timer (w_cl w)")
       (auto split: if_splits dest: reconnect_timer_known[OF o] refresh_timer_known[OF o])
  then show "busy (after scheduleReconnectLocked w)" using i by (simp add: busy_def schedule_effect)
  have "timers_owned (after (scheduleRefreshLocked dl) w)"
    by (rule timers_ownedI; unfold schedule_refresh_effect; cases "c_refresh_timer (w_cl w)")
       (auto split: if_splits dest: reconnect_timer_known[OF o] refresh_timer_known[OF o])
  then show "busy (after (scheduleRefreshLocked dl) w)" using i by (simp add: busy_def schedule_refresh_effect)
qed

lemma busy_schedules [steady_intro]:
  "pres busy scheduleReconnectLocked" "pres busy (scheduleRefreshLocked d)"
  using busy_schedule by (auto simp: pres_def)

lemma settled_schedules [steady_intro]:
  "pres settled scheduleReconnectLocked" "pres settled (scheduleRefreshLocked d)"
proof -
  have "pres settled (after_func d tm)" for d tm
    by (simp add: pres_def after_func_def fresh_def split_beta settled_def)
  then show "pres settled scheduleReconnectLocked" "pres settled (scheduleRefreshLocked d)"
    unfolding scheduleReconnectLocked_def scheduleRefreshLocked_def
    by (intro pres_bind pres_gets settled.steady_stop settled_modc; simp)+
qed

text \<open>Behind the check of the attempt or of the session the client is busy.\<close>

lemma released_behind:
  assumes "\<And>w. g w \<Longrightarrow> \<not> idle (c_state (w_cl w))" "pres busy (k True)" "pres released (k False)"
  shows "pres released (State_Monad.bind (gets g) k)"
proof (rule presI)
  fix w assume w: "released w"
  show "released (after (State_Monad.bind (gets g) k) w)"
  proof (cases "g w")
    case True
    then have "busy w" using w assms(1) by (simp add: busy_def released_def)
    then show ?thesis using True presD[OF assms(2)] busy_released by simp
  next
    case False
    then show ?thesis using w presD[OF assms(3)] by simp
  qed
qed

lemma released_current:
  "pres busy (k True) \<Longrightarrow> pres released (k False) \<Longrightarrow> pres released (State_Monad.bind (isCurrentAttemptLocked n) k)"
  unfolding isCurrentAttemptLocked_def by (rule released_behind) auto

lemma released_refresh_current:
  "pres busy (k True) \<Longrightarrow> pres released (k False) \<Longrightarrow> pres released (State_Monad.bind (isConnRefreshCurrent gn) k)"
  unfolding isConnRefreshCurrent_def by (rule released_behind) auto

section \<open>Every transition keeps the invariants\<close>

lemma released_disconnect [steady_intro]: "pres released (moveToDisconnectedIf current c r)"
  using disconnect_releases released_owned
  by (auto simp: pres_def moveToDisconnectedIf_def split_beta)

lemma busy_clear [steady_intro]: "pres busy clearConnectedState"
  using clear_releases by (auto simp: pres_def busy_def)

lemma busy_retry: "pres busy (retry_connecting t)"
  by (auto simp: retry_connecting_def setTransportLocked_def intro!: steady_intro)

lemma released_moveToConnectingFrom: "pres released (moveToConnectingFrom h t c r)"
proof (rule presI)
  fix w assume w: "released w"
  have "released (after (retry_connecting t') w)" if "c_state (w_cl w) = StateConnecting" for t'
    using presD[OF busy_retry] w that busy_released by (simp add: busy_def released_def)
  moreover have "released (after (reconnect_now h c r) w)"
    by (rule reconnect_releases) (rule released_owned[OF w])
  ultimately show "released (after (moveToConnectingFrom h t c r) w)"
    using w by (cases "c_state (w_cl w)"; cases t) (auto simp: moveToConnectingFrom_def split_beta)
qed

lemma released_closeCall: "pres released (closeCall k)"
proof (rule presI)
  fix w assume w: "released w"
  have "pres released (return_to c e)" for c e by (intro steady_intro)
  from presD[OF this w] show "released (after (closeCall k) w)"
    using close_releases[OF released_owned[OF w]] by (simp add: closeCall_def split_beta)
qed

lemma released_setState [steady_intro]: "\<not> idle st \<Longrightarrow> pres released (setStateLocked st)"
  by (auto simp: pres_def setStateLocked_def modc_def released_def intro!: timers_owned_cl)

lemma released_drop [steady_intro]: "pres released drop_transport"
proof (rule presI)
  fix w assume w: "released w"
  have "c_requests (w_cl (after drop_transport w)) = c_requests (w_cl w)
      \<and> c_reconnect_timer (w_cl (after drop_transport w)) = c_reconnect_timer (w_cl w)
      \<and> c_refresh_timer (w_cl (after drop_transport w)) = c_refresh_timer (w_cl w)"
    by (simp add: drop_transport_def close_transport_def setTransportLocked_def modc_def split_beta split: option.split)
  then show "released (after drop_transport w)"
    using w drop_torn[OF released_owned[OF w]] by (simp add: released_def torn_def)
qed

lemma released_connecting: "pres released (startConnecting h cl)" "pres released (startReconnectingIf ex cl)"
  by (auto simp: startConnecting_def startReconnectingIf_def intro!: steady_intro)

lemma busy_sendAsyncOn [steady_intro]: "pres busy (sendAsyncOn t cmd cb)"
  by (rule busy_keeps) (rule held_sendAsyncOn)

lemma busy_sendConnect [steady_intro]: "pres busy (sendConnect t cb)"
  by (auto simp: sendConnect_def intro!: steady_intro)

lemma released_attempt:
  "pres released (dialed h n tr cl)" "pres released (connectFailed n tr tok e)"
  "pres released (connectOk h n tr dch cres)"
  unfolding dialed_def connectFailed_def connectOk_def setTransportLocked_def setStateLocked_def
  by (rule released_current; auto intro!: steady_intro)+

lemma released_scheduled:
  "pres released (connectingReported n)" "pres released (scheduleIfCurrent n cl e)"
  "pres released (handleRefreshError gen)"
  unfolding connectingReported_def scheduleIfCurrent_def handleRefreshError_def
  by (rule released_current released_refresh_current; auto intro!: steady_intro)+

lemma released_connectFailedClosed: "pres released (connectFailedClosed n tok e)"
proof -
  have 1: "pres released (State_Monad.bind (isCurrentAttemptLocked n) (\<lambda>ok. do {
       cfg \<leftarrow> getc c_cfg;
       token \<leftarrow> getc c_token;
       when_do ok (do {
         when_do (cfg_get_token cfg \<or> token = tok) (modc (\<lambda>c. c\<lparr>c_refresh_required := True\<rparr>));
         scheduleReconnectLocked }) }))"
    by (rule released_current; auto intro!: steady_intro)
  have 2: "pres released (State_Monad.bind (isCurrentAttemptLocked n) (\<lambda>ok. when_do ok scheduleReconnectLocked))"
    by (rule released_current; auto intro!: steady_intro)
  show ?thesis
    unfolding connectFailedClosed_def
    by (intro pres_if 1 2 pres_option pres_bind pres_return released_disconnect)
qed

lemma released_refreshReply: "pres released (refreshReply h gen x)"
proof (rule presI)
  fix w assume w: "released w"
  have d: "pres released (disconnect_refresh g c r)" for g c r
    unfolding disconnect_refresh_def by (intro steady_intro)
  have e: "pres released (do { ts \<leftarrow> handleError h er; ret (ts @ us) })" for er us by (intro steady_intro)
  have b: "pres busy (when_do bb (scheduleRefreshLocked dd))" for bb dd by (intro steady_intro)
  have "released (after (when_do bb (scheduleRefreshLocked dd)) w)"
    if "c_state (w_cl w) = StateConnected" for bb dd
    using presD[OF b] w that busy_released by (simp add: busy_def released_def)
  moreover have "pres released panic" by (intro steady_intro)
  ultimately show "released (after (refreshReply h gen x) w)"
    using w presD[OF d w] presD[OF e w]
    by (auto simp: refreshReply_def isConnRefreshCurrent_def split_beta pres_def split: sum.split option.split)
qed

interpretation released: steady released
  by unfold_locales
    (simp_all only: presD[OF released_sub_moves(1)] presD[OF sub_transitions(1)] released_sub_moves sub_transitions released_disconnect released_moveToConnectingFrom
      released_closeCall released_connecting released_attempt released_scheduled released_connectFailedClosed
      released_refreshReply)

section \<open>Connect futures are resolved by every transition\<close>

lemma settled_resolve: "settled (after (resolveConnectFutures e) w)"
  by (simp add: resolveConnectFutures_def modc_def settled_def split_beta)

lemma settled_transition:
  "pres settled m \<Longrightarrow> settled (after m (after (resolveConnectFutures e) w))"
  by (erule presD) (rule settled_resolve)

lemma settled_clear [steady_intro]: "pres settled clearConnectedState" "pres settled drop_transport"
  by (auto simp: clearConnectedState_def drop_transport_def setTransportLocked_def intro!: steady_intro)

lemma settled_disconnect_now: "settled (after (disconnect_now c r) w)"
proof -
  have "pres settled (do {
     subs_to_subscribing;
     serverSubs \<leftarrow> getc (\<lambda>c. gm_keys (c_server_subs c));
     ev \<leftarrow> getc c_events;
     when_do (prevState = StateConnected \<and> ev HServerSubscribing)
       (do { _ \<leftarrow> queueEvent (JEvents (map EvServerSubscribing serverSubs)); ret () });
     when_do (ev HDisconnected)
       (do { _ \<leftarrow> queueEvent (JEvents [EvDisconnected c r]); ret () }) })" for prevState
    by (intro steady_intro)
  from settled_transition[OF this] show ?thesis unfolding disconnect_now_def by (simp add: split_beta)
qed

lemma settled_reconnect_now: "settled (after (reconnect_now h c r) w)"
proof -
  have "pres settled (do {
     subs_to_subscribing;
     serverSubs \<leftarrow> getc (\<lambda>c. gm_keys (c_server_subs c));
     ev \<leftarrow> getc c_events;
     d1 \<leftarrow> queue_if (ev HServerSubscribing) (JEvents (map EvServerSubscribing serverSubs));
     d2 \<leftarrow> queue_if (ev HConnecting) (JEvents [EvConnecting c r]);
     ret (waitEvent h (case d2 of None \<Rightarrow> d1 | Some n \<Rightarrow> Some n)
       @ [TClient (ConnectingReported teardownAttempt)]) })" for teardownAttempt
    by (intro steady_intro)
  from settled_transition[OF this] show ?thesis unfolding reconnect_now_def by (simp add: split_beta)
qed

lemma settled_disconnect [steady_intro]: "pres settled (moveToDisconnectedIf current c r)"
  using settled_disconnect_now by (auto simp: pres_def moveToDisconnectedIf_def split_beta)

lemma settled_moveToConnectingFrom: "pres settled (moveToConnectingFrom h t c r)"
proof (rule presI)
  fix w assume w: "settled w"
  have "pres settled (retry_connecting t')" for t'
    by (auto simp: retry_connecting_def setTransportLocked_def intro!: steady_intro)
  from presD[OF this w] show "settled (after (moveToConnectingFrom h t c r) w)"
    using w settled_reconnect_now
    by (cases "c_state (w_cl w)"; cases t) (auto simp: moveToConnectingFrom_def split_beta)
qed

lemma settled_closeCall: "pres settled (closeCall k)"
proof (rule presI)
  fix w assume w: "settled w"
  have "settled (after close_now w')" for w'
    unfolding close_now_def by (simp add: split_beta settled_resolve)
  moreover have "pres settled (return_to c e)" for c e by (intro steady_intro)
  ultimately show "settled (after (closeCall k) w)"
    using w by (auto simp: closeCall_def split_beta pres_def)
qed

lemma settled_connecting: "pres settled (startConnecting h cl)" "pres settled (startReconnectingIf ex cl)"
proof -
  have [steady_intro]: "pres settled (setStateLocked StateConnecting)"
    by (simp add: pres_def setStateLocked_def modc_def settled_def)
  show "pres settled (startConnecting h cl)" "pres settled (startReconnectingIf ex cl)"
    by (auto simp: startConnecting_def startReconnectingIf_def intro!: steady_intro)
qed

lemma settled_sendAsyncOn [steady_intro]: "pres settled (sendAsyncOn t cmd cb)"
  by (rule settled_keeps) (rule held_sendAsyncOn)

lemma settled_attempt: "pres settled (dialed h n tr cl)" "pres settled (connectFailed n tr tok e)"
  by (auto simp: dialed_def connectFailed_def sendConnect_def setTransportLocked_def intro!: steady_intro)

lemma settled_connectOk: "pres settled (connectOk h n tr dch cres)"
proof -
  have "pres settled (do {
       ev \<leftarrow> getc c_events;
       d \<leftarrow> queue_if (ev HConnected) (JEvents [EvConnected (cr_client cres) (cr_version cres) (cr_data cres)]);
       ret (waitEvent h d @ [TConnect (ConnectSubs n tr dch cres (cr_subs cres))]) })"
    by (intro steady_intro)
  note * = settled_transition[OF this]
  have "pres settled (close_transport t)" for t by (intro steady_intro)
  with * show ?thesis
    by (auto simp: pres_def connectOk_def isCurrentAttemptLocked_def split_beta)
qed

lemma settled_scheduled:
  "pres settled (connectingReported n)" "pres settled (scheduleIfCurrent n cl e)"
  "pres settled (connectFailedClosed n tok e)" "pres settled (handleRefreshError gen)"
  "pres settled (refreshReply h gen x)"
  by (auto simp: connectingReported_def scheduleIfCurrent_def connectFailedClosed_def handleRefreshError_def
      refreshReply_def disconnect_refresh_def intro!: steady_intro)

interpretation settled: steady settled
  by unfold_locales
    (simp_all only: presD[OF settled_sub_moves(1)] presD[OF sub_transitions(2)] settled_sub_moves sub_transitions settled_disconnect settled_moveToConnectingFrom
      settled_closeCall settled_connecting settled_attempt settled_connectOk settled_scheduled)

section \<open>Properties\<close>

lemma released_reachable: "reachable w \<Longrightarrow> released w"
  by (rule released.steady_reachable)
    (auto simp: client_init_def initial_world_def newClient_def released_def timers_owned_def Let_def)

lemma settled_reachable: "reachable w \<Longrightarrow> settled w"
  by (rule settled.steady_reachable)
    (auto simp: client_init_def initial_world_def newClient_def settled_def Let_def)

text \<open>
  C10: a client that was disconnected or closed holds nothing of the connection it had: no
  transport, no request that waits for a reply, no call that waits for the connection, and no armed
  timer that would reconnect or refresh the token. So it never reconnects by itself, and no call is
  left waiting for a connection that will not come.
\<close>

theorem disconnected_holds_nothing:
  assumes "reachable w" "c_state (w_cl w) = StateDisconnected \<or> c_state (w_cl w) = StateClosed"
  shows "c_transport (w_cl w) = None \<and> c_requests (w_cl w) = [] \<and> c_futures (w_cl w) = []
    \<and> gm_get (w_timers w) n \<noteq> Some (TmReconnect, d) \<and> gm_get (w_timers w) n \<noteq> Some (TmRefresh g, d)"
proof -
  have r: "released w" "settled w" using assms(1) released_reachable settled_reachable by auto
  have i: "idle (c_state (w_cl w))" "c_state (w_cl w) \<noteq> StateConnecting" using assms(2) by (auto simp: idle_def)
  have "gm_get (w_timers w) n \<noteq> Some (TmReconnect, d)" "gm_get (w_timers w) n \<noteq> Some (TmRefresh g, d)"
    using r(1) i reconnect_timer_known[of w n d] refresh_timer_known[of w n g d] by (auto simp: released_def)
  then show ?thesis using r i by (simp add: released_def settled_def)
qed

definition demo_disconnected :: world where
  "demo_disconnected = run_actions (demo_connect @ [Api False ApiDisconnect] @ go 1 2 @ go 2 0) demo_start"

theorem disconnected_holds_nothing_witness:
  "c_state (w_cl demo_disconnected) = StateDisconnected \<and> c_transport (w_cl demo_disconnected) = None
    \<and> gm_get (w_timers demo_disconnected) 0 \<noteq> Some (TmReconnect, 0)"
proof -
  have run: "run_then (demo_connect @ [Api False ApiDisconnect] @ go 1 2 @ go 2 0)
      (\<lambda>w. c_state (w_cl w) = StateDisconnected) demo_start"
    by code_simp
  then have "reachable demo_disconnected"
    unfolding demo_disconnected_def using reachable_start by (simp add: run_then_iff reachable_run)
  moreover have st: "c_state (w_cl demo_disconnected) = StateDisconnected"
    using run by (simp add: run_then_iff demo_disconnected_def)
  ultimately show ?thesis using disconnected_holds_nothing[of demo_disconnected 0 0 0] by simp
qed

text \<open>
  C27: a call of the application waits for the connection only while the client is connecting; every
  transition that ends the connecting phase (connected, disconnected, closed) resolves all of them
  in the same lock hold.
\<close>

theorem futures_only_while_connecting:
  assumes "reachable w" "gm_get (c_futures (w_cl w)) i = Some (k, oper)"
  shows "c_state (w_cl w) = StateConnecting"
  using settled_reachable[OF assms(1)] assms(2) by (auto simp: settled_def)

definition demo_waiting :: world where
  "demo_waiting = run_actions ([Api False ApiConnect] @ go 5 0
     @ [Api False (ApiCall (OpPresence ''a''))] @ go 1 2 @ go 1 0) demo_start"

theorem futures_only_while_connecting_witness: "c_state (w_cl demo_waiting) = StateConnecting"
proof (rule futures_only_while_connecting)
  have run: "run_then ([Api False ApiConnect] @ go 5 0 @ [Api False (ApiCall (OpPresence ''a''))] @ go 1 2 @ go 1 0)
      (\<lambda>w. gm_get (c_futures (w_cl w)) 1 = Some (1, OpPresence ''a'')) demo_start"
    by code_simp
  then show "reachable demo_waiting"
    unfolding demo_waiting_def using reachable_start by (simp add: run_then_iff reachable_run)
  show "gm_get (c_futures (w_cl demo_waiting)) 1 = Some (1, OpPresence ''a'')"
    using run by (simp add: run_then_iff demo_waiting_def)
qed

end
