(* ===== verification/Sessions.thy ===== *)
theory Sessions
  imports Steady Demo
begin

text \<open>
  Subscriptions live in a connection. A registered subscription is in the subscribed state only
  while the client is connected (or is being closed); a subscribe reply that comes late, after the
  connection it was sent on is gone, is recognised by its generation and does not subscribe.
\<close>

section \<open>Subscribed only while connected\<close>

definition bound :: "world \<Rightarrow> bool" where
  "bound w \<longleftrightarrow> c_state (w_cl w) = StateConnected \<or> c_state (w_cl w) = StateClosed
     \<or> (\<forall>s \<in> set (gm_vals (c_subs (w_cl w))). s_state (sub_at w s) \<noteq> SubStateSubscribed)"

lemma sub_at_same: "w_heap w' = w_heap w \<Longrightarrow> sub_at w' s = sub_at w s"
  by (simp add: sub_at_def)

lemma bound_frame:
  "w_heap w' = w_heap w \<Longrightarrow> c_subs (w_cl w') = c_subs (w_cl w) \<Longrightarrow> c_state (w_cl w') = c_state (w_cl w)
    \<Longrightarrow> bound w' = bound w"
  by (simp add: bound_def sub_at_def)

text \<open>What sending leaves alone.\<close>

definition seat :: "world \<Rightarrow> (sid, sub) gomap \<times> (channel, sid) gomap \<times> (int, sid) gomap
    \<times> cstate \<times> tr option \<times> nat \<times> int" where
  "seat w = (w_heap w, c_subs (w_cl w), c_subs_by_id (w_cl w), c_state (w_cl w), c_transport (w_cl w),
     c_attempt (w_cl w), c_generation (w_cl w))"

lemma seat_basic [keeps_intro]:
  "keeps seat (popRequest i)" "keeps seat (sendOn t cmd)" "keeps seat (addRequest i r cb)"
  "keeps seat (spawn ts)" "keeps seat nextFutureID" "keeps seat (stop_timer n)" "keeps seat (close_chan ch)"
  by (simp_all add: keeps_def popRequest_def sendOn_def addRequest_def spawn_def nextFutureID_def modc_def
      stop_timer_def close_chan_def split_beta seat_def split: option.split)

lemma seat_send [keeps_intro]: "keeps seat (send cmd)"
  unfolding send_def by (auto intro!: keeps_intro)

lemma seat_sendAsyncOn [keeps_intro]: "keeps seat (sendAsyncOn t cmd cb)"
  unfolding sendAsyncOn_def by (auto intro!: keeps_intro)

lemma seat_onConnect [keeps_intro]: "keeps seat (onConnect k oper)"
  unfolding onConnect_def by (auto simp: seat_def intro!: keeps_intro)

lemma bound_seat: "keeps seat m \<Longrightarrow> pres bound m"
  by (rule pres_keeps[where f = seat and J = "\<lambda>(h, subs, ids, st, r). st = StateConnected \<or> st = StateClosed
      \<or> (\<forall>s \<in> set (gm_vals subs). s_state (case gm_get h s of None \<Rightarrow> no_sub | Some x \<Rightarrow> x) \<noteq> SubStateSubscribed)"])
     (simp_all add: bound_def seat_def sub_at_def)

lemma bound_put:
  "bound w \<Longrightarrow> s_state x \<noteq> SubStateSubscribed \<or> s_state x = s_state (sub_at w s)
    \<Longrightarrow> bound (w\<lparr>w_heap := gm_put s x (w_heap w)\<rparr>)"
  by (auto simp: bound_def)

interpretation bound: steady_base bound
proof
  show "bound (w\<lparr>w_heap := gm_put s x (w_heap w)\<rparr>)" if "bound w" "sview x = sview (sub_at w s)" for w s x
    using that by (intro bound_put) (auto simp: sview_def)
  show "pres bound (sendAsync cmd cb)" for cmd cb unfolding sendAsync_def by (rule bound_seat) (rule seat_sendAsyncOn)
  show "pres bound (popRequest i)" for i by (rule bound_seat) (rule seat_basic)
  show "pres bound (onConnect k oper)" for k oper by (rule bound_seat) (rule seat_onConnect)
qed (simp_all add: bound_def cview_def wview_def sub_at_def)

declare bound.core.steady_modc [steady_intro del] bound.core.steady_mods [steady_intro del] bound.base_ops [steady_intro del]

lemma bound_modc [steady_intro]:
  "(\<And>c. c_state (f c) = c_state c) \<Longrightarrow> (\<And>c. c_subs (f c) = c_subs c) \<Longrightarrow> pres bound (modc f)"
  by (simp add: pres_def modc_def bound_def)

lemma bound_mods [steady_intro]:
  "(\<And>x. s_state (f x) = SubStateSubscribed \<Longrightarrow> s_state x = SubStateSubscribed) \<Longrightarrow> pres bound (mods s f)"
  by (auto simp: pres_def mods_def intro!: bound_put)

section \<open>Moving the registered subscriptions\<close>

lemma bound_sub_moves [steady_intro]:
  "pres bound (updateSubscriptionPushID s a b)"
  "pres bound (moveToUnsubscribedLocked s c r e)" "pres bound (moveToSubscribingLocked s c r)"
  "pres bound (subscribeStart s k)" "pres bound (invalidateState s)"
  by (auto simp: updateSubscriptionPushID_def moveToUnsubscribedLocked_def moveToSubscribingLocked_def
      subscribeStart_def invalidateState_def intro!: steady_intro)

text \<open>Once connected, a client stays \<open>bound\<close> whatever happens to subscriptions.\<close>

definition up :: "world \<Rightarrow> bool" where
  "up w \<longleftrightarrow> c_state (w_cl w) = StateConnected"

lemma up_conn: "keeps conn m \<Longrightarrow> pres up m"
  by (rule pres_keeps[where f = conn and J = "\<lambda>c. fst c = StateConnected"]) (simp_all add: up_def conn_def)

lemma up_bound: "up w \<Longrightarrow> bound w"
  by (simp add: up_def bound_def)

lemma bound_moveToSubscribed:
  assumes "bound w" "established w g"
  shows "bound (after (moveToSubscribed h s res g a) w)"
proof (cases "g = c_generation (w_cl w)")
  case True
  then have "up w" using assms(2) by (simp add: established_def up_def)
  then have "up (after (moveToSubscribed h s res g a) w)" by (rule presD[OF up_conn[OF conn_sub_flow4(1)]])
  then show ?thesis by (rule up_bound)
next
  case False
  have "pres bound (scheduleResubscribe s)" by (intro steady_intro)
  then show ?thesis using assms(1) False by (simp add: moveToSubscribed_def split_beta pres_def)
qed

text \<open>After the loop of a teardown no registered subscription is subscribed.\<close>

lemma subscribing_moves:
  "s_state (sub_at (after (moveToSubscribingLocked s c r) w) s) \<noteq> SubStateSubscribed
    \<and> (s_state (sub_at w s') \<noteq> SubStateSubscribed \<longrightarrow>
       s_state (sub_at (after (moveToSubscribingLocked s c r) w) s') \<noteq> SubStateSubscribed)"
proof (cases "s_state (sub_at w s) = SubStateUnsubscribed")
  case True
  then show ?thesis by (simp add: moveToSubscribingLocked_def)
next
  case False
  let ?m = "do { mods s (\<lambda>x. x\<lparr>s_resubscribe_attempts := 0\<rparr>); stop_sub_timers s }"
  let ?w = "after (mods s (\<lambda>x. x\<lparr>s_state := SubStateSubscribing\<rparr>)) (after ?m w)"
  have timers: "w_heap (after (stop_sub_timers s) v) = w_heap v" for v
    by (simp add: stop_sub_timers_def stop_timer_def split_beta split: option.split)
  have queue: "w_heap (after (queueSubscribingLocked s c r) v) = w_heap v" for v
    by (simp add: queueSubscribingLocked_def queueEvent_def push_job_def fresh_def split_beta)
  have "w_heap (after (moveToSubscribingLocked s c r) w) = w_heap ?w"
    using False by (simp add: moveToSubscribingLocked_def split_beta queue)
  then have eq: "sub_at (after (moveToSubscribingLocked s c r) w) x = sub_at ?w x" for x by (rule sub_at_same)
  show ?thesis
    unfolding eq using sub_at_same[OF timers] by (simp add: mods_def split_beta)
qed

lemma subscribing_loop:
  "s_state (sub_at (after (for_each (\<lambda>s. moveToSubscribingLocked s c r) ss) w) s') \<noteq> SubStateSubscribed"
  if "s' \<in> set ss \<or> s_state (sub_at w s') \<noteq> SubStateSubscribed"
  using that
proof (induction ss arbitrary: w)
  case (Cons s ss)
  let ?w = "after (moveToSubscribingLocked s c r) w"
  have "s' \<in> set ss \<or> s_state (sub_at ?w s') \<noteq> SubStateSubscribed"
    using Cons.prems subscribing_moves[of s c r w] subscribing_moves[of s c r w s'] by auto
  from Cons.IH[OF this] show ?case by (simp add: split_beta)
qed simp

lemma subs_registry_kept: "keeps (\<lambda>w. c_subs (w_cl w)) (moveToSubscribingLocked s c r)"
proof -
  have [keeps_intro]: "keeps (\<lambda>w. c_subs (w_cl w)) (stop_sub_timers s)"
    "keeps (\<lambda>w. c_subs (w_cl w)) (queueSubscribingLocked s c r)" "keeps (\<lambda>w. c_subs (w_cl w)) (mods s f)" for f
    by (simp_all add: keeps_def stop_sub_timers_def stop_timer_def queueSubscribingLocked_def queueEvent_def
        push_job_def fresh_def mods_def split_beta split: option.split)
  show ?thesis unfolding moveToSubscribingLocked_def by (auto intro!: keeps_intro)
qed

lemma subs_unbound: "bound (after subs_to_subscribing w)"
proof -
  have "keeps (\<lambda>w. c_subs (w_cl w)) subs_to_subscribing"
    unfolding subs_to_subscribing_def by (intro keeps_intro subs_registry_kept)
  then have c: "c_subs (w_cl (after subs_to_subscribing w)) = c_subs (w_cl w)" by (simp add: keeps_def)
  show ?thesis
    unfolding bound_def c using subscribing_loop
    by (auto simp: subs_to_subscribing_def)
qed

section \<open>Every transition keeps it\<close>

lemma sub_at_appended:
  "sub_at (w\<lparr>w_next_sid := n, w_heap := w_heap w @ [(s, x)]\<rparr>) s' =
     (if s' = s \<and> \<not> sub_exists w s then x else sub_at w s')"
  by (auto simp: sub_at_def sub_exists_def gm_get_def map_add_def split: option.split)

lemma new_sub_unsubscribed [simp]: "s_state (newSubscription ch cfg) = SubStateUnsubscribed"
  by (simp add: newSubscription_def Let_def)

lemma bound_NewSubscription:
  assumes w: "bound w" and new: "\<not> sub_exists w (w_next_sid w)"
  shows "bound (after (NewSubscription ch cfg) w)"
proof -
  let ?s = "w_next_sid w"
  let ?w = "w\<lparr>w_next_sid := Suc ?s, w_heap := w_heap w @ [(?s, newSubscription ch cfg)]\<rparr>"
  have "s_state (sub_at ?w s) = SubStateSubscribed \<Longrightarrow> s \<noteq> ?s \<and> s_state (sub_at w s) = SubStateSubscribed" for s
    using new by (auto simp: sub_at_appended split: if_splits)
  then have "bound (?w\<lparr>w_cl := (w_cl w)\<lparr>c_subs := gm_put ch ?s (c_subs (w_cl w))\<rparr>\<rparr>)"
    using w by (auto simp: bound_def dest!: put_vals)
  then show ?thesis using w by (simp add: NewSubscription_def modc_def split_beta)
qed

lemma bound_removeEntry: "pres bound (removeEntry s k)"
proof -
  have "pres bound (modc (\<lambda>c. c\<lparr>c_subs := gm_del x (c_subs c)\<rparr>))" for x
    by (auto simp: pres_def modc_def bound_def dest!: del_vals)
  then show ?thesis
    unfolding removeEntry_def
    by (intro pres_bind pres_gets pres_when bound.core.steady_effects bound.core.steady_sub_api1)
qed

lemma bound_after_loop:
  "pres bound m \<Longrightarrow> bound (after m (after subs_to_subscribing w))"
  by (erule presD) (rule subs_unbound)

lemma bound_disconnect [steady_intro]: "pres bound (moveToDisconnectedIf current c r)"
proof -
  have "pres bound (do {
     serverSubs \<leftarrow> getc (\<lambda>c. gm_keys (c_server_subs c));
     ev \<leftarrow> getc c_events;
     when_do (prevState = StateConnected \<and> ev HServerSubscribing)
       (do { _ \<leftarrow> queueEvent (JEvents (map EvServerSubscribing serverSubs)); ret () });
     when_do (ev HDisconnected)
       (do { _ \<leftarrow> queueEvent (JEvents [EvDisconnected c r]); ret () }) })" for prevState
    by (intro steady_intro)
  from bound_after_loop[OF this] have "bound (after (disconnect_now c r) w)" for w
    unfolding disconnect_now_def by (simp add: split_beta)
  then show ?thesis by (auto simp: pres_def moveToDisconnectedIf_def split_beta)
qed

lemma bound_clear [steady_intro]: "pres bound clearConnectedState" "pres bound drop_transport"
  "pres bound (after_func d tm)"
proof -
  show "pres bound (after_func d tm)" for d tm
    by (rule bound_seat) (simp add: keeps_def after_func_def fresh_def split_beta seat_def)
  show "pres bound clearConnectedState" "pres bound drop_transport"
    by (auto simp: clearConnectedState_def drop_transport_def setTransportLocked_def intro!: steady_intro)
qed

lemma bound_schedules [steady_intro]: "pres bound scheduleReconnectLocked" "pres bound (scheduleRefreshLocked d)"
  unfolding scheduleReconnectLocked_def scheduleRefreshLocked_def
  by (intro pres_bind pres_gets bound.steady_stop bound_modc bound_clear; simp)+

lemma bound_moveToConnectingFrom: "pres bound (moveToConnectingFrom h t c r)"
proof (rule presI)
  fix w assume w: "bound w"
  have "pres bound (retry_connecting t')" for t'
    by (auto simp: retry_connecting_def setTransportLocked_def intro!: steady_intro)
  note retry = presD[OF this w]
  have "pres bound (do {
     serverSubs \<leftarrow> getc (\<lambda>c. gm_keys (c_server_subs c));
     ev \<leftarrow> getc c_events;
     d1 \<leftarrow> queue_if (ev HServerSubscribing) (JEvents (map EvServerSubscribing serverSubs));
     d2 \<leftarrow> queue_if (ev HConnecting) (JEvents [EvConnecting c r]);
     ret (waitEvent h (case d2 of None \<Rightarrow> d1 | Some n \<Rightarrow> Some n)
       @ [TClient (ConnectingReported teardownAttempt)]) })" for teardownAttempt
    by (intro steady_intro)
  from bound_after_loop[OF this] have "bound (after (reconnect_now h c r) w)"
    unfolding reconnect_now_def by (simp add: split_beta)
  with retry show "bound (after (moveToConnectingFrom h t c r) w)"
    using w by (cases "c_state (w_cl w)"; cases t) (auto simp: moveToConnectingFrom_def split_beta)
qed

lemma bound_closeCall: "pres bound (closeCall k)"
proof (rule presI)
  fix w assume w: "bound w"
  have "c_state (w_cl (after close_now w)) = StateClosed"
    using does_close unfolding conn_does_def conn_def by (auto split: prod.splits)
  then have "bound (after close_now w)" by (simp add: bound_def)
  moreover have "pres bound (return_to c e)" for c e by (intro steady_intro)
  ultimately show "bound (after (closeCall k) w)"
    using w by (auto simp: closeCall_def split_beta pres_def)
qed

lemma bound_startConnecting: "pres bound (startConnecting h cl)"
proof (rule presI)
  fix w assume w: "bound w"
  have ret: "pres bound (return_to cl e)" for e by (intro steady_intro)
  let ?open = "do { ch \<leftarrow> getc c_close_ch;
       when_do (ch = None) (do { n \<leftarrow> fresh; modc (\<lambda>c. c\<lparr>c_close_ch := Some n\<rparr>) }) }"
  let ?rest = "do { attempt \<leftarrow> getc c_attempt;
       ev \<leftarrow> getc c_events;
       d \<leftarrow> queue_if (ev HConnecting) (JEvents [EvConnecting connectingConnectCalled ''connect called'']);
       ret (waitEvent h d @ [TConnect (StartReconnectingIf (Some attempt) cl)]) }"
  have rest: "pres bound ?open" "pres bound ?rest" by (auto intro!: steady_intro)
  show "bound (after (startConnecting h cl) w)"
  proof (cases "c_state (w_cl w) = StateDisconnected")
    case True
    let ?w = "after ?open w"
    have "c_state (w_cl ?w) = StateDisconnected" using True by (simp add: fresh_def modc_def split_beta)
    then have "bound (after (setStateLocked StateConnecting) ?w)"
      using presD[OF rest(1) w] by (simp add: bound_def setStateLocked_def modc_def)
    from presD[OF rest(2) this] show ?thesis using True by (simp add: startConnecting_def split_beta)
  next
    case False
    then show ?thesis using w presD[OF ret w] by (cases "c_state (w_cl w)") (auto simp: startConnecting_def split_beta)
  qed
qed

lemma bound_sendAsyncOn [steady_intro]: "pres bound (sendAsyncOn t cmd cb)"
  by (rule bound_seat) (rule seat_sendAsyncOn)

lemma bound_connecting:
  "pres bound (startReconnectingIf ex cl)" "pres bound (dialed h n tr cl)" "pres bound (connectFailed n tr tok e)"
  by (auto simp: startReconnectingIf_def dialed_def connectFailed_def sendConnect_def setTransportLocked_def
      intro!: steady_intro)

lemma bound_connectOk: "pres bound (connectOk h n tr dch cres)"
proof -
  have "pres up (do {
       when_do (cr_expires cres) (scheduleRefreshLocked (ttl_duration (cr_ttl cres)));
       resolveConnectFutures None;
       ev \<leftarrow> getc c_events;
       d \<leftarrow> queue_if (ev HConnected) (JEvents [EvConnected (cr_client cres) (cr_version cres) (cr_data cres)]);
       ret (waitEvent h d @ [TConnect (ConnectSubs n tr dch cres (cr_subs cres))]) })"
    by (rule up_conn) (intro keeps_intro)
  moreover have "up (after (setStateLocked StateConnected) w)" for w by (simp add: up_def setStateLocked_def modc_def)
  ultimately have "up (after (do {
       setStateLocked StateConnected;
       when_do (cr_expires cres) (scheduleRefreshLocked (ttl_duration (cr_ttl cres)));
       resolveConnectFutures None;
       ev \<leftarrow> getc c_events;
       d \<leftarrow> queue_if (ev HConnected) (JEvents [EvConnected (cr_client cres) (cr_version cres) (cr_data cres)]);
       ret (waitEvent h d @ [TConnect (ConnectSubs n tr dch cres (cr_subs cres))]) }) w)" for w
    by (simp add: pres_def split_beta)
  note ok = up_bound[OF this]
  have "pres bound (close_transport tr)" by (intro steady_intro)
  with ok show ?thesis
    unfolding pres_def connectOk_def isCurrentAttemptLocked_def by (auto simp: split_beta)
qed

lemma bound_scheduled:
  "pres bound (connectingReported n)" "pres bound (scheduleIfCurrent n cl e)"
  "pres bound (connectFailedClosed n tok e)" "pres bound (handleRefreshError gen)"
  "pres bound (refreshReply h gen x)"
  by (auto simp: connectingReported_def scheduleIfCurrent_def connectFailedClosed_def handleRefreshError_def
      refreshReply_def disconnect_refresh_def intro!: steady_intro)

interpretation bound: steady bound
  by unfold_locales
    (simp_all add: bound_NewSubscription bound_moveToSubscribed bound_sub_moves bound_removeEntry bound_disconnect
      bound_moveToConnectingFrom bound_closeCall bound_startConnecting bound_connecting bound_connectOk bound_scheduled)

lemma bound_reachable: "reachable w \<Longrightarrow> bound w"
  by (rule bound.steady_reachable)
    (auto simp: client_init_def initial_world_def newClient_def bound_def Let_def)

section \<open>Properties\<close>

text \<open>
  C7: a subscription the client has in its registry is subscribed only while the client is
  connected, or is being closed: no reply that arrives after the connection was lost, however late
  and in whatever interleaving, puts a subscription into the subscribed state of a connection that
  is gone.
\<close>

theorem subscribed_while_connected:
  assumes "reachable w" "gm_get (c_subs (w_cl w)) ch = Some s" "s_state (sub_at w s) = SubStateSubscribed"
  shows "c_state (w_cl w) = StateConnected \<or> c_state (w_cl w) = StateClosed"
  using bound_reachable[OF assms(1)] gm_get_vals[OF assms(2)] assms(3) by (auto simp: bound_def)

theorem subscribed_while_connected_witness: "c_state (w_cl demo_live) = StateConnected"
proof -
  have "gm_get (c_subs (w_cl demo_live)) ''ch'' = Some 0" "s_state (sub_at demo_live 0) = SubStateSubscribed"
    "c_state (w_cl demo_live) \<noteq> StateClosed" using demo_live by (simp_all add: gm_get_def)
  then show ?thesis using subscribed_while_connected[OF reachable_demo(3)] by blast
qed

end
