(* ===== verification/Routing.thy ===== *)
theory Routing
  imports Sessions
begin

text \<open>
  The registries of subscriptions, by channel and by the numeric id of the server, and the routing
  of pushes through them: a push reaches the subscription it is for, or none.
\<close>

section \<open>The registries\<close>

definition routed :: "world \<Rightarrow> bool" where
  "routed w \<longleftrightarrow>
     (\<forall>i s. gm_get (c_subs_by_id (w_cl w)) i = Some s \<longrightarrow>
        i > 0 \<and> s_push_id (sub_at w s) = i \<and> s_state (sub_at w s) \<noteq> SubStateUnsubscribed)
     \<and> (\<forall>ch s. gm_get (c_subs (w_cl w)) ch = Some s \<longrightarrow> sub_exists w s \<and> s_channel (sub_at w s) = ch)"

text \<open>A subscription that is not unsubscribed, in the middle of its transition.\<close>

definition live :: "sid \<Rightarrow> world \<Rightarrow> bool" where
  "live s w \<longleftrightarrow> routed w \<and> s_state (sub_at w s) \<noteq> SubStateUnsubscribed"

lemma routed_same:
  assumes "w_heap w' = w_heap w" "c_subs (w_cl w') = c_subs (w_cl w)" "c_subs_by_id (w_cl w') = c_subs_by_id (w_cl w)"
  shows "routed w' = routed w"
  unfolding routed_def sub_exists_def assms sub_at_same[OF assms(1)] ..

lemma seat_same:
  assumes "seat w' = seat w"
  shows "routed w' = routed w" "live s w' = live s w"
proof -
  have *: "w_heap w' = w_heap w" using assms by (simp add: seat_def)
  show r: "routed w' = routed w" using assms by (intro routed_same) (simp_all add: seat_def)
  show "live s w' = live s w" unfolding live_def r sub_at_same[OF *] ..
qed

lemma seat_routed: "keeps seat m \<Longrightarrow> pres routed m" "keeps seat m \<Longrightarrow> pres (live s) m"
  unfolding keeps_def pres_def using seat_same by blast+

lemma sub_exists_put [simp]: "sub_exists (w\<lparr>w_heap := gm_put s x (w_heap w)\<rparr>) s' = (s' = s \<or> sub_exists w s')"
  by (simp add: sub_exists_def)

text \<open>A write that keeps the id and the channel, and does not unsubscribe.\<close>

lemma routed_put:
  assumes "routed w" "s_push_id x = s_push_id (sub_at w s)" "s_channel x = s_channel (sub_at w s)"
    "s_state x = SubStateUnsubscribed \<Longrightarrow> s_state (sub_at w s) = SubStateUnsubscribed"
  shows "routed (w\<lparr>w_heap := gm_put s x (w_heap w)\<rparr>)"
  using assms by (auto simp: routed_def)

lemma live_put:
  assumes "live s' w" "s_push_id x = s_push_id (sub_at w s)" "s_channel x = s_channel (sub_at w s)"
    "s_state x = SubStateUnsubscribed \<Longrightarrow> s_state (sub_at w s) = SubStateUnsubscribed"
  shows "live s' (w\<lparr>w_heap := gm_put s x (w_heap w)\<rparr>)"
  using assms routed_put[of w x s] by (auto simp: live_def)

lemma routed_cl: "routed w \<Longrightarrow> c_subs c = c_subs (w_cl w) \<Longrightarrow> c_subs_by_id c = c_subs_by_id (w_cl w)
    \<Longrightarrow> routed (w\<lparr>w_cl := c\<rparr>)"
  using routed_same[of "w\<lparr>w_cl := c\<rparr>" w] by simp

lemma live_cl: "live s w \<Longrightarrow> c_subs c = c_subs (w_cl w) \<Longrightarrow> c_subs_by_id c = c_subs_by_id (w_cl w)
    \<Longrightarrow> live s (w\<lparr>w_cl := c\<rparr>)"
  using routed_cl[of w c] by (simp add: live_def)

lemma live_same:
  assumes "w_heap w' = w_heap w" "w_cl w' = w_cl w"
  shows "live s w' = live s w"
  using routed_same[of w' w] sub_at_same[OF assms(1)] assms by (simp add: live_def)

interpretation routed: steady_base routed
proof
  show "routed (w\<lparr>w_heap := gm_put s x (w_heap w)\<rparr>)" if "routed w" "sview x = sview (sub_at w s)" for w s x
    using that by (intro routed_put) (auto simp: sview_def)
  show "routed (w\<lparr>w_cl := c\<rparr>)" if "routed w" "cview c = cview (w_cl w)" for w c
    using that by (intro routed_cl) (simp_all add: cview_def)
  show "routed w'" if "routed w" "wview w' = wview w" for w w'
    using that routed_same[of w' w] by (simp add: wview_def)
  show "pres routed (sendAsync cmd cb)" for cmd cb
    unfolding sendAsync_def by (intro seat_routed seat_sendAsyncOn)
  show "pres routed (popRequest i)" for i by (intro seat_routed seat_basic)
  show "pres routed (onConnect k oper)" for k oper by (intro seat_routed seat_onConnect)
  show "routed (w\<lparr>w_cl := (w_cl w)\<lparr>c_futures := gm_del i (c_futures (w_cl w))\<rparr>\<rparr>)"
    "routed (w\<lparr>w_cl := (w_cl w)\<lparr>c_futures := []\<rparr>\<rparr>)" if "routed w" for w i
    using that by (simp_all add: routed_cl)
  show "routed (w\<lparr>w_timers := gm_put n (tm, d) (w_timers w)\<rparr>)" "routed (w\<lparr>w_timers := gm_del n (w_timers w)\<rparr>)"
    "routed (w\<lparr>w_wire := w_wire w @ [(t, cmd)]\<rparr>)" if "routed w" for w n tm d t cmd
    using that by (subst routed_same[of _ w]; simp)+
qed

interpretation live: steady_base "live s" for s
proof
  show "live s' (w\<lparr>w_heap := gm_put s x (w_heap w)\<rparr>)" if "live s' w" "sview x = sview (sub_at w s)" for w s x s'
    using that by (intro live_put) (auto simp: sview_def)
  show "live s (w\<lparr>w_cl := c\<rparr>)" if "live s w" "cview c = cview (w_cl w)" for w c s
    using that by (intro live_cl) (simp_all add: cview_def)
  show "live s w'" if "live s w" "wview w' = wview w" for w w' s
    using that live_same[of w' w] by (simp add: wview_def)
  show "pres (live s) (sendAsync cmd cb)" for cmd cb s
    unfolding sendAsync_def by (intro seat_routed seat_sendAsyncOn)
  show "pres (live s) (popRequest i)" for i s by (intro seat_routed seat_basic)
  show "pres (live s) (onConnect k oper)" for k oper s by (intro seat_routed seat_onConnect)
  show "live s (w\<lparr>w_cl := (w_cl w)\<lparr>c_futures := gm_del i (c_futures (w_cl w))\<rparr>\<rparr>)"
    "live s (w\<lparr>w_cl := (w_cl w)\<lparr>c_futures := []\<rparr>\<rparr>)" if "live s w" for w i s
    using that by (simp_all add: live_cl)
  show "live s (w\<lparr>w_timers := gm_put n (tm, d) (w_timers w)\<rparr>)" "live s (w\<lparr>w_timers := gm_del n (w_timers w)\<rparr>)"
    "live s (w\<lparr>w_wire := w_wire w @ [(t, cmd)]\<rparr>)" if "live s w" for w n tm d t cmd s
    using that by (subst live_same[of _ w]; simp)+
qed

declare routed.core.steady_modc [steady_intro del] routed.core.steady_mods [steady_intro del] routed.base_ops [steady_intro del]

lemma routed_modc [steady_intro]:
  "(\<And>c. c_subs (f c) = c_subs c) \<Longrightarrow> (\<And>c. c_subs_by_id (f c) = c_subs_by_id c) \<Longrightarrow> pres routed (modc f)"
  by (simp add: pres_def modc_def routed_cl)

lemma routed_mods [steady_intro]:
  "(\<And>x. s_push_id (f x) = s_push_id x) \<Longrightarrow> (\<And>x. s_channel (f x) = s_channel x)
    \<Longrightarrow> (\<And>x. s_state (f x) = SubStateUnsubscribed \<Longrightarrow> s_state x = SubStateUnsubscribed) \<Longrightarrow> pres routed (mods s f)"
  by (auto simp: pres_def mods_def intro!: routed_put)

section \<open>Giving an id away\<close>

text \<open>Without the id it is registered under, a subscription may change its state and its id.\<close>

lemma routed_unregistered:
  assumes w: "routed w" and f: "s_channel x = s_channel (sub_at w s)"
    and gone: "\<And>i. gm_get (c_subs_by_id (w_cl w)) i \<noteq> Some s"
  shows "routed (w\<lparr>w_heap := gm_put s x (w_heap w)\<rparr>)"
  using assms by (auto simp: routed_def)

text \<open>\<open>routed_but s w\<close>: \<open>s\<close> may be in a state or have an id that does not fit its registry entry, the
  only one it can have.\<close>

definition routed_but :: "sid \<Rightarrow> int \<Rightarrow> world \<Rightarrow> bool" where
  "routed_but s p w \<longleftrightarrow>
     (\<forall>i s'. gm_get (c_subs_by_id (w_cl w)) i = Some s' \<longrightarrow> i > 0 \<and> (if s' = s then i = p
        else s_push_id (sub_at w s') = i \<and> s_state (sub_at w s') \<noteq> SubStateUnsubscribed))
     \<and> (\<forall>ch s'. gm_get (c_subs (w_cl w)) ch = Some s' \<longrightarrow> sub_exists w s' \<and> s_channel (sub_at w s') = ch)"

lemma routed_but_id:
  "routed_but s p w \<Longrightarrow> gm_get (c_subs_by_id (w_cl w)) i = Some s' \<Longrightarrow> i > 0 \<and> (if s' = s then i = p
     else s_push_id (sub_at w s') = i \<and> s_state (sub_at w s') \<noteq> SubStateUnsubscribed)"
  unfolding routed_but_def by blast

lemma routed_but: "routed w \<Longrightarrow> routed_but s (s_push_id (sub_at w s)) w"
  by (auto simp: routed_def routed_but_def)

lemma routed_but_put:
  "routed_but s p w \<Longrightarrow> s_channel x = s_channel (sub_at w s) \<Longrightarrow> routed_but s p (w\<lparr>w_heap := gm_put s x (w_heap w)\<rparr>)"
  by (auto simp: routed_but_def)

lemma routed_update:
  assumes w: "routed_but s p w" and q: "q > 0 \<Longrightarrow> s_push_id (sub_at w s) = q \<and> s_state (sub_at w s) \<noteq> SubStateUnsubscribed"
  shows "routed (after (updateSubscriptionPushID s p q) w)"
proof -
  have h: "w_heap (after (updateSubscriptionPushID s p q) w) = w_heap w"
    "c_subs (w_cl (after (updateSubscriptionPushID s p q) w)) = c_subs (w_cl w)"
    by (simp_all add: updateSubscriptionPushID_def modc_def split_beta)
  have ids: "gm_get (c_subs_by_id (w_cl (after (updateSubscriptionPushID s p q) w))) i =
      (if q > 0 \<and> i = q then Some s
       else if p > 0 \<and> i = p \<and> gm_get (c_subs_by_id (w_cl w)) p = Some s then None
       else gm_get (c_subs_by_id (w_cl w)) i)" for i
    by (simp add: updateSubscriptionPushID_def modc_def split_beta)
  show ?thesis
    using w q unfolding routed_def ids h sub_at_same[OF h(1)] sub_exists_def routed_but_def
    by (auto split: if_splits)
qed

text \<open>What unsubscribing and a state invalidation do with the id of the subscription.\<close>

definition changing :: "sid \<Rightarrow> world \<Rightarrow> bool" where
  "changing s w \<longleftrightarrow> routed_but s (s_push_id (sub_at w s)) w"

lemma routed_no_id:
  assumes "changing s w" "s_push_id (sub_at w s) = 0"
  shows "routed w"
proof -
  have but: "routed_but s 0 w" using assms by (simp add: changing_def)
  have "i > 0 \<and> s_push_id (sub_at w s') = i \<and> s_state (sub_at w s') \<noteq> SubStateUnsubscribed"
    if "gm_get (c_subs_by_id (w_cl w)) i = Some s'" for i s'
    using routed_but_id[OF but that] by (cases "s' = s") auto
  then show ?thesis using but unfolding routed_but_def routed_def by blast
qed

lemma routed_drop_id:
  "triple (\<lambda>w. changing s w \<and> s_push_id (sub_at w s) = pid)
     (when_do (pid \<noteq> 0) (do { updateSubscriptionPushID s pid 0; mods s (\<lambda>x. x\<lparr>s_push_id := 0\<rparr>) }))
     (\<lambda>_. routed)"
  unfolding triple_def
proof (intro allI impI)
  fix w assume w: "changing s w \<and> s_push_id (sub_at w s) = pid"
  let ?m = "do { updateSubscriptionPushID s pid 0; mods s (\<lambda>x. x\<lparr>s_push_id := 0\<rparr>) }"
  have but: "routed_but s pid w" using w by (auto simp: changing_def)
  let ?w = "after (updateSubscriptionPushID s pid 0) w"
  have r: "routed ?w" using routed_update[OF but, of 0] by simp
  have gone: "gm_get (c_subs_by_id (w_cl ?w)) i \<noteq> Some s" for i
  proof
    assume "gm_get (c_subs_by_id (w_cl ?w)) i = Some s"
    then have "gm_get (c_subs_by_id (w_cl w)) i = Some s \<and> \<not> (pid > 0 \<and> i = pid)"
      by (auto simp: updateSubscriptionPushID_def modc_def split_beta split: if_splits)
    with routed_but_id[OF but, of i s] show False by simp
  qed
  have "routed (?w\<lparr>w_heap := gm_put s ((sub_at ?w s)\<lparr>s_push_id := 0\<rparr>) (w_heap ?w)\<rparr>)"
    by (rule routed_unregistered[OF r _ gone]) simp
  then have "routed (after ?m w)" by (simp add: mods_def split_beta)
  then show "routed (after (when_do (pid \<noteq> 0) ?m) w)"
    using w routed_no_id[of s w] by (cases "pid = 0") simp_all
qed

lemma changing_mods: "(\<And>x. s_channel (f x) = s_channel x) \<Longrightarrow> (\<And>x. s_push_id (f x) = s_push_id x)
    \<Longrightarrow> triple routed (mods s f) (\<lambda>_. changing s)"
  by (auto simp: triple_def changing_def mods_def dest!: routed_but[of _ s] intro!: routed_but_put)

lemma triple_pres: "pres P m \<Longrightarrow> triple P m (\<lambda>_. P)"
  by (simp add: triple_def pres_def)

lemma triple_gets: "(\<And>w. P w \<Longrightarrow> Q (f w) w) \<Longrightarrow> triple P (gets f) Q"
  by (simp add: triple_def)

lemma pres_triple: "triple P m (\<lambda>_. P) \<Longrightarrow> pres P m"
  by (simp add: triple_def pres_def)

section \<open>Transitions of a subscription\<close>

lemma routed_unsubscribed [steady_intro]: "pres routed (moveToUnsubscribedLocked s c r e)"
proof -
  have rest: "pres routed (do {
     ev \<leftarrow> gets_of s s_events;
     when_do (st \<noteq> SubStateUnsubscribed \<and> ev SHUnsubscribe)
       (do { _ \<leftarrow> queueEvent (JEvents [EvUnsubscribed s c r]); ret () }) })" for st
    by (intro steady_intro)
  have 1: "pres routed (mods s (\<lambda>x. x\<lparr>s_attempt := Suc (s_attempt x), s_resubscribe_attempts := 0\<rparr>))"
    "pres routed (stop_sub_timers s)" "pres routed (resolveSubFutures s (Some e))"
    by (auto intro!: steady_intro)
  show ?thesis
    unfolding moveToUnsubscribedLocked_def
    by (rule pres_triple,
        rule triple_bind[OF triple_pres[OF 1(1)]], rule triple_bind[OF triple_pres[OF 1(2)]],
        rule triple_bind[OF triple_pres[OF pres_gets]], rule triple_bind[OF triple_pres[OF 1(3)]],
        rule triple_bind[OF changing_mods], simp, simp, rule triple_bind[OF triple_gets], rule conjI, assumption, rule refl,
        rule triple_bind[OF routed_drop_id], rule triple_pres[OF rest])
qed

lemma routed_invalidated: "pres routed (invalidateState s)"
proof -
  have rest: "pres routed (do {
     cfg \<leftarrow> gets_of s s_cfg;
     when_do (sc_get_token cfg) (mods s (\<lambda>x. x\<lparr>s_token := []\<rparr>));
     mods s (\<lambda>x. x\<lparr>s_invalidations := Suc (s_invalidations x), s_offset := 0,
       s_epoch := stateInvalidatedEpoch, s_prev_data := None\<rparr>) })"
    by (auto intro!: steady_intro)
  have "changing s w" if "routed w" for w using routed_but[OF that] by (simp add: changing_def)
  then have 1: "triple routed (gets_of s s_push_id) (\<lambda>pid w. changing s w \<and> s_push_id (sub_at w s) = pid)"
    by (simp add: triple_def)
  show ?thesis
    unfolding invalidateState_def
    by (rule pres_triple, rule triple_bind[OF 1], rule triple_bind[OF routed_drop_id], rule triple_pres[OF rest])
qed

lemma routed_new_id:
  "triple (\<lambda>w. live s w \<and> s_push_id (sub_at w s) = old)
     (do { mods s (\<lambda>x. x\<lparr>s_push_id := q\<rparr>); updateSubscriptionPushID s old q }) (\<lambda>_. routed)"
  unfolding triple_def
proof (intro allI impI)
  fix w assume w: "live s w \<and> s_push_id (sub_at w s) = old"
  let ?w = "w\<lparr>w_heap := gm_put s ((sub_at w s)\<lparr>s_push_id := q\<rparr>) (w_heap w)\<rparr>"
  have "routed_but s old w" using w routed_but[of w s] by (auto simp: live_def)
  then have "routed_but s old ?w" by (rule routed_but_put) simp
  then have "routed (after (updateSubscriptionPushID s old q) ?w)"
    by (rule routed_update) (use w in \<open>simp add: live_def\<close>)
  then show "routed (after (do { mods s (\<lambda>x. x\<lparr>s_push_id := q\<rparr>); updateSubscriptionPushID s old q }) w)"
    by (simp add: mods_def split_beta)
qed

lemma routed_enterSubscribed: "pres routed (enterSubscribed h s res pubs ds)"
proof -
  have enter: "triple routed (mods s (\<lambda>x. x\<lparr>s_state := SubStateSubscribed, s_session := Suc (s_session x)\<rparr>)) (\<lambda>_. live s)"
    by (auto simp: triple_def live_def mods_def intro!: routed_put)
  have keep': "pres (live s) (mods s (\<lambda>x. if sr_epoch res \<noteq> [] \<or> s_epoch x = []
                 then x\<lparr>s_offset := sr_offset res, s_epoch := sr_epoch res\<rparr> else x))"
    by (rule live.steady_mods) (simp add: sview_def)
  have mid: "pres (live s) (do {
     session \<leftarrow> gets_of s s_session;
     when_do (sr_expires res) (arm_sub_refresh s (sr_ttl res));
     when_do (sr_recoverable res) (mods s (\<lambda>x. x\<lparr>s_recover := True\<rparr>));
     mods s (\<lambda>x. x\<lparr>s_resubscribe_attempts := 0\<rparr>);
     t \<leftarrow> gets_of s s_resubscribe_timer;
     stop_timer t;
     resolveSubFutures s None;
     mods s (\<lambda>x. if sr_epoch res \<noteq> [] \<or> s_epoch x = []
                 then x\<lparr>s_offset := sr_offset res, s_epoch := sr_epoch res\<rparr> else x);
     ret session })"
    by (intro steady_intro keep') (simp_all add: sview_def)
  have rest: "pres routed (do {
     ev \<leftarrow> gets_of s s_events;
     d1 \<leftarrow> queue_if (ev SHSubscribed) (JEvents [subscribed_event s res]);
     d2 \<leftarrow> queue_if (pubs \<noteq> []) (JSubPubs s session (zip pubs (map2 pub_event pubs ds)));
     ret (waitEvent h (case d2 of None \<Rightarrow> d1 | Some n \<Rightarrow> Some n)) })" for session
    by (intro steady_intro)
  have "triple routed (do {
      mods s (\<lambda>x. x\<lparr>s_state := SubStateSubscribed, s_session := Suc (s_session x)\<rparr>);
      session \<leftarrow> (do {
        session \<leftarrow> gets_of s s_session;
        when_do (sr_expires res) (arm_sub_refresh s (sr_ttl res));
        when_do (sr_recoverable res) (mods s (\<lambda>x. x\<lparr>s_recover := True\<rparr>));
        mods s (\<lambda>x. x\<lparr>s_resubscribe_attempts := 0\<rparr>);
        t \<leftarrow> gets_of s s_resubscribe_timer;
        stop_timer t;
        resolveSubFutures s None;
        mods s (\<lambda>x. if sr_epoch res \<noteq> [] \<or> s_epoch x = []
                 then x\<lparr>s_offset := sr_offset res, s_epoch := sr_epoch res\<rparr> else x);
        ret session });
      old \<leftarrow> gets_of s s_push_id;
      (do { mods s (\<lambda>x. x\<lparr>s_push_id := sr_id res\<rparr>); updateSubscriptionPushID s old (sr_id res) });
      (do {
        ev \<leftarrow> gets_of s s_events;
        d1 \<leftarrow> queue_if (ev SHSubscribed) (JEvents [subscribed_event s res]);
        d2 \<leftarrow> queue_if (pubs \<noteq> []) (JSubPubs s session (zip pubs (map2 pub_event pubs ds)));
        ret (waitEvent h (case d2 of None \<Rightarrow> d1 | Some n \<Rightarrow> Some n)) }) }) (\<lambda>_. routed)"
    by (rule triple_bind[OF enter], rule triple_bind[OF triple_pres[OF mid]], rule triple_bind[OF triple_gets],
        rule conjI, assumption, rule refl, rule triple_bind[OF routed_new_id], rule triple_pres[OF rest])
  then show ?thesis
    unfolding enterSubscribed_def by (intro pres_triple) (simp add: triple_def split_beta)
qed

lemma routed_sub_moves [steady_intro]:
  "pres routed (moveToSubscribingLocked s c r)" "pres routed (subscribeStart s k)"
  "pres routed (moveToSubscribed h s res g a)"
  by (auto simp: moveToSubscribingLocked_def subscribeStart_def moveToSubscribed_def
      intro!: steady_intro routed_enterSubscribed)

lemma routed_NewSubscription:
  assumes w: "routed w" and new: "\<not> sub_exists w (w_next_sid w)"
  shows "routed (after (NewSubscription ch cfg) w)"
proof -
  let ?s = "w_next_sid w" and ?x = "newSubscription ch cfg"
  let ?w = "w\<lparr>w_next_sid := Suc ?s, w_heap := w_heap w @ [(?s, ?x)]\<rparr>"
  have at: "sub_at ?w s = (if s = ?s then ?x else sub_at w s)" for s
    using new by (auto simp: sub_at_appended)
  have ch: "s_channel ?x = ch" by (simp add: newSubscription_def Let_def)
  have ex: "sub_exists ?w s \<longleftrightarrow> s = ?s \<or> sub_exists w s" for s
    by (auto simp: sub_exists_def gm_get_def map_add_def split: option.splits)
  have none: "s_push_id (sub_at w ?s) = 0" using new by (simp add: sub_at_def sub_exists_def no_sub_def)
  have ids: "i > 0 \<and> s_push_id (sub_at ?w s) = i \<and> s_state (sub_at ?w s) \<noteq> SubStateUnsubscribed"
    if "gm_get (c_subs_by_id (w_cl w)) i = Some s" for i s
  proof -
    have *: "i > 0 \<and> s_push_id (sub_at w s) = i \<and> s_state (sub_at w s) \<noteq> SubStateUnsubscribed"
      using w that unfolding routed_def by blast
    then have "s \<noteq> ?s" using none by auto
    with * show ?thesis by (simp add: at)
  qed
  have chs: "sub_exists ?w s \<and> s_channel (sub_at ?w s) = ch'" if "gm_get (gm_put ch ?s (c_subs (w_cl w))) ch' = Some s" for ch' s
  proof (cases "ch' = ch")
    case True
    then have "s = ?s" using that by simp
    then show ?thesis using True ch by (simp add: at ex)
  next
    case False
    then have *: "sub_exists w s \<and> s_channel (sub_at w s) = ch'" using w that unfolding routed_def by simp
    then have "s \<noteq> ?s" using new by auto
    with * show ?thesis by (simp add: at ex)
  qed
  have "routed (?w\<lparr>w_cl := (w_cl w)\<lparr>c_subs := gm_put ch ?s (c_subs (w_cl w))\<rparr>\<rparr>)"
    unfolding routed_def using ids chs by (simp add: sub_exists_def)
  then show ?thesis using w by (simp add: NewSubscription_def modc_def split_beta)
qed

lemma routed_removeEntry: "pres routed (removeEntry s k)"
proof -
  have "pres routed (modc (\<lambda>c. c\<lparr>c_subs := gm_del x (c_subs c)\<rparr>))" for x
    unfolding pres_def modc_def routed_def by (auto simp: sub_exists_def)
  then show ?thesis
    unfolding removeEntry_def
    by (intro pres_bind pres_gets pres_when routed.core.steady_effects routed.core.steady_sub_api1)
qed

section \<open>Transitions of the client\<close>

lemma routed_clear [steady_intro]: "pres routed clearConnectedState" "pres routed drop_transport"
  "pres routed (after_func d tm)"
proof -
  have none: "pres routed (modc (\<lambda>c. c\<lparr>c_generation := c_generation c + 1, c_subs_by_id := []\<rparr>))"
    unfolding pres_def modc_def routed_def by (auto simp: sub_exists_def)
  show "pres routed (after_func d tm)" for d tm
    by (rule seat_routed) (simp add: keeps_def after_func_def fresh_def split_beta seat_def)
  show "pres routed clearConnectedState" "pres routed drop_transport"
    by (auto simp: clearConnectedState_def drop_transport_def setTransportLocked_def intro!: none steady_intro)
qed

lemma routed_schedules [steady_intro]: "pres routed scheduleReconnectLocked" "pres routed (scheduleRefreshLocked d)"
  unfolding scheduleReconnectLocked_def scheduleRefreshLocked_def
  by (intro pres_bind pres_gets routed.steady_stop routed_modc routed_clear; simp)+

lemma routed_parts [steady_intro]:
  "pres routed (setStateLocked st)" "pres routed (setTransportLocked t)" "pres routed subs_to_subscribing"
  by (auto simp: setStateLocked_def setTransportLocked_def subs_to_subscribing_def intro!: steady_intro)

lemma routed_sendAsyncOn [steady_intro]: "pres routed (sendAsyncOn t' cmd cb)"
  by (intro seat_routed seat_sendAsyncOn)

lemma routed_disconnect [steady_intro]: "pres routed (disconnect_now c r)" "pres routed close_now"
  "pres routed (reconnect_now h c r)" "pres routed (retry_connecting t)"
  by (auto simp: disconnect_now_def close_now_def reconnect_now_def retry_connecting_def intro!: steady_intro)

lemma routed_transitions [steady_intro]:
  "pres routed (moveToDisconnectedIf current c r)" "pres routed (closeCall k)"
  "pres routed (startConnecting h cl)" "pres routed (startReconnectingIf ex cl)"
  "pres routed (dialed h n tr cl)" "pres routed (connectFailed n tr tok e)" "pres routed (connectOk h n tr dch cres)"
  by (auto simp: moveToDisconnectedIf_def closeCall_def startConnecting_def startReconnectingIf_def dialed_def
      sendConnect_def connectFailed_def connectOk_def intro!: steady_intro)

lemma routed_moveToConnectingFrom: "pres routed (moveToConnectingFrom h t c r)"
  by (auto simp: moveToConnectingFrom_def split: option.split cstate.split intro!: steady_intro)

lemma routed_scheduled:
  "pres routed (connectingReported n)" "pres routed (scheduleIfCurrent n cl e)"
  "pres routed (connectFailedClosed n tok e)" "pres routed (handleRefreshError gen)"
  "pres routed (refreshReply h gen x)"
  by (auto simp: connectingReported_def scheduleIfCurrent_def connectFailedClosed_def handleRefreshError_def
      refreshReply_def disconnect_refresh_def intro!: steady_intro)

interpretation routed: steady routed
  by unfold_locales
    (simp_all add: routed_NewSubscription presD[OF routed_sub_moves(3)] routed_sub_moves routed_unsubscribed
      routed_invalidated routed_removeEntry routed_transitions routed_moveToConnectingFrom routed_scheduled)

lemma routed_reachable: "reachable w \<Longrightarrow> routed w"
  by (rule routed.steady_reachable)
    (auto simp: client_init_def initial_world_def newClient_def routed_def Let_def)

section \<open>Properties\<close>

text \<open>
  C11: a push reaches the subscription it is for: when a push with a numeric id is routed to a
  subscription, that subscription has this id now and is not unsubscribed; when a push without an
  id is routed to a subscription, it is the one of the push's channel. An id that the server has
  given to another subscription, or that belongs to an earlier connection, routes nowhere.
\<close>

theorem push_routing:
  assumes "reachable w" "route p (w_cl w) = Some s"
  shows "if pu_id p > 0 then s_push_id (sub_at w s) = pu_id p \<and> s_state (sub_at w s) \<noteq> SubStateUnsubscribed
    else sub_exists w s \<and> s_channel (sub_at w s) = pu_channel p"
  using routed_reachable[OF assms(1)] assms(2) unfolding routed_def route_def
  by (cases "pu_id p > 0") auto

theorem push_routing_witness:
  "s_push_id (sub_at demo_live 0) = 7 \<and> s_state (sub_at demo_live 0) \<noteq> SubStateUnsubscribed"
proof -
  have "route (the (r_push demo_push)) (w_cl demo_live) = Some 0" "pu_id (the (r_push demo_push)) = 7"
    using demo_live by (simp_all add: route_def demo_push_def gm_get_def)
  then show ?thesis using push_routing[OF reachable_demo(3)] by fastforce
qed

end
