(* ===== verification/Closed.thy ===== *)
theory Closed
  imports Steady Demo
begin

text \<open>
  \<open>Close\<close> is final: from then on, whatever goroutines, timers, replies and calls are still under
  way, the client stays closed and writes nothing.
\<close>

definition shut :: "(tr \<times> command) list \<Rightarrow> world \<Rightarrow> bool" where
  "shut wi w \<longleftrightarrow> c_state (w_cl w) = StateClosed \<and> c_transport (w_cl w) = None \<and> w_wire w = wi"

lemma shut_send: "shut wi w \<Longrightarrow> run_state (send cmd) w = (Some (Sentinel ErrClientDisconnected), w)"
  by (simp add: shut_def send_def)

lemma shut_requests:
  "pres (shut wi) (popRequest i)" "pres (shut wi) (addRequest i r cb)" "pres (shut wi) (spawn ts)"
  by (simp_all add: pres_def shut_def popRequest_def addRequest_def modc_def spawn_def split_beta split: option.split)

lemma shut_sendAsync: "pres (shut wi) (sendAsync cmd cb)"
proof (rule presI)
  fix w assume "shut wi w"
  then have "shut wi (after (addRequest (cmd_id cmd) (replyResultOf cmd) cb) w)" by (rule presD[OF shut_requests(2)])
  note * = this shut_send[OF this] presD[OF shut_requests(1) this]
  show "shut wi (after (sendAsync cmd cb) w)"
    using * by (auto simp: sendAsync_def sendAsyncOn_def split_beta split: option.split)
qed

lemma shut_onConnect: "pres (shut wi) (onConnect k oper)"
  by (auto simp: pres_def shut_def onConnect_def)

interpretation shut: steady_base "shut wi" for wi
proof
  show "pres (shut wi) (sendAsync cmd cb)" for wi cmd cb by (rule shut_sendAsync)
  show "pres (shut wi) (popRequest i)" for wi i by (rule shut_requests)
  show "pres (shut wi) (onConnect k oper)" for wi k oper by (rule shut_onConnect)
qed (simp_all add: shut_def cview_def wview_def)

declare shut.core.steady_modc [steady_intro del] shut.core.steady_mods [steady_intro del] shut.base_ops [steady_intro del]

lemma shut_mods [steady_intro]: "pres (shut wi) (mods s f)"
  by (simp add: pres_def mods_def shut_def)

lemma shut_modc [steady_intro]:
  "(\<And>c. c_state (f c) = c_state c) \<Longrightarrow> (\<And>c. c_transport (f c) = c_transport c) \<Longrightarrow> pres (shut wi) (modc f)"
  by (simp add: pres_def modc_def shut_def)

lemma shut_sub_moves [steady_intro]:
  "pres (shut wi) (updateSubscriptionPushID s a b)"
  "pres (shut wi) (moveToUnsubscribedLocked s c r e)" "pres (shut wi) (moveToSubscribingLocked s c r)"
  "pres (shut wi) (subscribeStart s k)" "pres (shut wi) (invalidateState s)"
  "pres (shut wi) (enterSubscribed h s res pubs ds)" "pres (shut wi) (removeEntry s k)"
  by (auto simp: updateSubscriptionPushID_def moveToUnsubscribedLocked_def moveToSubscribingLocked_def
      subscribeStart_def invalidateState_def enterSubscribed_def removeEntry_def intro!: steady_intro)

lemma shut_new: "pres (shut wi) (NewSubscription ch cfg)" "pres (shut wi) (moveToSubscribed h s res g a)"
  by (simp add: pres_def shut_def NewSubscription_def modc_def split_beta)
     (auto simp: moveToSubscribed_def intro!: steady_intro)

text \<open>No check of an attempt or a session succeeds, and every transition returns at its guard.\<close>

lemma shut_current:
  "pres (shut wi) (k False) \<Longrightarrow> pres (shut wi) (State_Monad.bind (isCurrentAttemptLocked n) k)"
  "pres (shut wi) (k False) \<Longrightarrow> pres (shut wi) (State_Monad.bind (isConnRefreshCurrent g) k)"
  by (simp_all add: pres_def shut_def isCurrentAttemptLocked_def isConnRefreshCurrent_def)

lemma shut_guards [steady_intro]:
  "pres (shut wi) (moveToDisconnectedIf current c r)" "pres (shut wi) (moveToConnectingFrom h t c r)"
  by (auto simp: pres_def shut_def moveToDisconnectedIf_def moveToConnectingFrom_def split: option.split)

lemma shut_calls:
  "pres (shut wi) (closeCall k)" "pres (shut wi) (startConnecting h cl)" "pres (shut wi) (startReconnectingIf ex cl)"
proof -
  have "shut wi w \<Longrightarrow> shut wi (after (return_to c e) w)" for w c e by (rule presD[OF shut.core.steady_effects(7)])
  then have r: "shut wi w \<Longrightarrow> c_state (w_cl w) = StateClosed \<and> shut wi (after (return_to c e) w)" for w c e
    by (simp add: shut_def)
  show "pres (shut wi) (closeCall k)" "pres (shut wi) (startConnecting h cl)"
    using r by (simp_all add: pres_def closeCall_def startConnecting_def split_beta)
  have "shut wi w \<Longrightarrow> shut wi (after (modc (\<lambda>c. c\<lparr>c_round := Suc (c_round c)\<rparr>)) w)" for w
    by (rule presD[OF shut_modc]) simp_all
  with r show "pres (shut wi) (startReconnectingIf ex cl)"
    by (simp add: pres_def startReconnectingIf_def split_beta)
qed

lemma shut_attempt:
  "pres (shut wi) (dialed h n tr cl)" "pres (shut wi) (connectFailed n tr tok e)"
  "pres (shut wi) (connectOk h n tr dch cres)" "pres (shut wi) (connectingReported n)"
  "pres (shut wi) (scheduleIfCurrent n cl e)" "pres (shut wi) (handleRefreshError gen)"
  "pres (shut wi) (refreshReply h gen x)"
  unfolding dialed_def connectFailed_def connectOk_def connectingReported_def scheduleIfCurrent_def
    handleRefreshError_def refreshReply_def
  by (rule shut_current; auto intro!: steady_intro)+

lemma shut_connectFailedClosed: "pres (shut wi) (connectFailedClosed n tok e)"
  unfolding connectFailedClosed_def
  by (intro pres_if pres_option pres_bind[OF shut_guards(1)] pres_return shut_current) (auto intro!: steady_intro)

interpretation shut: steady "shut wi" for wi
  by unfold_locales
    (simp_all add: presD[OF shut_new(1)] presD[OF shut_new(2)] shut_sub_moves shut_guards shut_calls shut_attempt
      shut_connectFailedClosed)

section \<open>Property\<close>

text \<open>
  C17: \<open>Close\<close> is final. After the client is closed, no step of any goroutine, timer, handler or call,
  and no reply or push that still arrives, changes the state or the session again or writes another
  command to the network.
\<close>

theorem close_is_final:
  assumes "reachable w" "c_state (w_cl w) = StateClosed" "client_step\<^sup>*\<^sup>* w w'"
  shows "c_state (w_cl w') = StateClosed \<and> c_transport (w_cl w') = None \<and> w_wire w' = w_wire w"
proof -
  have "shut (w_wire w) w"
    using conn_reachable[OF assms(1)] assms(2) by (auto simp: shut_def conn_inv_def conn_def)
  then have "shut (w_wire w) w'" using shut.steady_steps assms(1,3) by blast
  then show ?thesis by (simp add: shut_def)
qed

definition demo_closed :: world where
  "demo_closed = run_actions (demo_connect @ [Api False ApiClose] @ go 1 2) demo_start"

theorem close_is_final_witness:
  "c_state (w_cl (run_actions [Api False ApiConnect, ThreadStep demo_answers 0] demo_closed)) = StateClosed
    \<and> w_wire (run_actions [Api False ApiConnect, ThreadStep demo_answers 0] demo_closed) = w_wire demo_closed"
proof -
  have run: "run_then (demo_connect @ [Api False ApiClose] @ go 1 2) (\<lambda>w. c_state (w_cl w) = StateClosed) demo_start"
    by code_simp
  then have "reachable demo_closed"
    unfolding demo_closed_def using reachable_start by (simp add: run_then_iff reachable_run)
  moreover have "c_state (w_cl demo_closed) = StateClosed" using run by (simp add: run_then_iff demo_closed_def)
  moreover have "client_step\<^sup>*\<^sup>* demo_closed (run_actions [Api False ApiConnect, ThreadStep demo_answers 0] demo_closed)"
    by (rule run_steps) (simp add: allowed_def api_sid_def)
  ultimately show ?thesis using close_is_final by blast
qed

end
