(* ===== verification/SubSteady.thy ===== *)
theory SubSteady
  imports Steady
begin

text \<open>
  Invariants that look at the subscriptions and at the answers of calls only, and that survive every
  change of a subscription that takes none of its counters back: what the operations of the client do
  to its state, its timers, its transports and its requests does not concern them.
\<close>

section \<open>What leaves the subscriptions and the answers alone\<close>

definition held :: "world \<Rightarrow> (sid, sub) gomap \<times> (call \<times> (err + call_result)) list" where
  "held w = (w_heap w, w_results w)"

lemma held_heap: "keeps held m \<Longrightarrow> keeps w_heap m"
  by (simp add: keeps_def held_def)

lemma held_effects [keeps_intro]:
  "keeps held (modc f)" "keeps held fresh" "keeps held (spawn ts)" "keeps held panic"
  "keeps held (return_to c e)" "keeps held (stop_timer t)" "keeps held (after_func d tm)"
  "keeps held (push_job j)" "keeps held (close_transport tr)" "keeps held (close_chan ch)"
  by (simp_all add: keeps_def held_def modc_def fresh_def spawn_def panic_def return_to_def stop_timer_def after_func_def
      push_job_def close_transport_def close_chan_def split_beta split: option.split)

lemma held_queue [keeps_intro]: "keeps held (queueEvent j)" "keeps held (queue_if b j)"
  by (auto simp: held_def queueEvent_def queue_if_def intro!: keeps_intro)

lemma held_sends [keeps_intro]:
  "keeps held (popRequest i)" "keeps held (addRequest i r cb)" "keeps held (sendOn t cmd)"
  "keeps held (fire_timer n)" "keeps held (onConnect k oper)"
  by (auto simp: popRequest_def addRequest_def sendOn_def fire_timer_def onConnect_def nextFutureID_def
      held_def intro!: keeps_intro)

lemma held_send_on [keeps_intro]: "keeps held (send cmd)"
  by (auto simp: send_def held_def intro!: keeps_intro)

lemma held_sendAsync [keeps_intro]: "keeps held (sendAsyncOn t cmd cb)" "keeps held (sendAsync cmd cb)"
  by (auto simp: sendAsyncOn_def sendAsync_def held_def intro!: keeps_intro)

section \<open>Invariants of the subscriptions and the answers\<close>

definition counters_kept :: "sub \<Rightarrow> sub \<Rightarrow> bool" where
  "counters_kept x y \<longleftrightarrow> s_attempt x \<le> s_attempt y \<and> s_invalidations x \<le> s_invalidations y
     \<and> s_session x \<le> s_session y"

locale sub_steady =
  fixes I :: "world \<Rightarrow> bool"
  assumes heap_rest: "I w \<Longrightarrow> w_heap w' = w_heap w \<Longrightarrow> prefix (w_results w) (w_results w') \<Longrightarrow> I w'"
    and heap_put: "I w \<Longrightarrow> counters_kept (sub_at w s) x \<Longrightarrow> I (w\<lparr>w_heap := gm_put s x (w_heap w)\<rparr>)"
    and heap_new: "I w \<Longrightarrow> \<not> sub_exists w (w_next_sid w) \<Longrightarrow>
      I (w\<lparr>w_heap := w_heap w @ [(w_next_sid w, newSubscription ch cfg)]\<rparr>)"
begin

lemma heap_keeps: "keeps held m \<Longrightarrow> pres I m"
  unfolding pres_def keeps_def held_def using heap_rest by (metis prefix_order.order_refl prod.inject)

lemma heap_mods: "(\<And>x. counters_kept x (f x)) \<Longrightarrow> pres I (mods s f)"
  by (simp add: pres_def mods_def heap_put)

lemma heap_sub_timers:
  "pres I (stop_sub_timers s)" "pres I (scheduleResubscribe s)" "pres I (arm_sub_refresh s ttl)"
  by (auto simp: stop_sub_timers_def scheduleResubscribe_def arm_sub_refresh_def counters_kept_def
      intro!: steady_rules heap_mods held_effects[THEN heap_keeps])

end

sublocale sub_steady \<subseteq> core: steady_loose I
proof
  show "I (w\<lparr>w_heap := gm_put s x (w_heap w)\<rparr>)" if "I w" "sfull x = sfull (sub_at w s)" for w s x
    using that by (auto simp: sfull_def counters_kept_def intro: heap_put)
  show "pres I (sendAsync cmd cb)" "pres I (onConnect k oper)" "pres I (popRequest i)" "pres I (fire_timer n)"
    for cmd cb k oper i n
    by (rule heap_keeps, rule keeps_intro)+
qed (auto simp: heap_sub_timers grows_def wview_def intro: heap_rest)

context sub_steady
begin

declare core.steady_mods [steady_intro del] core.steady_modc [steady_intro del]

lemmas heap_intro [steady_intro] = heap_sub_timers(1) heap_mods held_effects[THEN heap_keeps]

lemma heap_moves [steady_intro]:
  "pres I (updateSubscriptionPushID s x y)"
  "pres I (moveToUnsubscribedLocked s c r e)" "pres I (moveToSubscribingLocked s c r)"
  "pres I (subscribeStart s k)" "pres I (invalidateState s)"
  "pres I (enterSubscribed h s res pubs ds)" "pres I (removeEntry s k)"
  by (auto simp: updateSubscriptionPushID_def moveToUnsubscribedLocked_def moveToSubscribingLocked_def
      subscribeStart_def invalidateState_def enterSubscribed_def removeEntry_def simp: counters_kept_def intro!: steady_intro)

lemma heap_subscribed [steady_intro]: "pres I (moveToSubscribed h s res g a)"
  by (auto simp: moveToSubscribed_def simp: counters_kept_def intro!: steady_intro)

lemma heap_teardown [steady_intro]:
  "pres I clearConnectedState" "pres I drop_transport"
  "pres I (setStateLocked st)" "pres I (setTransportLocked t)"
  "pres I subs_to_subscribing" "pres I scheduleReconnectLocked"
  "pres I (scheduleRefreshLocked d)"
  by (auto simp: clearConnectedState_def drop_transport_def setStateLocked_def setTransportLocked_def
      subs_to_subscribing_def scheduleReconnectLocked_def scheduleRefreshLocked_def
      simp: counters_kept_def intro!: steady_intro)

lemma heap_client [steady_intro]:
  "pres I (disconnect_now c r)" "pres I (reconnect_now h c r)"
  "pres I (retry_connecting t)" "pres I close_now"
  by (auto simp: disconnect_now_def reconnect_now_def retry_connecting_def close_now_def simp: counters_kept_def intro!: steady_intro)

lemma heap_transitions [steady_intro]:
  "pres I (moveToDisconnectedIf current c r)" "pres I (moveToConnectingFrom h t c r)"
  "pres I (closeCall k)" "pres I (startConnecting h cl)"
  "pres I (startReconnectingIf ex cl)"
  by (auto simp: moveToDisconnectedIf_def moveToConnectingFrom_def closeCall_def startConnecting_def
      startReconnectingIf_def simp: counters_kept_def intro!: steady_intro)

lemma heap_sendConnect [steady_intro]: "pres I (sendConnect t cb)"
  unfolding sendConnect_def by (auto simp: counters_kept_def intro!: steady_intro held_sendAsync[THEN heap_keeps])

lemma heap_attempts [steady_intro]:
  "pres I (dialed h m tr cl)" "pres I (connectFailed m tr tok e)"
  "pres I (connectOk h m tr dch cres)" "pres I (connectingReported m)"
  "pres I (scheduleIfCurrent m cl e)" "pres I (connectFailedClosed m tok e)"
  "pres I (handleRefreshError gen)" "pres I (disconnect_refresh gen c r)"
  by (auto simp: dialed_def connectFailed_def connectOk_def connectingReported_def scheduleIfCurrent_def
      connectFailedClosed_def handleRefreshError_def disconnect_refresh_def simp: counters_kept_def intro!: steady_intro)

lemma heap_refreshReply [steady_intro]: "pres I (refreshReply h gen x)"
  by (auto simp: refreshReply_def simp: counters_kept_def intro!: steady_intro)

lemma heap_NewSubscription: "I w \<Longrightarrow> \<not> sub_exists w (w_next_sid w) \<Longrightarrow> I (after (NewSubscription ch cfg) w)"
  using heap_new[of w ch cfg]
  by (auto simp: NewSubscription_def modc_def split_beta intro: heap_rest[OF heap_new])

end

sublocale sub_steady \<subseteq> turns: steady I
  by unfold_locales
    (simp_all add: heap_NewSubscription presD[OF heap_subscribed] heap_moves heap_transitions heap_attempts
      heap_refreshReply)

end
