(* ===== verification/Positions.thy ===== *)
theory Positions
  imports Demo
begin

text \<open>
  The position of a subscription in its stream (offset and epoch), from which it recovers after a
  lost connection: publications move it forward, a failed delta does not, an empty epoch never
  replaces a known one, an invalidation resets it and outdates every subscribe begun before.
\<close>

section \<open>A stretch of publications\<close>

definition receive :: "bool \<Rightarrow> sid \<Rightarrow> pb_pub list \<Rightarrow> unit op" where
  "receive h s pubs = for_each (\<lambda>p. do { _ \<leftarrow> handlePublication h s p; ret () }) pubs"

text \<open>What the dispatcher has still to run.\<close>

definition queued :: "world \<Rightarrow> job list" where
  "queued w = map snd (List.map_filter (\<lambda>x. x) (qlist (w_queue w)))"

definition open_queue :: "world \<Rightarrow> bool" where
  "open_queue w \<longleftrightarrow> queue_inv (w_queue w) \<and> \<not> q_closed (w_queue w)"

lemma adopt_prev: "adopt_position p (x\<lparr>s_prev_data := d\<rparr>) = (adopt_position p x)\<lparr>s_prev_data := d\<rparr>"
  by (simp add: adopt_position_def Let_def)

lemma adopt_fields [simp]:
  "s_state (adopt_position p x) = s_state x" "s_events (adopt_position p x) = s_events x"
  "s_delta_negotiated (adopt_position p x) = s_delta_negotiated x"
  "s_prev_data (adopt_position p x) = s_prev_data x" "s_recover (adopt_position p x) = s_recover x"
  "s_cfg (adopt_position p x) = s_cfg x" "s_tags_filter (adopt_position p x) = s_tags_filter x"
  by (simp_all add: adopt_position_def Let_def)

lemma queueEvent_run:
  assumes "open_queue w"
  shows "\<exists>w'. run_state (queueEvent j) w = (w_next w, w') \<and> open_queue w' \<and> queued w' = queued w @ [j]
    \<and> w_heap w' = w_heap w \<and> w_env w' = w_env w \<and> w_cl w' = w_cl w"
proof -
  let ?p = "push (w_next w, j) (w_queue w)"
  have *: "fst ?p" "qlist (snd ?p) = qlist (w_queue w) @ [Some (w_next w, j)]" "\<not> q_closed (snd ?p)"
    using assms cbq.put_open[of "w_queue w" "(w_next w, j)"] by (simp_all add: open_queue_def)
  have "queue_inv (snd ?p)" using assms by (simp add: open_queue_def queue_inv_push)
  with * show ?thesis
    by (simp add: queueEvent_def push_job_def fresh_def split_beta queued_def open_queue_def map_filter_def)
qed

text \<open>One publication that decodes.\<close>

lemma handlePublication_run:
  assumes "s_state (sub_at w s) = SubStateSubscribed" "s_events (sub_at w s) SHPublication" "open_queue w"
    and "applyDelta (en_codec (w_env w)) (c_ptype (w_cl w)) (s_delta_negotiated (sub_at w s))
           (s_prev_data (sub_at w s)) p = (Inr d, prev')"
  shows "\<exists>w'. after (handlePublication h s p) w = w'
    \<and> sub_at w' s = (adopt_position p (sub_at w s))\<lparr>s_prev_data := prev'\<rparr>
    \<and> open_queue w' \<and> queued w' = queued w @ [JEvents [EvPublication s (pub_event p d)]]
    \<and> w_env w' = w_env w \<and> w_cl w' = w_cl w"
proof -
  let ?x = "adopt_position p ((sub_at w s)\<lparr>s_prev_data := prev'\<rparr>)"
  let ?w = "w\<lparr>w_heap := gm_put s ?x (w_heap w)\<rparr>"
  have oq: "open_queue ?w" using assms(3) by (simp add: open_queue_def)
  obtain w' where w': "run_state (queueEvent (JEvents [EvPublication s (pub_event p d)])) ?w = (w_next ?w, w')"
    "open_queue w'" "queued w' = queued ?w @ [JEvents [EvPublication s (pub_event p d)]]"
    "w_heap w' = w_heap ?w" "w_env w' = w_env ?w" "w_cl w' = w_cl ?w"
    using queueEvent_run[OF oq] by blast
  have "after (handlePublication h s p) w = w'"
    using assms w'(1) by (simp add: handlePublication_def mods_def queue_if_def split_beta)
  moreover have "sub_at w' s = ?x" using w'(4) by (simp add: sub_at_def)
  moreover have "queued ?w = queued w" by (simp add: queued_def)
  ultimately show ?thesis using w' by (simp add: adopt_prev)
qed

lemma receive_run:
  assumes "s_state (sub_at w s) = SubStateSubscribed" "s_events (sub_at w s) SHPublication" "open_queue w"
    and "applyDeltas (en_codec (w_env w)) (c_ptype (w_cl w)) (s_delta_negotiated (sub_at w s))
           (s_prev_data (sub_at w s)) pubs = (Inr ds, prev')"
  shows "sub_at (after (receive h s pubs) w) s = (fold adopt_position pubs (sub_at w s))\<lparr>s_prev_data := prev'\<rparr>
    \<and> queued (after (receive h s pubs) w)
        = queued w @ map (\<lambda>(p, d). JEvents [EvPublication s (pub_event p d)]) (zip pubs ds)"
  using assms
proof (induction pubs arbitrary: w ds)
  case Nil
  then show ?case by (simp add: receive_def)
next
  case (Cons p ps)
  let ?apply = "applyDelta (en_codec (w_env w)) (c_ptype (w_cl w)) (s_delta_negotiated (sub_at w s))
    (s_prev_data (sub_at w s)) p"
  obtain d prev1 ds' where d: "?apply = (Inr d, prev1)" "ds = d # ds'"
    and rest: "applyDeltas (en_codec (w_env w)) (c_ptype (w_cl w)) (s_delta_negotiated (sub_at w s)) prev1 ps
      = (Inr ds', prev')"
    using Cons.prems(4) by (auto split: prod.splits sum.splits)
  obtain w1 where w1: "after (handlePublication h s p) w = w1"
    "sub_at w1 s = (adopt_position p (sub_at w s))\<lparr>s_prev_data := prev1\<rparr>" "open_queue w1"
    "queued w1 = queued w @ [JEvents [EvPublication s (pub_event p d)]]" "w_env w1 = w_env w" "w_cl w1 = w_cl w"
    using handlePublication_run[OF Cons.prems(1-3) d(1)] by blast
  have run: "after (receive h s (p # ps)) w = after (receive h s ps) w1"
    using w1(1) by (simp add: receive_def split_beta)
  have fold_prev: "fold adopt_position qs (x\<lparr>s_prev_data := e\<rparr>) = (fold adopt_position qs x)\<lparr>s_prev_data := e\<rparr>"
    for qs x and e :: slice
    by (induction qs arbitrary: x) (simp_all add: adopt_prev)
  have "sub_at (after (receive h s ps) w1) s = (fold adopt_position ps (sub_at w1 s))\<lparr>s_prev_data := prev'\<rparr>
    \<and> queued (after (receive h s ps) w1)
        = queued w1 @ map (\<lambda>(p, d). JEvents [EvPublication s (pub_event p d)]) (zip ps ds')"
    by (rule Cons.IH) (use Cons.prems w1 rest in simp_all)
  then show ?case unfolding run using w1 d(2) by (simp add: fold_prev)
qed

text \<open>The position after a stretch of publications.\<close>

lemma fold_adopt:
  assumes "s_epoch x \<noteq> []" "\<forall>p \<in> set pubs. pp_offset p > 0"
  shows "s_epoch (fold adopt_position pubs x) = s_epoch x
    \<and> s_offset (fold adopt_position pubs x) = (if pubs = [] then s_offset x else pp_offset (last pubs))
    \<and> s_recover (fold adopt_position pubs x) = s_recover x"
  using assms
proof (induction pubs arbitrary: x)
  case (Cons p ps)
  have "s_epoch (adopt_position p x) = s_epoch x" "s_offset (adopt_position p x) = pp_offset p"
    using Cons.prems by (simp_all add: adopt_position_def Let_def)
  with Cons show ?case by simp
qed simp

section \<open>What leaves the position alone\<close>

definition position :: "sid \<Rightarrow> world \<Rightarrow> u64 \<times> string \<times> bool" where
  "position s w = (s_offset (sub_at w s), s_epoch (sub_at w s), s_recover (sub_at w s))"

lemma sub_at_rest [simp]:
  "sub_at (w\<lparr>w_queue := q\<rparr>) s = sub_at w s"
  "sub_at (w\<lparr>w_ran := r\<rparr>) s = sub_at w s" "sub_at (w\<lparr>w_next := n\<rparr>) s = sub_at w s"
  "sub_at (w\<lparr>w_delivered := dl\<rparr>) s = sub_at w s"
  by (simp_all add: sub_at_def)

lemma position_effects [keeps_intro]:
  "keeps (position s) (stop_timer n)" "keeps (position s) (after_func d tm)" "keeps (position s) (spawn ts)"
  "keeps (position s) (push_job j)" "keeps (position s) (queueEvent j)"
  by (auto simp: keeps_def position_def stop_timer_def after_func_def fresh_def spawn_def push_job_def queueEvent_def
      split_beta split: option.split)

lemma position_subscribing: "keeps (position s) (moveToSubscribingLocked s c r)"
proof -
  have m: "keeps (position s) (mods s f)" if "\<And>x. (s_offset (f x), s_epoch (f x), s_recover (f x)) = (s_offset x, s_epoch x, s_recover x)" for f
    using that by (simp add: keeps_def mods_def position_def)
  show ?thesis
    by (auto simp: moveToSubscribingLocked_def stop_sub_timers_def queueSubscribingLocked_def intro!: keeps_intro m)
qed

lemma subscribe_params_position:
  "sq_recover (subscribe_params x tok) = s_recover x"
  "s_recover x \<Longrightarrow> sq_offset (subscribe_params x tok) = s_offset x \<and> sq_epoch (subscribe_params x tok) = s_epoch x"
  "\<not> s_recover x \<Longrightarrow> sq_offset (subscribe_params x tok) = 0 \<and> sq_epoch (subscribe_params x tok) = []"
proof -
  have pos: "\<not> s_offset x > 0 \<longleftrightarrow> s_offset x = 0" by (simp add: word_gt_0)
  show "sq_recover (subscribe_params x tok) = s_recover x"
    by (simp add: subscribe_params_def subscribe_request_def Let_def empty_subscribe_req_def split: option.split)
  show "s_recover x \<Longrightarrow> sq_offset (subscribe_params x tok) = s_offset x \<and> sq_epoch (subscribe_params x tok) = s_epoch x"
    using pos by (auto simp: subscribe_params_def subscribe_request_def Let_def empty_subscribe_req_def split: option.split)
  show "\<not> s_recover x \<Longrightarrow> sq_offset (subscribe_params x tok) = 0 \<and> sq_epoch (subscribe_params x tok) = []"
    by (simp add: subscribe_params_def subscribe_request_def Let_def empty_subscribe_req_def split: option.split)
qed

section \<open>What a subscribe reply does to the position\<close>

definition place :: "sid \<Rightarrow> world \<Rightarrow> u64 \<times> string" where
  "place s w = (s_offset (sub_at w s), s_epoch (sub_at w s))"

definition adopt_reply :: "pb_subscribe_result \<Rightarrow> u64 \<times> string \<Rightarrow> u64 \<times> string" where
  "adopt_reply res pl = (if sr_epoch res \<noteq> [] \<or> snd pl = [] then (sr_offset res, sr_epoch res) else pl)"

lemma place_position: "keeps (position s) m \<Longrightarrow> keeps (place s) m"
  by (erule keeps_via[where h = "\<lambda>(a, b, c). (a, b)"]) (simp add: position_def place_def)

lemmas place_effects [keeps_intro] = position_effects[THEN place_position]

lemma place_mods: "(\<And>x. (s_offset (f x), s_epoch (f x)) = (s_offset x, s_epoch x)) \<Longrightarrow> keeps (place s) (mods s' f)"
  by (simp add: keeps_def mods_def place_def)

lemma place_parts:
  "keeps (place s) (arm_sub_refresh s' ttl)" "keeps (place s) (resolveSubFutures s' e)"
  "keeps (place s) (updateSubscriptionPushID s' a b)" "keeps (place s) (queue_if b' j)"
  "keeps (place s) (modc f)"
proof -
  show c: "keeps (place s) (modc f)" for f by (simp add: keeps_def modc_def place_def)
  show "keeps (place s) (arm_sub_refresh s' ttl)" "keeps (place s) (resolveSubFutures s' e)"
    "keeps (place s) (updateSubscriptionPushID s' a b)" "keeps (place s) (queue_if b' j)"
    by (auto simp: arm_sub_refresh_def resolveSubFutures_def updateSubscriptionPushID_def queue_if_def
        intro!: keeps_intro place_mods c)
qed

definition moves_place :: "sid \<Rightarrow> 'a op \<Rightarrow> (u64 \<times> string \<Rightarrow> u64 \<times> string) \<Rightarrow> bool" where
  "moves_place s m F \<longleftrightarrow> (\<forall>w. place s (after m w) = F (place s w))"

lemma moves_place_before: "keeps (place s) m \<Longrightarrow> (\<And>x. moves_place s (k x) F) \<Longrightarrow> moves_place s (State_Monad.bind m k) F"
  by (simp add: moves_place_def keeps_def split_beta)

lemma moves_place_then: "moves_place s m F \<Longrightarrow> (\<And>x. keeps (place s) (k x)) \<Longrightarrow> moves_place s (State_Monad.bind m k) F"
  by (simp add: moves_place_def keeps_def split_beta)

lemma enterSubscribed_place: "moves_place s (enterSubscribed h s res pubs ds) (adopt_reply res)"
proof -
  have adopt: "moves_place s (mods s (\<lambda>x. if sr_epoch res \<noteq> [] \<or> s_epoch x = []
      then x\<lparr>s_offset := sr_offset res, s_epoch := sr_epoch res\<rparr> else x)) (adopt_reply res)"
    by (simp add: moves_place_def mods_def place_def adopt_reply_def)
  show ?thesis
    unfolding enterSubscribed_def
    by (intro moves_place_before moves_place_then[OF adopt] keeps_intro place_mods place_parts) simp_all
qed

section \<open>Properties\<close>

text \<open>
  C18: publications reach the application in the order the server sent them, each with its decoded
  data, and the subscription is then at the position of the last one, with its data as the base of
  the next delta.
\<close>

theorem publications_in_order:
  assumes "s_state (sub_at w s) = SubStateSubscribed" "s_events (sub_at w s) SHPublication" "open_queue w"
    and "applyDeltas (en_codec (w_env w)) (c_ptype (w_cl w)) (s_delta_negotiated (sub_at w s))
           (s_prev_data (sub_at w s)) pubs = (Inr ds, prev')"
  shows "sub_at (after (receive h s pubs) w) s = (fold adopt_position pubs (sub_at w s))\<lparr>s_prev_data := prev'\<rparr>
    \<and> queued (after (receive h s pubs) w)
        = queued w @ map (\<lambda>(p, d). JEvents [EvPublication s (pub_event p d)]) (zip pubs ds)"
  using assms by (rule receive_run)

text \<open>The facts about the concrete run that the witnesses need, evaluated at once.\<close>

definition ready :: "sid \<Rightarrow> world \<Rightarrow> bool" where
  "ready s w \<longleftrightarrow> s_state (sub_at w s) = SubStateSubscribed \<and> s_events (sub_at w s) SHPublication
     \<and> q_head (w_queue w) = None \<and> q_tail (w_queue w) = None \<and> \<not> q_closed (w_queue w) \<and> queued w = []
     \<and> s_recover (sub_at w s) \<and> s_offset (sub_at w s) = 5 \<and> s_epoch (sub_at w s) = ''e''
     \<and> applyDeltas (en_codec (w_env w)) (c_ptype (w_cl w)) (s_delta_negotiated (sub_at w s))
         (s_prev_data (sub_at w s)) [demo_pub 6 [1], demo_pub 7 [2]] = (Inr [Some [1], Some [2]], None)"

lemma demo_ready: "ready 0 demo_live"
  by code_simp

lemma demo_receive:
  "s_state (sub_at demo_live 0) = SubStateSubscribed" "s_events (sub_at demo_live 0) SHPublication"
  "open_queue demo_live" "queued demo_live = []"
  "applyDeltas (en_codec (w_env demo_live)) (c_ptype (w_cl demo_live)) (s_delta_negotiated (sub_at demo_live 0))
     (s_prev_data (sub_at demo_live 0)) [demo_pub 6 [1], demo_pub 7 [2]] = (Inr [Some [1], Some [2]], None)"
  "s_recover (sub_at demo_live 0)" "s_offset (sub_at demo_live 0) = 5" "s_epoch (sub_at demo_live 0) = ''e''"
  using demo_ready by (auto simp: ready_def open_queue_def queue_inv_def queue_rep_def intro!: exI[of _ "[]"])

theorem publications_in_order_witness:
  "queued (after (receive False 0 [demo_pub 6 [1], demo_pub 7 [2]]) demo_live)
    = [JEvents [EvPublication 0 (pub_event (demo_pub 6 [1]) (Some [1]))],
       JEvents [EvPublication 0 (pub_event (demo_pub 7 [2]) (Some [2]))]]"
  using publications_in_order[OF demo_receive(1-3,5), of False] demo_receive(4) by simp

text \<open>
  C14: a subscription that loses its connection after any stretch of publications asks, with its next
  subscribe command, to recover from the last publication it handled, in the epoch it is in: nothing
  is skipped and nothing is asked for twice.
\<close>

theorem resumes_after_last:
  assumes "s_state (sub_at w s) = SubStateSubscribed" "s_events (sub_at w s) SHPublication" "open_queue w"
    and "applyDeltas (en_codec (w_env w)) (c_ptype (w_cl w)) (s_delta_negotiated (sub_at w s))
           (s_prev_data (sub_at w s)) pubs = (Inr ds, prev')"
    and "s_recover (sub_at w s)" "s_epoch (sub_at w s) \<noteq> []" "pubs \<noteq> []" "\<forall>p \<in> set pubs. pp_offset p > 0"
    and "w' = after (moveToSubscribingLocked s code reason) (after (receive h s pubs) w)"
  shows "sq_recover (subscribe_params (sub_at w' s) token)
    \<and> sq_offset (subscribe_params (sub_at w' s) token) = pp_offset (last pubs)
    \<and> sq_epoch (subscribe_params (sub_at w' s) token) = s_epoch (sub_at w s)"
proof -
  let ?w = "after (receive h s pubs) w"
  have "position s w' = position s ?w" unfolding assms(9) by (rule keepsD[OF position_subscribing])
  moreover have "position s ?w = (pp_offset (last pubs), s_epoch (sub_at w s), True)"
    using receive_run[OF assms(1-4)] fold_adopt[OF assms(6,8)] assms(5,7) by (simp add: position_def)
  ultimately show ?thesis by (simp add: position_def subscribe_params_position)
qed

theorem resumes_after_last_witness:
  "\<exists>w. sq_recover (subscribe_params (sub_at w 0) []) \<and> sq_offset (subscribe_params (sub_at w 0) []) = 7
    \<and> sq_epoch (subscribe_params (sub_at w 0) []) = ''e''"
proof -
  show ?thesis
    using demo_receive(6,8) resumes_after_last[OF demo_receive(1-3,5), where h = False and code = 1 and reason = "[]" and token = "[]"]
    by (simp add: demo_pub_def) blast
qed

text \<open>
  C21: an empty epoch never replaces a known one. A subscribe reply without an epoch leaves the whole
  position as it was, a publication moves the offset only, and the same holds for the server-side
  subscriptions of the connect reply and their publications; a reply with an epoch replaces the
  position of a client-side subscription.
\<close>

theorem known_epoch_kept:
  assumes "s_epoch (sub_at w s) \<noteq> []" "ss_epoch old \<noteq> []" "w' = after (enterSubscribed h s res pubs ds) w"
  shows "place s w' = (if sr_epoch res = [] then place s w else (sr_offset res, sr_epoch res))
    \<and> s_epoch (adopt_position p (sub_at w s)) = s_epoch (sub_at w s)
    \<and> ss_epoch (stored_server_sub (Some old) res) = (if sr_epoch res = [] then ss_epoch old else sr_epoch res)
    \<and> (sr_epoch res = [] \<longrightarrow> ss_offset (stored_server_sub (Some old) res) = ss_offset old)
    \<and> ss_epoch (adopt_server_position p old) = ss_epoch old"
proof -
  have "place s w' = adopt_reply res (place s w)"
    using enterSubscribed_place[of s h res pubs ds] assms(3) by (simp add: moves_place_def)
  then show ?thesis using assms(1,2)
    by (auto simp: adopt_reply_def place_def adopt_position_def stored_server_sub_def adopt_server_position_def Let_def)
qed

theorem known_epoch_kept_witness:
  "\<exists>w. place 0 w = (5, ''e'')
    \<and> place 0 (after (enterSubscribed False 0 (the (r_subscribe demo_subscribe_reply)\<lparr>sr_epoch := [], sr_offset := 9\<rparr>) [] []) w)
        = (5, ''e'')"
proof -
  have "place 0 demo_live = (5, ''e'')" "s_epoch (sub_at demo_live 0) \<noteq> []"
    using demo_receive(7,8) by (simp_all add: place_def)
  then show ?thesis
    using known_epoch_kept[of demo_live 0 "\<lparr>ss_offset = 1, ss_epoch = ''e'', ss_recoverable = True\<rparr>" _ False
        "the (r_subscribe demo_subscribe_reply)\<lparr>sr_epoch := [], sr_offset := 9\<rparr>" "[]" "[]" "demo_pub 6 [1]"]
    by auto
qed

end
