(* ===== verification/Stale.thy ===== *)
theory Stale
  imports SubSteady Positions
begin

text \<open>
  What is outdated stays outdated. A subscription counts its subscribe attempts, the invalidations of
  its state and its sessions; what was begun under an older count is dropped wherever it arrives,
  however much later. This rests on the counters never going back, whatever runs in between.
\<close>

section \<open>The counters never go back\<close>

definition counted :: "sid \<Rightarrow> nat \<Rightarrow> nat \<Rightarrow> nat \<Rightarrow> world \<Rightarrow> bool" where
  "counted s a i n w \<longleftrightarrow> a \<le> s_attempt (sub_at w s) \<and> i \<le> s_invalidations (sub_at w s)
     \<and> n \<le> s_session (sub_at w s)"

lemma sub_at_new:
  assumes "\<not> sub_exists w (w_next_sid w)"
  shows "sub_at (w\<lparr>w_heap := w_heap w @ [(w_next_sid w, newSubscription ch cfg)]\<rparr>) s =
      (if s = w_next_sid w then newSubscription ch cfg else sub_at w s)"
  using assms by (auto simp: sub_at_def sub_exists_def gm_get_def map_add_def split: option.split)

interpretation counted: sub_steady "counted s a i n" for s a i n
proof
  fix s s' a i n ch cfg w x
  show "counted s a i n (w\<lparr>w_heap := gm_put s' x (w_heap w)\<rparr>)"
    if "counted s a i n w" "counters_kept (sub_at w s') x"
    using that by (auto simp: counted_def counters_kept_def)
  show "counted s a i n (w\<lparr>w_heap := w_heap w @ [(w_next_sid w, newSubscription ch cfg)]\<rparr>)"
    if "counted s a i n w" "\<not> sub_exists w (w_next_sid w)"
  proof -
    have "s = w_next_sid w \<Longrightarrow> sub_at w s = no_sub"
      using that(2) by (simp add: sub_at_def sub_exists_def)
    then show ?thesis using that sub_at_new[OF that(2)] by (auto simp: counted_def no_sub_def)
  qed
qed (simp add: counted_def sub_at_def)

lemma counters_monotone:
  assumes "reachable w" "client_step\<^sup>*\<^sup>* w w'"
  shows "s_attempt (sub_at w s) \<le> s_attempt (sub_at w' s)
    \<and> s_invalidations (sub_at w s) \<le> s_invalidations (sub_at w' s) \<and> s_session (sub_at w s) \<le> s_session (sub_at w' s)"
  using counted.turns.steady_steps[OF assms(2,1), of s "s_attempt (sub_at w s)" "s_invalidations (sub_at w s)" "s_session (sub_at w s)"]
  by (simp add: counted_def)

lemma sub_at_put [simp]: "sub_at (w\<lparr>w_heap := gm_put s x h\<rparr>) s = x"
  by (simp add: sub_at_def)

lemma sub_at_update: "sub_at (after (mods s f) w) s = f (sub_at w s)"
  by (simp add: mods_def)

section \<open>What is dropped\<close>

lemma lock_superseded:
  "s_attempt (sub_at w s) \<noteq> a \<Longrightarrow> run_state (lockCurrentAttempt s a) w
     = ((False, if s_state (sub_at w s) = SubStateSubscribing then [TSub (Resubscribe s)] else []), w)"
  "s_attempt (sub_at w s) \<noteq> a \<Longrightarrow> run_state (lockCurrentSubscribe s a g) w
     = ((False, if s_state (sub_at w s) = SubStateSubscribing then [TSub (Resubscribe s)] else []), w)"
  by (simp_all add: lockCurrentAttempt_def lockCurrentSubscribe_def)

text \<open>The tasks that end a subscribe, for the attempt they belong to.\<close>

definition ends_attempt :: "sid \<Rightarrow> nat \<Rightarrow> sub_task \<Rightarrow> bool" where
  "ends_attempt s a t = (case t of
     MoveToSubscribed s' res g a' \<Rightarrow> s' = s \<and> a' = a
   | SubscribeError s' e a' g \<Rightarrow> s' = s \<and> a' = a
   | SubscribeUnrecoverable s' a' g \<Rightarrow> s' = s \<and> a' = a
   | SubscribeErrorReported s' e a' g \<Rightarrow> s' = s \<and> a' = a
   | GetStateFailed s' a' \<Rightarrow> s' = s \<and> a' = a
   | _ \<Rightarrow> False)"

lemma superseded_run:
  assumes "s_attempt (sub_at w s) \<noteq> a" "ends_attempt s a t"
  shows "after (run_task an h (TSub t)) w = w \<and> set (outcome (run_task an h (TSub t)) w) \<subseteq> {TSub (Resubscribe s)}"
  using assms
  by (cases t) (auto simp: ends_attempt_def run_task_def run_sub_def moveToSubscribed_def subscribeError_def
      subscribeUnrecoverable_def subscribeErrorReported_def getStateFailed_def lock_superseded)

lemma outdated_run:
  assumes "s_attempt (sub_at w s) \<noteq> a \<or> s_invalidations (sub_at w s) \<noteq> i"
  shows "sub_at (after (gotState res s a i) w) s = (sub_at w s)\<lparr>s_inflight := False\<rparr>"
    "sub_at (after (gotSubToken tk s a i) w) s = (sub_at w s)\<lparr>s_inflight := False\<rparr>"
    "sub_at (after (sendSubscribeNow s a i tok) w) s = (sub_at w s)\<lparr>s_inflight := False\<rparr>"
    "w_wire (after (sendSubscribeNow s a i tok) w) = w_wire w"
  using assms
  by (auto simp: gotState_def gotSubToken_def sendSubscribeNow_def end_inflight_def mods_def spawn_def)

lemma stale_refresh_run:
  assumes "s_session (sub_at w s) \<noteq> n \<or> s_invalidations (sub_at w s) \<noteq> i"
  shows "run_state (gotRefreshSubToken tk s n i) w = ([], w)" "run_state (subRefreshSend s n i tok) w = ([], w)"
    "run_state (subRefreshReply s n i r) w = ([], w)" "after (unsubscribeIfRefreshCurrent s n i code reason) w = w"
  using assms
  by (auto simp: gotRefreshSubToken_def subRefreshSend_def subRefreshReply_def unsubscribeIfRefreshCurrent_def
      isRefreshCurrent_def)

section \<open>A concrete run\<close>

text \<open>The live subscription of the demo is unsubscribed.\<close>

definition demo_unsubscribe :: "action list" where
  "demo_unsubscribe = [Api False (ApiUnsubscribe 0), ThreadStep demo_answers 3, ThreadStep demo_answers 0]"

definition demo_unsubscribed :: world where
  "demo_unsubscribed = run_actions demo_unsubscribe demo_live"

definition unsubscribed_ok :: "world \<Rightarrow> bool" where
  "unsubscribed_ok w \<longleftrightarrow> s_attempt (sub_at w 0) = 1 \<and> s_session (sub_at w 0) = 1
     \<and> s_state (sub_at w 0) = SubStateUnsubscribed"

lemma demo_unsubscribe_run: "run_then demo_unsubscribe unsubscribed_ok demo_live"
  by code_simp

lemma demo_unsubscribed_facts:
  "s_attempt (sub_at demo_unsubscribed 0) = 1" "s_session (sub_at demo_unsubscribed 0) = 1"
  using demo_unsubscribe_run by (simp_all add: run_then_iff unsubscribed_ok_def demo_unsubscribed_def)

lemma reachable_unsubscribed: "reachable demo_unsubscribed"
  unfolding demo_unsubscribed_def using demo_unsubscribe_run reachable_demo(3)
  by (simp add: run_then_iff reachable_run)

section \<open>Properties\<close>

text \<open>
  C13: once a subscribe attempt is superseded (the application or the server unsubscribed in between),
  its outcome can never take effect, however late it arrives and whatever happened since: neither the
  reply nor the error of that attempt changes anything in the client; at most the subscription, if it
  is subscribing again, starts a subscribe of its own.
\<close>

theorem superseded_is_inert:
  assumes "reachable w" "client_step\<^sup>*\<^sup>* w w'" "a < s_attempt (sub_at w s)" "ends_attempt s a t"
  shows "after (run_task an h (TSub t)) w' = w' \<and> set (outcome (run_task an h (TSub t)) w') \<subseteq> {TSub (Resubscribe s)}"
proof -
  have "s_attempt (sub_at w' s) \<noteq> a" using counters_monotone[OF assms(1,2), of s] assms(3) by auto
  then show ?thesis using assms(4) by (rule superseded_run)
qed

theorem superseded_is_inert_witness:
  "after (run_task demo_answers False (TSub (MoveToSubscribed 0 (the (r_subscribe demo_subscribe_reply)) 0 0))) demo_unsubscribed
    = demo_unsubscribed"
  using superseded_is_inert[OF reachable_unsubscribed rtranclp.rtrancl_refl, of 0 0] demo_unsubscribed_facts(1)
  by (simp add: ends_attempt_def)

text \<open>
  C16: what the application returns for an outdated request is dropped. After the state of a
  subscription was invalidated, or the attempt was superseded, the position of a \<open>GetState\<close> and the
  token of a \<open>GetToken\<close> that were asked for before are not stored, and no subscribe command with the
  old token is sent: the subscribe only ends, to be started again with fresh values.
\<close>

theorem outdated_answers_dropped:
  assumes "reachable w" "client_step\<^sup>*\<^sup>* w w'"
    and "a < s_attempt (sub_at w s) \<or> i < s_invalidations (sub_at w s)"
  shows "sub_at (after (gotState res s a i) w') s = (sub_at w' s)\<lparr>s_inflight := False\<rparr>
    \<and> sub_at (after (gotSubToken tk s a i) w') s = (sub_at w' s)\<lparr>s_inflight := False\<rparr>
    \<and> sub_at (after (sendSubscribeNow s a i tok) w') s = (sub_at w' s)\<lparr>s_inflight := False\<rparr>
    \<and> w_wire (after (sendSubscribeNow s a i tok) w') = w_wire w'"
proof -
  have "s_attempt (sub_at w' s) \<noteq> a \<or> s_invalidations (sub_at w' s) \<noteq> i"
    using counters_monotone[OF assms(1,2), of s] assms(3) by auto
  then show ?thesis by (simp add: outdated_run)
qed

theorem outdated_answers_dropped_witness:
  "sub_at (after (gotState (Inr \<lparr>sp_offset = 3, sp_epoch = ''x''\<rparr>) 0 0 0) demo_unsubscribed) 0
    = (sub_at demo_unsubscribed 0)\<lparr>s_inflight := False\<rparr>"
  using outdated_answers_dropped[OF reachable_unsubscribed rtranclp.rtrancl_refl, of 0 0] demo_unsubscribed_facts(1)
  by simp



text \<open>
  C20: invalidating the state of a subscription, on the server's request, forgets everything it could
  resume from: the offset, the base of the next delta, the numeric id (which no longer routes to it)
  and the token if a new one can be asked for. A subscription that recovers asks from offset 0 in the
  sentinel epoch, which no stream has, so that the server can only answer with its current state. The
  subscribe state is left to the transition that follows, and everything begun before is outdated.
\<close>

theorem invalidation_resets:
  assumes "w' = after (invalidateState s) w"
  shows "place s w' = (0, stateInvalidatedEpoch) \<and> s_prev_data (sub_at w' s) = None \<and> s_push_id (sub_at w' s) = 0
    \<and> (s_push_id (sub_at w s) > 0 \<longrightarrow> gm_get (c_subs_by_id (w_cl w')) (s_push_id (sub_at w s)) \<noteq> Some s)
    \<and> (sc_get_token (s_cfg (sub_at w s)) \<longrightarrow> s_token (sub_at w' s) = [])
    \<and> sq_recover (subscribe_params (sub_at w' s) tok) = s_recover (sub_at w s)
    \<and> sq_offset (subscribe_params (sub_at w' s) tok) = 0
    \<and> sq_epoch (subscribe_params (sub_at w' s) tok) = (if s_recover (sub_at w s) then stateInvalidatedEpoch else [])
    \<and> s_state (sub_at w' s) = s_state (sub_at w s)
    \<and> s_invalidations (sub_at w' s) = Suc (s_invalidations (sub_at w s))"
proof -
  have x: "s_offset (sub_at w' s) = 0" "s_epoch (sub_at w' s) = stateInvalidatedEpoch"
    "s_recover (sub_at w' s) = s_recover (sub_at w s)"
    unfolding assms by (simp_all add: invalidateState_def updateSubscriptionPushID_def mods_def modc_def)
  then have "place s w' = (0, stateInvalidatedEpoch)" by (simp add: place_def)
  moreover have "s_prev_data (sub_at w' s) = None" "s_push_id (sub_at w' s) = 0"
    "s_push_id (sub_at w s) > 0 \<longrightarrow> gm_get (c_subs_by_id (w_cl w')) (s_push_id (sub_at w s)) \<noteq> Some s"
    "sc_get_token (s_cfg (sub_at w s)) \<longrightarrow> s_token (sub_at w' s) = []"
    "s_state (sub_at w' s) = s_state (sub_at w s)"
    "s_invalidations (sub_at w' s) = Suc (s_invalidations (sub_at w s))"
    unfolding assms by (auto simp: invalidateState_def updateSubscriptionPushID_def mods_def modc_def)
  ultimately show ?thesis using x by (simp add: subscribe_params_position)
qed

theorem invalidation_resets_witness:
  "place 0 (after (invalidateState 0) demo_live) = (0, ''_'')"
  using invalidation_resets[of _ 0 demo_live] by (simp add: stateInvalidatedEpoch_def)

end
