(* ===== verification/Lifecycle.thy ===== *)
theory Lifecycle
  imports ConnMachine Stale
begin

text \<open>
  What ends a subscription or a connection: a publication that cannot be decoded, an unsubscribe or a
  disconnect push of the server, and the registry of subscriptions.
\<close>

section \<open>What unsubscribing does to the subscription\<close>

lemma sub_at_heap: "keeps w_heap m \<Longrightarrow> sub_at (after m w) s = sub_at w s"
  by (simp add: keeps_def sub_at_def)

lemma held_sub_ops:
  "keeps held (stop_sub_timers s)" "keeps held (updateSubscriptionPushID s a b)"
  "keeps held (sendUnsubscribeLocked s)"
  by (auto simp: stop_sub_timers_def updateSubscriptionPushID_def sendUnsubscribeLocked_def sendUnsubscribe_def
      unsubscribe_failed_def nextCmdID_def intro!: keeps_intro)

lemmas sub_at_ops = held_sub_ops[THEN held_heap, THEN sub_at_heap] held_queue[THEN held_heap, THEN sub_at_heap]
  held_effects[THEN held_heap, THEN sub_at_heap]

lemma resolve_sub_at: "sub_at (after (resolveSubFutures s e) w) s = (sub_at w s)\<lparr>s_futures := []\<rparr>"
proof -
  have "keeps held (for_each (\<lambda>(k, oper). spawn [TCall (RunSubOperation s k oper e)]) xs)" for xs
    by (auto intro!: keeps_intro)
  then show ?thesis by (simp add: resolveSubFutures_def split_beta sub_at_update held_heap sub_at_heap)
qed

definition ended :: "sub \<Rightarrow> sub" where
  "ended x = x\<lparr>s_attempt := Suc (s_attempt x), s_resubscribe_attempts := 0, s_futures := [],
     s_state := SubStateUnsubscribed, s_push_id := 0\<rparr>"

lemma unsubscribed_sub_at: "sub_at (after (moveToUnsubscribedLocked s code reason e) w) s = ended (sub_at w s)"
  by (simp add: moveToUnsubscribedLocked_def split_beta sub_at_update sub_at_ops resolve_sub_at ended_def)

section \<open>Properties\<close>

text \<open>
  C22: a publication that cannot be decoded stops the client instead of being skipped: nothing is
  delivered, the position and the base stay where they were, and the goroutine goes on to report the
  error and to disconnect as a protocol error, after which the client neither is connected nor
  reconnects by itself.
\<close>

theorem failed_delta_stops:
  assumes "s_state (sub_at w s) = SubStateSubscribed"
    and "applyDelta (en_codec (w_env w)) (c_ptype (w_cl w)) (s_delta_negotiated (sub_at w s))
           (s_prev_data (sub_at w s)) p = (Inl e, prev')"
  shows "outcome (handlePublication h s p) w = [TSub (DeltaFailed s (pp_offset p) e)]
    \<and> sub_at (after (handlePublication h s p) w) s = sub_at w s
    \<and> queued (after (handlePublication h s p) w) = queued w
    \<and> last (outcome (run_task a h (TSub (DeltaFailed s (pp_offset p) e))) w1)
        = TClient (MoveToDisconnected disconnectBadProtocol ''delta error'')
    \<and> c_state (w_cl (after (run_task a h (TClient (MoveToDisconnected disconnectBadProtocol ''delta error''))) w2))
        \<in> {StateDisconnected, StateClosed}"
proof -
  have prev: "prev' = s_prev_data (sub_at w s)" using assms(2) by (rule applyDelta_error_keeps)
  have "c_state (w_cl (after (disconnect_now c r) w2)) = StateDisconnected" for c r
    using does_disconnect[of c r] by (simp add: conn_does_def conn_def split_beta)
  then have "c_state (w_cl (after (moveToDisconnected c r) w2)) \<in> {StateDisconnected, StateClosed}" for c r
    by (simp add: moveToDisconnected_def moveToDisconnectedIf_def split_beta)
  then show ?thesis
    using assms prev by (simp add: handlePublication_def mods_def run_task_def run_sub_def run_client_def
        deltaFailed_def queued_def split_beta)
qed

text \<open>
  C23: a disconnect push decides by its code alone whether the client comes back. A connected client
  that gets one on its connection leaves the connected state: for the terminal codes, 3500 to 3999 and
  4500 to 4999, it ends disconnected, for every other code it is connecting again.
\<close>

theorem disconnect_push:
  assumes "c_state (w_cl w) = StateConnected" "c_transport (w_cl w) = Some t"
    and "pu_message p = None" "pu_unsubscribe p = None" "pu_pub p = None" "pu_join p = None"
      "pu_leave p = None" "pu_subscribe p = None" "pu_disconnect p = Some d"
  shows "\<exists>before final. outcome (handlePush t p) w
        = [TClient (HandleTransportDisconnect (Some t) (Some (push_disconnect d)))]
    \<and> outcome (handleTransportDisconnect (Some t) (Some (push_disconnect d))) w = before @ [final]
    \<and> c_state (w_cl (after (run_task a h final) w)) =
        (if 3500 \<le> unat (pd_code d) \<and> unat (pd_code d) < 4000 \<or> 4500 \<le> unat (pd_code d) \<and> unat (pd_code d) < 5000
         then StateDisconnected else StateConnecting)"
proof -
  have stop: "c_state (w_cl (after (disconnect_now c r) w)) = StateDisconnected" for c r
    using does_disconnect[of c r] by (simp add: conn_does_def conn_def split_beta)
  have again: "c_state (w_cl (after (reconnect_now h c r) w)) = StateConnecting" for c r
    using does_reconnect[of h c r] by (simp add: conn_does_def conn_def split_beta)
  let ?pre = "if pd_code d = disconnectedStateInvalidated then [TClient InvalidateConnectionState] else []"
  let ?fin = "TClient (if reconnect_code (pd_code d) then MoveToConnectingFrom (Some t) (pd_code d) (pd_reason d)
    else MoveToDisconnectedFrom (Some t) (pd_code d) (pd_reason d))"
  have "outcome (handlePush t p) w = [TClient (HandleTransportDisconnect (Some t) (Some (push_disconnect d)))]"
    using assms(3-9) by (simp add: handlePush_def push_tasks_def split: option.split)
  moreover have "outcome (handleTransportDisconnect (Some t) (Some (push_disconnect d))) w = ?pre @ [?fin]"
    using assms(2) by (simp add: handleTransportDisconnect_def push_disconnect_def Let_def)
  moreover have "c_state (w_cl (after (run_task a h ?fin) w)) =
      (if reconnect_code (pd_code d) then StateConnecting else StateDisconnected)"
    using assms(1,2) stop again
    by (simp add: run_task_def run_client_def moveToConnectingFrom_def moveToDisconnectedFrom_def
        moveToDisconnectedIf_def split_beta)
  ultimately show ?thesis unfolding reconnect_code_iff by auto
qed

definition demo_disconnect :: pb_push where
  "demo_disconnect = \<lparr>pu_id = 0, pu_channel = [], pu_message = None, pu_unsubscribe = None, pu_pub = None,
     pu_join = None, pu_leave = None, pu_subscribe = None,
     pu_disconnect = Some \<lparr>pd_code = 3501, pd_reason = ''bad request''\<rparr>\<rparr>"

definition delta_ready :: "world \<Rightarrow> bool" where
  "delta_ready w \<longleftrightarrow> c_state (w_cl w) = StateConnected \<and> c_transport (w_cl w) = Some 1
     \<and> s_state (sub_at w 0) = SubStateSubscribed
     \<and> applyDelta (en_codec (w_env w)) (c_ptype (w_cl w)) (s_delta_negotiated (sub_at w 0)) (s_prev_data (sub_at w 0))
         ((demo_pub 6 [1])\<lparr>pp_delta := True\<rparr>) = (Inl (Other ''delta publication without negotiated delta''), None)"

lemma demo_delta_ready: "delta_ready demo_live"
  by code_simp

theorem failed_delta_stops_witness:
  "sub_at (after (handlePublication False 0 ((demo_pub 6 [1])\<lparr>pp_delta := True\<rparr>)) demo_live) 0 = sub_at demo_live 0"
  using demo_delta_ready failed_delta_stops[of demo_live 0 "(demo_pub 6 [1])\<lparr>pp_delta := True\<rparr>"]
  by (simp add: delta_ready_def)

theorem disconnect_push_witness:
  "\<exists>final. last (outcome (handleTransportDisconnect (Some 1)
      (Some (push_disconnect \<lparr>pd_code = 3501, pd_reason = ''bad request''\<rparr>))) demo_live) = final
    \<and> c_state (w_cl (after (run_task demo_answers False final) demo_live)) = StateDisconnected"
proof -
  have "unat (3501 :: u32) = 3501" by simp
  then show ?thesis
    using demo_delta_ready disconnect_push[of demo_live 1 demo_disconnect
        "\<lparr>pd_code = 3501, pd_reason = ''bad request''\<rparr>" demo_answers False]
    by (auto simp: delta_ready_def demo_disconnect_def)
qed




text \<open>
  C25: the registry of subscriptions: a new subscription is registered under its channel and a second
  one for that channel is refused without any effect; removing it restores the registry, and removing
  any other subscription, also an older one of the same channel, leaves it registered.
\<close>

theorem registry_roundtrip:
  assumes "reachable w" "gm_get (c_subs (w_cl w)) ch = None"
    and "\<forall>c. config = Some c \<longrightarrow> sc_tags_filter c = None \<or> sc_delta c = DeltaTypeNone"
    and "s = w_next_sid w" "w' = after (NewSubscription ch config) w"
  shows "outcome (NewSubscription ch config) w = Inr s
    \<and> sub_at w' s = newSubscription ch config \<and> gm_get (c_subs (w_cl w')) ch = Some s
    \<and> run_state (NewSubscription ch config2) w' = (Inl (Sentinel ErrDuplicateSubscription), w')
    \<and> gm_get (c_subs (w_cl (after (removeEntry s k) w'))) ch' = gm_get (c_subs (w_cl w)) ch'
    \<and> (s2 \<noteq> s \<longrightarrow> gm_get (c_subs (w_cl (after (removeEntry s2 k) w'))) ch = Some s)"
proof -
  have new: "\<not> sub_exists w s"
    using refs.invariant[OF assms(1)] unfolding well_referenced_def fit_def known_def assms(4) by blast
  have fine: "\<not> (case config of None \<Rightarrow> False | Some c \<Rightarrow> sc_tags_filter c \<noteq> None \<and> sc_delta c \<noteq> DeltaTypeNone)"
    using assms(3) by (cases config) auto
  have run: "run_state (NewSubscription ch config) w = (Inr s, w\<lparr>w_next_sid := Suc s,
      w_heap := w_heap w @ [(s, newSubscription ch config)], w_cl := (w_cl w)\<lparr>c_subs := gm_put ch s (c_subs (w_cl w))\<rparr>\<rparr>)"
    using fine assms(2,4) by (simp add: NewSubscription_def modc_def)
  have "gm_get (w_heap w') s = Some (newSubscription ch config)"
    using run new unfolding assms(5) by (simp add: gm_get_def sub_exists_def map_add_def)
  moreover have subs: "c_subs (w_cl w') = gm_put ch s (c_subs (w_cl w))" using run unfolding assms(5) by simp
  ultimately have at: "sub_at w' s = newSubscription ch config" "gm_get (c_subs (w_cl w')) ch = Some s"
    by (simp_all add: sub_at_def)
  have dup: "run_state (NewSubscription ch config2) w' = (Inl (Sentinel ErrDuplicateSubscription), w')"
    using at(2) by (simp add: NewSubscription_def)
  have chan: "s_channel (newSubscription ch config) = ch" by (simp add: newSubscription_def Let_def)
  have remove: "c_subs (w_cl (after (removeEntry x k) w')) =
      (if gm_get (c_subs (w_cl w')) (s_channel (sub_at w' x)) = Some x
       then gm_del (s_channel (sub_at w' x)) (c_subs (w_cl w')) else c_subs (w_cl w'))" for x
    by (simp add: removeEntry_def isRegistered_def return_to_def modc_def split_beta)
  show ?thesis
    using run at dup chan remove[of s] remove[of s2] assms(2) by (auto simp: subs)
qed

theorem registry_roundtrip_witness:
  "outcome (NewSubscription ''news'' None) demo_live = Inr 1
    \<and> fst (run_state (NewSubscription ''news'' None) (after (NewSubscription ''news'' None) demo_live))
      = Inl (Sentinel ErrDuplicateSubscription)"
proof -
  have "gm_get (c_subs (w_cl demo_live)) ''news'' = None" "w_next_sid demo_live = 1"
    using demo_live by (simp_all add: gm_get_def)
  then show ?thesis using registry_roundtrip[OF reachable_demo(3), of "''news''" None 1 _ None] by simp
qed

end
