(* ===== verification/Timers.thy ===== *)
theory Timers
  imports Steady Demo
begin

text \<open>
  The timers of the client: every field that names a timer names one of its own kind, so stopping it
  never stops a timer of somebody else.
\<close>

section \<open>Kinds\<close>

definition names :: "world \<Rightarrow> nat option \<Rightarrow> (timer \<Rightarrow> bool) \<Rightarrow> bool" where
  "names w t P \<longleftrightarrow> (\<forall>n. t = Some n \<longrightarrow> n < w_next w \<and> (\<forall>tm d. gm_get (w_timers w) n = Some (tm, d) \<longrightarrow> P tm))"

definition refresh_timer :: "timer \<Rightarrow> bool" where
  "refresh_timer tm \<longleftrightarrow> (\<exists>g. tm = TmRefresh g)"

definition sub_refresh_timer :: "sid \<Rightarrow> timer \<Rightarrow> bool" where
  "sub_refresh_timer s tm \<longleftrightarrow> (\<exists>n. tm = TmSubRefresh s n)"

definition typed :: "world \<Rightarrow> bool" where
  "typed w \<longleftrightarrow> (\<forall>n \<in> set (gm_keys (w_timers w)). n < w_next w)
     \<and> names w (c_reconnect_timer (w_cl w)) (\<lambda>tm. tm = TmReconnect)
     \<and> names w (c_refresh_timer (w_cl w)) refresh_timer
     \<and> (\<forall>s. names w (s_resubscribe_timer (sub_at w s)) (\<lambda>tm. tm = TmResubscribe s)
          \<and> names w (s_refresh_timer (sub_at w s)) (sub_refresh_timer s))"

lemma names_None [simp]: "names w None P"
  by (simp add: names_def)

lemma names_frame: "names w t P \<Longrightarrow> w_timers w' = w_timers w \<Longrightarrow> w_next w \<le> w_next w' \<Longrightarrow> names w' t P"
  by (auto simp: names_def)

lemma names_del: "names w t P \<Longrightarrow> names (w\<lparr>w_timers := gm_del n (w_timers w)\<rparr>) t P"
  by (auto simp: names_def split: if_splits)

text \<open>A new timer gets an identity nobody names.\<close>

definition with_timer :: "timer \<times> duration \<Rightarrow> world \<Rightarrow> world" where
  "with_timer tm w = w\<lparr>w_next := Suc (w_next w), w_timers := gm_put (w_next w) tm (w_timers w)\<rparr>"

lemma after_func_run: "run_state (after_func d tm) w = (w_next w, with_timer (tm, d) w)"
  by (simp add: after_func_def fresh_def with_timer_def)

lemma names_with: "names w t P \<Longrightarrow> names (with_timer tm w) t P"
  by (auto simp: names_def with_timer_def split: if_splits)

lemma names_new: "P (fst tm) \<Longrightarrow> names (with_timer tm w) (Some (w_next w)) P"
  by (auto simp: names_def with_timer_def)

lemma with_timer_fields [simp]:
  "w_cl (with_timer tm w) = w_cl w" "sub_at (with_timer tm w) s = sub_at w s" "w_heap (with_timer tm w) = w_heap w"
  by (simp_all add: with_timer_def sub_at_def)

lemma typed_with: "typed w \<Longrightarrow> typed (with_timer tm w)"
  by (auto simp: typed_def names_with) (auto simp: with_timer_def gm_keys_get less_Suc_eq split: if_splits)

lemma typed_del: "typed w \<Longrightarrow> typed (w\<lparr>w_timers := gm_del n (w_timers w)\<rparr>)"
proof -
  have "sub_at (w\<lparr>w_timers := ti\<rparr>) s = sub_at w s" for ti s by (simp add: sub_at_def)
  then show "typed w \<Longrightarrow> ?thesis"
    by (auto simp: typed_def names_del gm_keys_get split: if_splits)
qed

lemma typed_frame:
  assumes "typed w" "w_timers w' = w_timers w" "w_next w \<le> w_next w'" "w_heap w' = w_heap w"
    "c_reconnect_timer (w_cl w') = c_reconnect_timer (w_cl w) \<or> c_reconnect_timer (w_cl w') = None"
    "c_refresh_timer (w_cl w') = c_refresh_timer (w_cl w) \<or> c_refresh_timer (w_cl w') = None"
  shows "typed w'"
proof -
  have "sub_at w' s = sub_at w s" for s using assms(4) by (simp add: sub_at_def)
  moreover have "names w t P \<Longrightarrow> names w' t P" for t P using names_frame assms(2,3) by blast
  ultimately show ?thesis
    using assms unfolding typed_def by (metis (no_types, lifting) names_None order_less_le_trans)
qed

section \<open>The operations\<close>

lemma typed_modc:
  "(\<And>c. c_reconnect_timer (f c) = c_reconnect_timer c \<or> c_reconnect_timer (f c) = None)
    \<Longrightarrow> (\<And>c. c_refresh_timer (f c) = c_refresh_timer c \<or> c_refresh_timer (f c) = None) \<Longrightarrow> pres typed (modc f)"
  unfolding pres_def modc_def by (intro allI impI, rule typed_frame) simp_all

lemma typed_put:
  assumes "typed w" "s_resubscribe_timer x \<in> {s_resubscribe_timer (sub_at w s), None}"
    "s_refresh_timer x \<in> {s_refresh_timer (sub_at w s), None}"
  shows "typed (w\<lparr>w_heap := gm_put s x (w_heap w)\<rparr>)"
proof -
  have "names (w\<lparr>w_heap := h\<rparr>) t P = names w t P" for h t P by (simp add: names_def)
  then show ?thesis using assms by (auto simp: typed_def)
qed

lemma typed_mods:
  "(\<And>x. s_resubscribe_timer (f x) = s_resubscribe_timer x \<or> s_resubscribe_timer (f x) = None)
    \<Longrightarrow> (\<And>x. s_refresh_timer (f x) = s_refresh_timer x \<or> s_refresh_timer (f x) = None) \<Longrightarrow> pres typed (mods s f)"
  by (auto simp: pres_def mods_def intro!: typed_put)

lemma typed_stop: "pres typed (stop_timer t)"
  by (auto simp: pres_def stop_timer_def typed_del split: option.split)

text \<open>A timer that is armed and then stored in a field.\<close>

lemma typed_arm_sub:
  assumes "\<And>n x. s_resubscribe_timer (f n x) = s_resubscribe_timer x
      \<or> s_resubscribe_timer (f n x) = Some n \<and> tm = TmResubscribe s"
    "\<And>n x. s_refresh_timer (f n x) = s_refresh_timer x \<or> s_refresh_timer (f n x) = Some n \<and> sub_refresh_timer s tm"
  shows "pres typed (do { n \<leftarrow> after_func d tm; mods s (f n) })"
proof (rule presI)
  fix w assume "typed w"
  then have w: "typed (with_timer (tm, d) w)" by (rule typed_with)
  have new: "P tm \<Longrightarrow> names (with_timer (tm, d) w) (Some (w_next w)) P" for P by (simp add: names_new)
  have heap: "names (v\<lparr>w_heap := h\<rparr>) t P = names v t P" for v h t P by (simp add: names_def)
  have put: "sub_at (v\<lparr>w_heap := gm_put s x (w_heap w)\<rparr>) s' = (if s' = s then x else sub_at w s')" for v x s'
    by (simp add: sub_at_def)
  show "typed (after (do { n \<leftarrow> after_func d tm; mods s (f n) }) w)"
    using w new assms(1)[of "w_next w" "sub_at w s"] assms(2)[of "w_next w" "sub_at w s"]
    by (auto simp: after_func_run mods_def typed_def heap put)
qed

lemma typed_arm_client:
  assumes "\<And>n c. c_reconnect_timer (f n c) = c_reconnect_timer c \<or> c_reconnect_timer (f n c) = Some n \<and> tm = TmReconnect"
    "\<And>n c. c_refresh_timer (f n c) = c_refresh_timer c \<or> c_refresh_timer (f n c) = Some n \<and> refresh_timer tm"
  shows "pres typed (do { n \<leftarrow> after_func d tm; modc (f n) })"
proof (rule presI)
  fix w assume "typed w"
  then have w: "typed (with_timer (tm, d) w)" by (rule typed_with)
  have new: "P tm \<Longrightarrow> names (with_timer (tm, d) w) (Some (w_next w)) P" for P by (simp add: names_new)
  have cl: "names (v\<lparr>w_cl := c\<rparr>) t P = names v t P" for v c t P by (simp add: names_def)
  show "typed (after (do { n \<leftarrow> after_func d tm; modc (f n) }) w)"
    using w new assms(1)[of "w_next w" "w_cl w"] assms(2)[of "w_next w" "w_cl w"]
    by (auto simp: after_func_run modc_def typed_def cl)
qed

text \<open>Sending leaves all of this alone.\<close>

definition tview :: "world \<Rightarrow> (nat, timer \<times> duration) gomap \<times> (sid, sub) gomap \<times> nat \<times> nat option \<times> nat option" where
  "tview w = (w_timers w, w_heap w, w_next w, c_reconnect_timer (w_cl w), c_refresh_timer (w_cl w))"

lemma typed_tview: "keeps tview m \<Longrightarrow> pres typed m"
  unfolding keeps_def pres_def by (intro allI impI, rule typed_frame) (auto simp: tview_def)

lemma tview_ops:
  "keeps tview (popRequest i)" "keeps tview (addRequest i r cb)" "keeps tview (sendOn t cmd)"
  "keeps tview (onConnect k oper)" "keeps tview (spawn ts)"
  by (simp_all add: keeps_def tview_def popRequest_def addRequest_def sendOn_def onConnect_def nextFutureID_def
      spawn_def modc_def split_beta split: option.split cstate.split)

lemma tview_sends: "keeps tview (send cmd)" "keeps tview (sendAsyncOn t cmd cb)" "keeps tview (sendAsync cmd cb)"
proof -
  show send: "keeps tview (send cmd)" for cmd
    by (auto simp: send_def intro!: keeps_intro tview_ops)
  show on: "keeps tview (sendAsyncOn t cmd cb)" for t
    by (auto simp: sendAsyncOn_def intro!: keeps_intro tview_ops send)
  show "keeps tview (sendAsync cmd cb)"
    unfolding sendAsync_def by (rule on)
qed

lemma typed_sub_timers:
  "pres typed (stop_sub_timers s)" "pres typed (scheduleResubscribe s)" "pres typed (arm_sub_refresh s ttl)"
proof -
  show "pres typed (stop_sub_timers s)"
    by (auto simp: stop_sub_timers_def intro!: steady_rules typed_stop)
  show "pres typed (scheduleResubscribe s)" "pres typed (arm_sub_refresh s ttl)"
    unfolding scheduleResubscribe_def arm_sub_refresh_def
    by (intro pres_bind pres_gets pres_if pres_return typed_stop typed_mods typed_arm_sub; simp add: sub_refresh_timer_def)+
qed

lemma typed_fire: "pres typed (fire_timer n)"
proof (rule presI)
  fix w assume "typed w"
  then have "typed (w\<lparr>w_timers := gm_del n (w_timers w)\<rparr>)" by (rule typed_del)
  moreover have "pres typed (spawn ts)" for ts by (rule typed_tview) (rule tview_ops)
  ultimately show "typed (after (fire_timer n) w)"
    using \<open>typed w\<close> by (auto simp: fire_timer_def split: option.split intro: presD)
qed

interpretation typed: steady_loose typed
proof
  show "typed (w\<lparr>w_heap := gm_put s x (w_heap w)\<rparr>)" if "typed w" "sfull x = sfull (sub_at w s)" for s x w
    using that by (intro typed_put) (simp_all add: sfull_def)
  show "typed (w\<lparr>w_cl := c\<rparr>)" if "typed w" "cview c = cview (w_cl w)" for w c
    using that(1) by (rule typed_frame) (use that(2) in \<open>simp_all add: cview_def\<close>)
  show "typed w'" if "typed w" "grows w w'" for w w'
    using that(1) by (rule typed_frame) (use that(2) in \<open>simp_all add: grows_def wview_def\<close>)
  show "typed w'" if "typed w" "wview w' = wview w" "w_next w \<le> w_next w'" for w w'
    using that(1) by (rule typed_frame) (use that(2,3) in \<open>simp_all add: wview_def\<close>)
qed (auto simp: typed_sub_timers typed_fire intro: typed_frame typed_tview tview_ops tview_sends)

declare typed.steady_modc [steady_intro del] typed.steady_mods [steady_intro del]

lemmas typed_intro [steady_intro] = typed_sub_timers(1) typed_modc typed_mods typed_stop

lemma typed_new: "\<not> sub_exists w (w_next_sid w) \<Longrightarrow> typed w \<Longrightarrow> typed (after (NewSubscription ch cfg) w)"
proof -
  assume new: "\<not> sub_exists w (w_next_sid w)" and w: "typed w"
  let ?w = "w\<lparr>w_heap := w_heap w @ [(w_next_sid w, newSubscription ch cfg)]\<rparr>"
  have at: "sub_at ?w s = (if s = w_next_sid w then newSubscription ch cfg else sub_at w s)" for s
    using new by (auto simp: sub_at_def sub_exists_def gm_get_def map_add_def split: option.split)
  have new_none: "s_resubscribe_timer (newSubscription ch cfg) = None" "s_refresh_timer (newSubscription ch cfg) = None"
    by (simp_all add: newSubscription_def Let_def)
  have "names ?w t P = names w t P" for t P by (simp add: names_def)
  then have "typed ?w"
    using w new_none by (simp add: typed_def at)
  then show ?thesis
    using w by (auto simp: NewSubscription_def modc_def split_beta intro: typed_frame)
qed

lemma typed_moves [steady_intro]:
  "pres typed (updateSubscriptionPushID s' x y)"
  "pres typed (moveToUnsubscribedLocked s' c r e)" "pres typed (moveToSubscribingLocked s' c r)"
  "pres typed (subscribeStart s' k)" "pres typed (invalidateState s')"
  "pres typed (enterSubscribed h s' res pubs ds)" "pres typed (removeEntry s' k)"
  by (auto simp: updateSubscriptionPushID_def moveToUnsubscribedLocked_def moveToSubscribingLocked_def
      subscribeStart_def invalidateState_def enterSubscribed_def removeEntry_def intro!: steady_intro split: if_splits)

lemma typed_subscribed [steady_intro]: "pres typed (moveToSubscribed h s' res g a')"
  by (auto simp: moveToSubscribed_def intro!: steady_intro)

lemma typed_schedules [steady_intro]: "pres typed scheduleReconnectLocked" "pres typed (scheduleRefreshLocked d)"
  unfolding scheduleReconnectLocked_def scheduleRefreshLocked_def
  by (intro pres_bind pres_gets typed_stop typed_modc typed_arm_client; simp add: refresh_timer_def)+

lemma typed_teardown [steady_intro]:
  "pres typed clearConnectedState" "pres typed drop_transport"
  "pres typed (setStateLocked st)" "pres typed (setTransportLocked t)" "pres typed subs_to_subscribing"
  by (auto simp: clearConnectedState_def drop_transport_def setStateLocked_def setTransportLocked_def
      subs_to_subscribing_def intro!: steady_intro)

lemma typed_client [steady_intro]:
  "pres typed (disconnect_now c r)" "pres typed (reconnect_now h c r)"
  "pres typed (retry_connecting t)" "pres typed close_now"
  by (auto simp: disconnect_now_def reconnect_now_def retry_connecting_def close_now_def intro!: steady_intro)

lemma typed_transitions [steady_intro]:
  "pres typed (moveToDisconnectedIf current c r)" "pres typed (moveToConnectingFrom h t c r)"
  "pres typed (closeCall k)" "pres typed (startConnecting h cl)" "pres typed (startReconnectingIf ex cl)"
  by (auto simp: moveToDisconnectedIf_def moveToConnectingFrom_def closeCall_def startConnecting_def
      startReconnectingIf_def intro!: steady_intro)

lemma typed_sendConnect [steady_intro]: "pres typed (sendConnect t cb)"
  unfolding sendConnect_def by (auto intro!: steady_intro tview_sends[THEN typed_tview])

lemma typed_attempts [steady_intro]:
  "pres typed (dialed h m tr cl)" "pres typed (connectFailed m tr tok e)"
  "pres typed (connectOk h m tr dch cres)" "pres typed (connectingReported m)"
  "pres typed (scheduleIfCurrent m cl e)" "pres typed (connectFailedClosed m tok e)"
  "pres typed (handleRefreshError gen)" "pres typed (disconnect_refresh gen c r)"
  by (auto simp: dialed_def connectFailed_def connectOk_def connectingReported_def scheduleIfCurrent_def
      connectFailedClosed_def handleRefreshError_def disconnect_refresh_def intro!: steady_intro)

lemma typed_refreshReply [steady_intro]: "pres typed (refreshReply h gen x)"
  by (auto simp: refreshReply_def intro!: steady_intro)

interpretation typed: steady typed
  by unfold_locales
    (simp_all add: typed_new presD[OF typed_subscribed] typed_moves typed_transitions typed_attempts
      typed_refreshReply)

lemma typed_reachable: "reachable w \<Longrightarrow> typed w"
  by (erule typed.steady_reachable[rotated])
    (auto simp: client_init_def initial_world_def newClient_def Let_def typed_def sub_at_def no_sub_def gm_keys_def)

end
