(* ===== verification/Following.thy ===== *)
theory Following
  imports Steady
begin

text \<open>
  Invariants that look at the goroutines: something is always under way because some task goes on with
  it. While a goroutine runs a task, the task and those that come after it are in no goroutine; such
  an invariant therefore has two arguments, the tasks in hand and the state.
\<close>

section \<open>Taking a task\<close>

lemma take_task_tasks:
  assumes "outcome (take_task i) w = Some (h, t, ts)"
  shows "tasks_of w \<subseteq> set (t # ts) \<union> tasks_of (after (take_task i) w)"
    "wview (after (take_task i) w) = wview w" "w_next (after (take_task i) w) = w_next w"
    "w_results (after (take_task i) w) = w_results w"
proof -
  obtain i': "i < length (w_threads w)" "w_threads w ! i = (h, t # ts)"
    using assms by (auto simp: take_task_def split: if_splits prod.splits list.splits)
  then have run: "after (take_task i) w = w\<lparr>w_threads := take i (w_threads w) @ drop (Suc i) (w_threads w)\<rparr>"
    by (simp add: take_task_def)
  have "w_threads w = take i (w_threads w) @ (h, t # ts) # drop (Suc i) (w_threads w)"
    using i' id_take_nth_drop[of i "w_threads w"] by simp
  then have "set (w_threads w) = insert (h, t # ts) (set (take i (w_threads w) @ drop (Suc i) (w_threads w)))"
    by (metis Un_insert_right list.simps(15) set_append)
  then show "tasks_of w \<subseteq> set (t # ts) \<union> tasks_of (after (take_task i) w)"
    unfolding run tasks_of_def by auto
  show "wview (after (take_task i) w) = wview w" "w_next (after (take_task i) w) = w_next w"
    "w_results (after (take_task i) w) = w_results w"
    unfolding run by (simp_all add: wview_def)
qed

lemma take_task_none: "outcome (take_task i) w = None \<Longrightarrow> after (take_task i) w = w"
  by (auto simp: take_task_def split: if_splits prod.splits list.splits)

lemma put_tasks_fields:
  "wview (after (put_tasks h us) w) = wview w" "w_next (after (put_tasks h us) w) = w_next w"
  "w_results (after (put_tasks h us) w) = w_results w" "w_panic (after (put_tasks h us) w) = w_panic w"
  "tasks_of (after (put_tasks h us) w) = set us \<union> tasks_of w"
  by (auto simp: put_tasks_def wview_def tasks_of_def)

section \<open>Following the tasks\<close>

text \<open>
  \<open>J us w\<close>: the invariant with the tasks \<open>us\<close> in hand. It does not matter who has a task, and nothing is
  to be shown of a client that has dereferenced a nil pointer. \<open>C\<close> is what is known of the reachable
  states otherwise.
\<close>

locale follows =
  fixes J :: "task list \<Rightarrow> world \<Rightarrow> bool" and C :: "task list \<Rightarrow> world \<Rightarrow> bool"
  assumes hand_over: "J us w \<Longrightarrow> wview w' = wview w \<Longrightarrow> w_next w' = w_next w \<Longrightarrow> w_results w' = w_results w
      \<Longrightarrow> set us \<union> tasks_of w \<subseteq> set us' \<union> tasks_of w' \<Longrightarrow> J us' w'"
    and context_known: "reachable w \<Longrightarrow> outcome (take_task i) w = Some (h, t, ts) \<Longrightarrow> C (t # ts) (after (take_task i) w)"
    and runs: "J (t # us) w \<Longrightarrow> C (t # us) w
      \<Longrightarrow> J (outcome (run_task a h t) w @ us) (after (run_task a h t) w) \<or> w_panic (after (run_task a h t) w)"
    and starts: "client_init w \<Longrightarrow> J [] w"
    and calls: "J [] w \<Longrightarrow> well_referenced w \<Longrightarrow> J [] (after (api_step b x) w)"
    and fires: "pres (J []) (fire_timer n)"
    and dispatches: "pres (J []) dispatcher_step"
begin

lemma follows_thread_step:
  assumes w: "J [] w" "reachable w"
  shows "J [] (after (thread_step a i) w) \<or> w_panic (after (thread_step a i) w)"
proof (cases "outcome (take_task i) w")
  case None
  then show ?thesis using w take_task_none[OF None] by (simp add: thread_step_def split_beta)
next
  case (Some ht)
  obtain h t ts where ht: "outcome (take_task i) w = Some (h, t, ts)" using Some by (cases ht) auto
  let ?w = "after (take_task i) w" and ?new = "outcome (run_task a h t) (after (take_task i) w)"
  have "J (t # ts) ?w" using take_task_tasks[OF ht] by (intro hand_over[OF w(1)]) auto
  then have "J (?new @ ts) (after (run_task a h t) ?w) \<or> w_panic (after (run_task a h t) ?w)"
    using context_known[OF w(2) ht] by (rule runs)
  moreover have "J [] (after (put_tasks h us) v)" if v: "J us v" for us v
    by (rule hand_over[OF v]) (simp_all add: put_tasks_fields)
  ultimately show ?thesis using ht by (auto simp: thread_step_def split_beta put_tasks_fields)
qed

lemma follows_step: "reachable w \<Longrightarrow> J [] w \<Longrightarrow> client_step w w' \<Longrightarrow> J [] w'"
proof -
  assume w: "reachable w" "J [] w" "client_step w w'"
  then obtain x where x: "w' = after (act x) w" by (auto elim!: client_stepE)
  have "\<not> w_panic w'" using reach_step[OF w(1,3)] nil_safe.invariant[of w'] by (simp add: sound_def)
  then show "J [] w'"
    using follows_thread_step[OF w(2,1)] calls[OF w(2) refs.invariant[OF w(1)]] presD[OF fires w(2)] presD[OF dispatches w(2)]
    unfolding x by (cases x) (auto simp: act_def)
qed

end

sublocale follows \<subseteq> all: safe_system client_init client_step "J []"
  by unfold_locales (auto intro: starts follows_step)

end
