(* ===== verification/Progress.thy ===== *)
theory Progress
  imports Timers Following
begin

text \<open>
  A connecting client is never stuck: whatever failed, was torn down or raced, there is always
  something that takes the current attempt further or starts the next one.
\<close>

section \<open>What takes an attempt further\<close>

text \<open>
  \<open>supports t\<close>: the attempts (\<open>Inl\<close>) a task goes on with and the requests (\<open>Inr\<close>) it watches the
  timeout of.
\<close>

definition attempt_cb :: "callback \<Rightarrow> nat set" where
  "attempt_cb cb = (case cb of CbConnect n t tok ch \<Rightarrow> {n} | _ \<Rightarrow> {})"

definition supports_connect :: "connect_task \<Rightarrow> nat set" where
  "supports_connect t = (case t of
     StartReconnectingIf ex k \<Rightarrow> (case ex of None \<Rightarrow> UNIV | Some n \<Rightarrow> {n})
   | ConnectToken n r k \<Rightarrow> {n} | CallGetToken n r k \<Rightarrow> {n} | GotConnectToken n r k tk \<Rightarrow> {n}
   | Dial n r k \<Rightarrow> {n} | ScheduleIfCurrent n k e \<Rightarrow> {n} | Dialed n tr k \<Rightarrow> {n}
   | ConnectReply n tr tok ch r \<Rightarrow> {n} | ConnectFailed n tr tok e \<Rightarrow> {n}
   | ConnectFailedClosed n tok e \<Rightarrow> {n} | ConnectOk n tr ch res \<Rightarrow> {n}
   | _ \<Rightarrow> {})"

definition supports :: "task \<Rightarrow> (nat + u32) set" where
  "supports t = (case t of
     TConnect ct \<Rightarrow> Inl ` supports_connect ct
   | TClient clt \<Rightarrow> (case clt of ConnectingReported n \<Rightarrow> {Inl n} | _ \<Rightarrow> {})
   | TCall ct \<Rightarrow> (case ct of
         RunCallback cb r \<Rightarrow> Inl ` attempt_cb cb
       | AwaitReply i \<Rightarrow> {Inr i} | AwaitReplyOn i ch \<Rightarrow> {Inr i} | _ \<Rightarrow> {})
   | _ \<Rightarrow> {})"

definition support :: "task list \<Rightarrow> world \<Rightarrow> (nat + u32) set" where
  "support us w = (\<Union>t \<in> set us \<union> tasks_of w. supports t)"

text \<open>The reconnect timer is armed.\<close>

definition retry_armed :: "world \<Rightarrow> bool" where
  "retry_armed w \<longleftrightarrow> (\<exists>m d. c_reconnect_timer (w_cl w) = Some m \<and> gm_get (w_timers w) m = Some (TmReconnect, d))"

text \<open>The connect command of attempt \<open>n\<close> is waiting for its reply, with a timeout.\<close>

definition awaiting :: "task list \<Rightarrow> nat \<Rightarrow> world \<Rightarrow> bool" where
  "awaiting us n w \<longleftrightarrow> (\<exists>i q. gm_get (c_requests (w_cl w)) i = Some q \<and> n \<in> attempt_cb (rq_cb q) \<and> Inr i \<in> support us w)"

definition motion :: "task list \<Rightarrow> world \<Rightarrow> bool" where
  "motion us w \<longleftrightarrow> (c_state (w_cl w) = StateConnecting \<longrightarrow>
     Inl (c_attempt (w_cl w)) \<in> support us w \<or> awaiting us (c_attempt (w_cl w)) w
     \<or> (\<exists>cb \<in> set (w_lost w). c_attempt (w_cl w) \<in> attempt_cb cb) \<or> retry_armed w)"

text \<open>\<open>us\<close> are the tasks of the goroutine that is running, which are in no goroutine meanwhile.\<close>

definition moving :: "task list \<Rightarrow> world \<Rightarrow> bool" where
  "moving us w \<longleftrightarrow> typed w \<and> motion us w"

lemma supports_simps [simp]:
  "supports (WaitEvent n) = {}" "supports (WaitChan n) = {}" "supports WaitQueueClosed = {}"
  "supports (TConnect ct) = Inl ` supports_connect ct" "supports (TSub st) = {}"
  "supports (TCall (RunCallback cb r)) = Inl ` attempt_cb cb"
  "supports (TCall (AwaitReply i)) = {Inr i}" "supports (TCall (AwaitReplyOn i ch)) = {Inr i}"
  "supports (TClient (ConnectingReported n)) = {Inl n}"
  by (simp_all add: supports_def)

section \<open>Frames\<close>

definition keeps_requests :: "world \<Rightarrow> world \<Rightarrow> bool" where
  "keeps_requests w w' \<longleftrightarrow> set (w_lost w) \<subseteq> set (w_lost w') \<and> (\<forall>i q. gm_get (c_requests (w_cl w)) i = Some q
     \<longrightarrow> gm_get (c_requests (w_cl w')) i = Some q \<or> rq_cb q \<in> set (w_lost w'))"

lemma keeps_requests_same [simp]:
  "c_requests (w_cl w') = c_requests (w_cl w) \<Longrightarrow> w_lost w' = w_lost w \<Longrightarrow> keeps_requests w w'"
  by (simp add: keeps_requests_def)

lemma support_mono: "set us \<subseteq> set us' \<Longrightarrow> tasks_of w \<subseteq> tasks_of w' \<Longrightarrow> support us w \<subseteq> support us' w'"
  by (auto simp: support_def)

lemma motion_frame:
  assumes "motion us w" "c_state (w_cl w') = c_state (w_cl w)" "c_attempt (w_cl w') = c_attempt (w_cl w)"
    "support us w \<subseteq> support us' w'" "keeps_requests w w'" "retry_armed w \<Longrightarrow> retry_armed w'"
  shows "motion us' w'"
  unfolding motion_def
proof
  let ?n = "c_attempt (w_cl w)"
  assume "c_state (w_cl w') = StateConnecting"
  then consider "Inl ?n \<in> support us w" | "awaiting us ?n w" | cb where "cb \<in> set (w_lost w)" "?n \<in> attempt_cb cb"
    | "retry_armed w"
    using assms(1,2) by (auto simp: motion_def)
  then show "Inl (c_attempt (w_cl w')) \<in> support us' w' \<or> awaiting us' (c_attempt (w_cl w')) w'
      \<or> (\<exists>cb \<in> set (w_lost w'). c_attempt (w_cl w') \<in> attempt_cb cb) \<or> retry_armed w'"
  proof cases
    case 2
    then obtain i q where q: "gm_get (c_requests (w_cl w)) i = Some q" "?n \<in> attempt_cb (rq_cb q)" "Inr i \<in> support us w"
      by (auto simp: awaiting_def)
    then have "gm_get (c_requests (w_cl w')) i = Some q \<or> rq_cb q \<in> set (w_lost w')"
      using assms(5) by (auto simp: keeps_requests_def)
    then show ?thesis using q assms(3,4) by (auto simp: awaiting_def)
  next
    case 3
    then have "cb \<in> set (w_lost w')" using assms(5) by (auto simp: keeps_requests_def)
    then show ?thesis using 3 assms(3) by auto
  qed (use assms in auto)
qed

lemma retry_armed_same:
  "w_timers w' = w_timers w \<Longrightarrow> c_reconnect_timer (w_cl w') = c_reconnect_timer (w_cl w) \<Longrightarrow> retry_armed w' = retry_armed w"
  by (simp add: retry_armed_def)

text \<open>A task that stops counting, and tasks that take over what another one supported.\<close>

lemma motion_drop:
  assumes "motion (t # us) w" "Inl (c_attempt (w_cl w)) \<notin> supports t" "\<And>i. Inr i \<notin> supports t"
  shows "motion us w"
proof -
  have "support (t # us) w = supports t \<union> support us w" by (simp add: support_def)
  then show ?thesis using assms by (auto simp: motion_def awaiting_def)
qed

lemma motion_replace:
  "motion (t # us) w \<Longrightarrow> supports t \<subseteq> (\<Union>t' \<in> set ts. supports t') \<Longrightarrow> motion (ts @ us) w"
  by (erule motion_frame) (auto simp: support_def)

section \<open>Operations that do not touch the attempts\<close>

lemma moving_typed: "pres typed m \<Longrightarrow> (\<And>w. moving us w \<Longrightarrow> motion us (after m w)) \<Longrightarrow> pres (moving us) m"
  by (simp add: pres_def moving_def)

lemma moving_frame:
  assumes "moving us w" "typed w'" "c_state (w_cl w') = c_state (w_cl w)" "c_attempt (w_cl w') = c_attempt (w_cl w)"
    "tasks_of w \<subseteq> tasks_of w'" "keeps_requests w w'" "retry_armed w \<Longrightarrow> retry_armed w'"
  shows "moving us w'"
  using assms motion_frame[of us w w' us] support_mono[of us us w w'] by (simp add: moving_def)

lemma moving_mods:
  "(\<And>x. s_resubscribe_timer (f x) = s_resubscribe_timer x \<or> s_resubscribe_timer (f x) = None)
    \<Longrightarrow> (\<And>x. s_refresh_timer (f x) = s_refresh_timer x \<or> s_refresh_timer (f x) = None) \<Longrightarrow> pres (moving us) (mods s f)"
  unfolding pres_def
proof (intro allI impI)
  fix w assume f: "\<And>x. s_resubscribe_timer (f x) = s_resubscribe_timer x \<or> s_resubscribe_timer (f x) = None"
    "\<And>x. s_refresh_timer (f x) = s_refresh_timer x \<or> s_refresh_timer (f x) = None" and w: "moving us w"
  have "typed (after (mods s f) w)" by (rule presD[OF typed_mods]) (use f w in \<open>simp_all add: moving_def\<close>)
  then show "moving us (after (mods s f) w)"
    by (rule moving_frame[OF w]) (simp_all add: mods_def retry_armed_def tasks_of_def)
qed

lemma moving_modc:
  assumes "\<And>c. c_state (f c) = c_state c" "\<And>c. c_attempt (f c) = c_attempt c" "\<And>c. c_requests (f c) = c_requests c"
    "\<And>c. c_reconnect_timer (f c) = c_reconnect_timer c"
    "\<And>c. c_refresh_timer (f c) = c_refresh_timer c \<or> c_refresh_timer (f c) = None"
  shows "pres (moving us) (modc f)"
proof (rule presI)
  fix w assume w: "moving us w"
  have "typed (after (modc f) w)" by (rule presD[OF typed_modc]) (use assms w in \<open>simp_all add: moving_def\<close>)
  then show "moving us (after (modc f) w)"
    by (rule moving_frame[OF w]) (simp_all add: assms modc_def retry_armed_def tasks_of_def)
qed

text \<open>Stopping a timer of another kind does not stop the reconnect timer.\<close>

lemma moving_stop:
  assumes "moving us w" "names w t P" "\<not> P TmReconnect"
  shows "moving us (after (stop_timer t) w)"
proof -
  have "retry_armed (after (stop_timer t) w)" if armed: "retry_armed w"
  proof -
    obtain m d where m: "c_reconnect_timer (w_cl w) = Some m" "gm_get (w_timers w) m = Some (TmReconnect, d)"
      using armed by (auto simp: retry_armed_def)
    then have "t \<noteq> Some m" using assms(2,3) by (auto simp: names_def)
    then show ?thesis using m by (auto simp: retry_armed_def stop_timer_def split: option.split)
  qed
  moreover have "typed (after (stop_timer t) w)" using assms(1) presD[OF typed_stop] by (simp add: moving_def)
  ultimately show ?thesis
    by (intro moving_frame[OF assms(1)]) (simp_all add: stop_timer_def tasks_of_def split: option.split)
qed

lemma moving_stops:
  "pres (moving us) (gets_of s s_resubscribe_timer \<bind> stop_timer)"
  "pres (moving us) (gets_of s s_refresh_timer \<bind> stop_timer)" "pres (moving us) (getc c_refresh_timer \<bind> stop_timer)"
proof -
  have own: "moving us w \<Longrightarrow> names w (s_resubscribe_timer (sub_at w s)) (\<lambda>tm. tm = TmResubscribe s)"
    "moving us w \<Longrightarrow> names w (s_refresh_timer (sub_at w s)) (sub_refresh_timer s)"
    "moving us w \<Longrightarrow> names w (c_refresh_timer (w_cl w)) refresh_timer" for w
    by (simp_all add: moving_def typed_def)
  have other: "\<not> TmReconnect = TmResubscribe s" "\<not> sub_refresh_timer s TmReconnect" "\<not> refresh_timer TmReconnect"
    by (simp_all add: refresh_timer_def sub_refresh_timer_def)
  show "pres (moving us) (gets_of s s_resubscribe_timer \<bind> stop_timer)"
    "pres (moving us) (gets_of s s_refresh_timer \<bind> stop_timer)" "pres (moving us) (getc c_refresh_timer \<bind> stop_timer)"
    using moving_stop[OF _ own(1) other(1)] moving_stop[OF _ own(2) other(2)] moving_stop[OF _ own(3) other(3)]
    by (simp_all add: pres_def)
qed

lemma stop_then: "(State_Monad.bind m (\<lambda>t. State_Monad.bind (stop_timer t) k)) = State_Monad.bind (m \<bind> stop_timer) k"
  by simp

lemma moving_stops_then:
  assumes "\<And>u. pres (moving us) (k u)"
  shows "pres (moving us) (gets_of s s_resubscribe_timer \<bind> (\<lambda>t. stop_timer t \<bind> k))"
    "pres (moving us) (gets_of s s_refresh_timer \<bind> (\<lambda>t. stop_timer t \<bind> k))"
    "pres (moving us) (getc c_refresh_timer \<bind> (\<lambda>t. stop_timer t \<bind> k))"
  unfolding stop_then by (intro pres_bind moving_stops assms)+

text \<open>Arming another timer.\<close>

lemma moving_arm:
  assumes "pres typed (do { n \<leftarrow> after_func d tm; f n })"
    and "\<And>n w. keeps_requests w (after (f n) w) \<and> c_state (w_cl (after (f n) w)) = c_state (w_cl w)
      \<and> c_attempt (w_cl (after (f n) w)) = c_attempt (w_cl w) \<and> w_threads (after (f n) w) = w_threads w
      \<and> w_timers (after (f n) w) = w_timers w \<and> c_reconnect_timer (w_cl (after (f n) w)) = c_reconnect_timer (w_cl w)"
  shows "pres (moving us) (do { n \<leftarrow> after_func d tm; (f n :: unit op) })"
proof (rule presI)
  fix w assume w: "moving us w"
  obtain w' where w': "w' = after (f (w_next w)) (with_timer (tm, d) w)" by blast
  have run: "after (do { n \<leftarrow> after_func d tm; f n }) w = w'" by (simp add: after_func_run w')
  note f = assms(2)[of "with_timer (tm, d) w" "w_next w", folded w']
  have ty: "typed w" using w by (simp add: moving_def)
  have "gm_get (w_timers w) m = Some x \<Longrightarrow> m \<noteq> w_next w" for m x
    using ty by (auto simp: typed_def gm_keys_get)
  then have "retry_armed w \<Longrightarrow> retry_armed w'"
    using f unfolding retry_armed_def by (auto simp: with_timer_def)
  moreover have "typed w'" using presD[OF assms(1) ty] unfolding run .
  moreover have "tasks_of w \<subseteq> tasks_of w'" "keeps_requests w w'"
    using f by (simp_all add: tasks_of_def with_timer_def keeps_requests_def)
  ultimately show "moving us (after (do { n \<leftarrow> after_func d tm; f n }) w)"
    unfolding run using f by (intro moving_frame[OF w]) simp_all
qed

lemma moving_sub_timers:
  "pres (moving us) (stop_sub_timers s)" "pres (moving us) (scheduleResubscribe s)" "pres (moving us) (arm_sub_refresh s ttl)"
proof -
  show "pres (moving us) (stop_sub_timers s)"
    unfolding stop_sub_timers_def by (intro moving_stops_then moving_stops)
  have m: "keeps_requests w (after (mods s g) w) \<and> c_state (w_cl (after (mods s g) w)) = c_state (w_cl w)
      \<and> c_attempt (w_cl (after (mods s g) w)) = c_attempt (w_cl w) \<and> w_threads (after (mods s g) w) = w_threads w
      \<and> w_timers (after (mods s g) w) = w_timers w
      \<and> c_reconnect_timer (w_cl (after (mods s g) w)) = c_reconnect_timer (w_cl w)" for g w
    by (simp add: mods_def)
  show "pres (moving us) (scheduleResubscribe s)"
    unfolding scheduleResubscribe_def
    by (intro moving_stops_then pres_bind[OF pres_gets] pres_bind[OF moving_mods] moving_arm typed_arm_sub m; simp add: sub_refresh_timer_def)
  have arm: "pres (moving us) (gets_of s s_session \<bind> (\<lambda>session.
      after_func (sub_refresh_delay ttl) (TmSubRefresh s session) \<bind> (\<lambda>n. mods s (\<lambda>x. x\<lparr>s_refresh_timer := Some n\<rparr>))))"
    by (intro pres_bind[OF pres_gets] moving_arm typed_arm_sub m; simp add: sub_refresh_timer_def)
  show "pres (moving us) (arm_sub_refresh s ttl)"
    unfolding arm_sub_refresh_def by (intro pres_bind[OF pres_gets] pres_if pres_return moving_stops_then arm)
qed

section \<open>Requests\<close>

text \<open>A write leaves the client alone; a request that is written is watched, one that is not is taken back.\<close>

definition wrote :: "world \<Rightarrow> world \<Rightarrow> bool" where
  "wrote w w' \<longleftrightarrow> w_cl w' = w_cl w \<and> w_lost w' = w_lost w \<and> w_timers w' = w_timers w \<and> tasks_of w \<subseteq> tasks_of w'"

lemma sendOn_wrote: "wrote w (after (sendOn t cmd) w)"
  by (auto simp: wrote_def sendOn_def spawn_def split_beta tasks_of_def)

lemma send_wrote: "wrote w (after (case t of Some t \<Rightarrow> sendOn t cmd | None \<Rightarrow> send cmd) w)"
  using sendOn_wrote by (auto simp: send_def split: option.split) (simp_all add: wrote_def)

lemma add_requests:
  "keeps_requests w (after (addRequest i r cb) w)"
  "gm_get (c_requests (w_cl (after (addRequest i r cb) w))) i = Some \<lparr>rq_cb = cb, rq_result = r\<rparr>"
  "gm_get (c_requests (w_cl w)) i = Some q \<Longrightarrow> rq_cb q \<in> set (w_lost (after (addRequest i r cb) w))"
  "j \<noteq> i \<Longrightarrow> gm_get (c_requests (w_cl (after (addRequest i r cb) w))) j = gm_get (c_requests (w_cl w)) j"
  by (auto simp: keeps_requests_def addRequest_def modc_def split: option.split)

lemma pop_requests:
  "j \<noteq> i \<Longrightarrow> gm_get (c_requests (w_cl (after (popRequest i) w))) j = gm_get (c_requests (w_cl w)) j"
  "outcome (popRequest i) w = gm_get (c_requests (w_cl w)) i"
  by (auto simp: popRequest_def modc_def split_beta gm.pop_del gm.pop_get)

lemma request_frame:
  "keeps (\<lambda>w. (c_state (w_cl w), c_attempt (w_cl w), w_timers w, c_reconnect_timer (w_cl w), w_threads w)) (addRequest i r cb)"
  "keeps (\<lambda>w. (c_state (w_cl w), c_attempt (w_cl w), w_timers w, c_reconnect_timer (w_cl w), w_threads w, w_lost w)) (popRequest i)"
  by (auto simp: keeps_def addRequest_def popRequest_def modc_def split_beta split: option.split)

lemma sendAsyncOn_effect:
  assumes "w' = after (sendAsyncOn t cmd cb) w"
  shows "c_state (w_cl w') = c_state (w_cl w)" "c_attempt (w_cl w') = c_attempt (w_cl w)"
    "retry_armed w' = retry_armed w" "tasks_of w \<subseteq> tasks_of w'" "keeps_requests w w'"
    "outcome (sendAsyncOn t cmd cb) w = None \<Longrightarrow> TCall (AwaitReply (cmd_id cmd)) \<in> tasks_of w'
      \<and> (\<exists>q. gm_get (c_requests (w_cl w')) (cmd_id cmd) = Some q \<and> rq_cb q = cb)"
proof -
  let ?i = "cmd_id cmd"
  obtain a where a: "a = after (addRequest ?i (replyResultOf cmd) cb) w" by blast
  obtain r b where b: "run_state (case t of Some t \<Rightarrow> sendOn t cmd | None \<Rightarrow> send cmd) a = (r, b)" by fastforce
  have w0: "(c_state (w_cl a), c_attempt (w_cl a), w_timers a, c_reconnect_timer (w_cl a), w_threads a)
      = (c_state (w_cl w), c_attempt (w_cl w), w_timers w, c_reconnect_timer (w_cl w), w_threads w)"
    unfolding a by (rule keepsD[OF request_frame(1)])
  note add = add_requests[where w = w and i = ?i and r = "replyResultOf cmd" and cb = cb, folded a]
  have ab: "wrote a b" using send_wrote[where w = a and t = t and cmd = cmd] b by simp
  have run: "run_state (sendAsyncOn t cmd cb) w = (case r of
      Some e \<Rightarrow> (case outcome (popRequest ?i) b of None \<Rightarrow> None | Some _ \<Rightarrow> Some e, after (popRequest ?i) b)
    | None \<Rightarrow> (None, after (spawn [TCall (AwaitReply ?i)]) b))"
    using b by (auto simp: sendAsyncOn_def split_beta a split: option.split)
  have kb: "keeps_requests w b" using add(1) ab by (simp add: keeps_requests_def wrote_def)
  have fields: "c_state (w_cl b) = c_state (w_cl w) \<and> c_attempt (w_cl b) = c_attempt (w_cl w)
      \<and> retry_armed b = retry_armed w \<and> tasks_of w \<subseteq> tasks_of b"
    using w0 ab by (auto simp: wrote_def retry_armed_def tasks_of_def)
  have all: "c_state (w_cl w') = c_state (w_cl w) \<and> c_attempt (w_cl w') = c_attempt (w_cl w)
      \<and> retry_armed w' = retry_armed w \<and> tasks_of w \<subseteq> tasks_of w' \<and> keeps_requests w w'
      \<and> (outcome (sendAsyncOn t cmd cb) w = None \<longrightarrow> TCall (AwaitReply ?i) \<in> tasks_of w'
        \<and> (\<exists>q. gm_get (c_requests (w_cl w')) ?i = Some q \<and> rq_cb q = cb))"
  proof (cases r)
    case None
    then have w': "w' = after (spawn [TCall (AwaitReply ?i)]) b" using run assms by simp
    have "gm_get (c_requests (w_cl w')) ?i = Some \<lparr>rq_cb = cb, rq_result = replyResultOf cmd\<rparr>"
      using add(2) ab by (simp add: w' spawn_def wrote_def)
    moreover have "keeps_requests w w'" using kb by (simp add: w' spawn_def keeps_requests_def)
    moreover have "tasks_of b \<subseteq> tasks_of w'" "TCall (AwaitReply ?i) \<in> tasks_of w'" "w_cl w' = w_cl b" "w_timers w' = w_timers b"
      by (auto simp: w' spawn_def tasks_of_def)
    ultimately show ?thesis
      using fields by (auto simp: retry_armed_def)
  next
    case (Some e)
    then have w': "w' = after (popRequest ?i) b" using run assms by simp
    have got: "gm_get (c_requests (w_cl b)) ?i \<noteq> None" using add(2) ab by (simp add: wrote_def)
    have pf: "(c_state (w_cl w'), c_attempt (w_cl w'), w_timers w', c_reconnect_timer (w_cl w'), w_threads w', w_lost w')
      = (c_state (w_cl b), c_attempt (w_cl b), w_timers b, c_reconnect_timer (w_cl b), w_threads b, w_lost b)"
      unfolding w' by (rule keepsD[OF request_frame(2)])
    have "rq_cb q \<in> set (w_lost w') \<or> gm_get (c_requests (w_cl w')) j = Some q" if "gm_get (c_requests (w_cl w)) j = Some q" for j q
      using add(3)[where q = q] add(4)[where j = j] pop_requests(1)[of j ?i b] that ab pf by (cases "j = ?i") (auto simp: w' wrote_def)
    moreover have "set (w_lost w) \<subseteq> set (w_lost w')" using kb pf by (simp add: keeps_requests_def)
    ultimately have "keeps_requests w w'" by (auto simp: keeps_requests_def)
    moreover have "outcome (sendAsyncOn t cmd cb) w \<noteq> None" using run Some got by (simp add: pop_requests split: option.split)
    ultimately show ?thesis
      using fields pf by (auto simp: retry_armed_def tasks_of_def)
  qed
  show "c_state (w_cl w') = c_state (w_cl w)" "c_attempt (w_cl w') = c_attempt (w_cl w)"
    "retry_armed w' = retry_armed w" "tasks_of w \<subseteq> tasks_of w'" "keeps_requests w w'"
    "outcome (sendAsyncOn t cmd cb) w = None \<Longrightarrow> TCall (AwaitReply ?i) \<in> tasks_of w'
      \<and> (\<exists>q. gm_get (c_requests (w_cl w')) ?i = Some q \<and> rq_cb q = cb)"
    using all by blast+
qed

lemma moving_sendAsyncOn: "pres (moving us) (sendAsyncOn t cmd cb)"
proof (rule presI)
  fix w assume w: "moving us w"
  have "typed (after (sendAsyncOn t cmd cb) w)"
    using w presD[OF typed_tview[OF tview_sends(2)]] by (simp add: moving_def)
  then show "moving us (after (sendAsyncOn t cmd cb) w)"
    using sendAsyncOn_effect[OF refl] by (intro moving_frame[OF w]) simp_all
qed

lemma moving_onConnect: "pres (moving us) (onConnect k oper)"
proof (rule presI)
  fix w assume w: "moving us w"
  have "typed (after (onConnect k oper) w)"
    using w presD[OF typed_tview[OF tview_ops(4)]] by (simp add: moving_def)
  then show "moving us (after (onConnect k oper) w)"
    by (intro moving_frame[OF w])
       (auto simp: onConnect_def nextFutureID_def modc_def spawn_def split_beta retry_armed_def tasks_of_def
          keeps_requests_def split: cstate.split)
qed

interpretation moving: steady_core "moving us" for us
proof
  show "moving us (w\<lparr>w_cl := c\<rparr>)" if w: "moving us w" and c: "cview c = cview (w_cl w)" for us w c
  proof (rule moving_frame[OF w])
    show "typed (w\<lparr>w_cl := c\<rparr>)" using typed.I_client w c by (simp add: moving_def)
  qed (use c in \<open>simp_all add: cview_def tasks_of_def retry_armed_def\<close>)
  show "moving us (w\<lparr>w_heap := gm_put s x (w_heap w)\<rparr>)" if w: "moving us w" and x: "sfull x = sfull (sub_at w s)" for us w s x
  proof (rule moving_frame[OF w])
    show "typed (w\<lparr>w_heap := gm_put s x (w_heap w)\<rparr>)" using typed.I_sub w x by (simp add: moving_def)
  qed (simp_all add: tasks_of_def retry_armed_def)
  show "moving us w'" if w: "moving us w" and g: "grows w w'" for us w w'
  proof (rule moving_frame[OF w])
    show "typed w'" using typed.I_rest[OF _ g] w by (simp add: moving_def)
  qed (use g in \<open>simp_all add: grow_defs retry_armed_def keeps_requests_def\<close>)
  show "moving us (w\<lparr>w_wire := w_wire w @ [(t, cmd)]\<rparr>)" if w: "moving us w" "c_transport (w_cl w) = Some t" for us w t cmd
    by (rule moving_frame[OF w(1)])
       (use w typed.I_write in \<open>simp_all add: moving_def tasks_of_def retry_armed_def\<close>)
  show "moving us (w\<lparr>w_cl := (w_cl w)\<lparr>c_futures := f\<rparr>\<rparr>)" if w: "moving us w" for us w f
    by (rule moving_frame[OF w], rule typed_frame[of w])
       (use w in \<open>simp_all add: moving_def tasks_of_def retry_armed_def\<close>)
  then show "moving us (w\<lparr>w_cl := (w_cl w)\<lparr>c_futures := []\<rparr>\<rparr>)" if w: "moving us w" for us w using that .
  show "pres (moving us) (sendAsync cmd cb)" for us cmd cb unfolding sendAsync_def by (rule moving_sendAsyncOn)
qed (simp_all add: moving_sub_timers moving_onConnect)

declare moving.steady_modc [steady_intro del] moving.steady_mods [steady_intro del]

lemmas moving_intro [steady_intro] = moving_sub_timers(1) moving_modc moving_mods moving_stops_then moving_stops

section \<open>Moves of subscriptions and the end of a connection\<close>

lemma moving_new: "\<not> sub_exists w (w_next_sid w) \<Longrightarrow> moving us w \<Longrightarrow> moving us (after (NewSubscription ch cfg) w)"
proof -
  assume new: "\<not> sub_exists w (w_next_sid w)" and w: "moving us w"
  have "typed (after (NewSubscription ch cfg) w)" using new w by (simp add: moving_def typed_new)
  then show ?thesis
    by (rule moving_frame[OF w])
       (auto simp: NewSubscription_def modc_def split_beta tasks_of_def retry_armed_def keeps_requests_def)
qed

lemma moving_moves [steady_intro]:
  "pres (moving us) (updateSubscriptionPushID s' x y)"
  "pres (moving us) (moveToUnsubscribedLocked s' c r e)" "pres (moving us) (moveToSubscribingLocked s' c r)"
  "pres (moving us) (subscribeStart s' k)" "pres (moving us) (invalidateState s')"
  "pres (moving us) (enterSubscribed h s' res pubs ds)" "pres (moving us) (removeEntry s' k)"
  by (auto simp: updateSubscriptionPushID_def moveToUnsubscribedLocked_def moveToSubscribingLocked_def
      subscribeStart_def invalidateState_def enterSubscribed_def removeEntry_def intro!: steady_intro split: if_splits)

lemma moving_subscribed [steady_intro]: "pres (moving us) (moveToSubscribed h s' res g a')"
  by (auto simp: moveToSubscribed_def intro!: steady_intro)

lemma moving_refresh [steady_intro]: "pres (moving us) (scheduleRefreshLocked d)"
proof -
  have m: "keeps_requests w (after (modc g) w) \<and> c_state (w_cl (after (modc g) w)) = c_state (w_cl w)
      \<and> c_attempt (w_cl (after (modc g) w)) = c_attempt (w_cl w) \<and> w_threads (after (modc g) w) = w_threads w
      \<and> w_timers (after (modc g) w) = w_timers w
      \<and> c_reconnect_timer (w_cl (after (modc g) w)) = c_reconnect_timer (w_cl w)"
    if "\<And>c. c_requests (g c) = c_requests c \<and> c_state (g c) = c_state c \<and> c_attempt (g c) = c_attempt c
        \<and> c_reconnect_timer (g c) = c_reconnect_timer c" for g w
    using that by (simp add: modc_def)
  show ?thesis
    unfolding scheduleRefreshLocked_def
    by (intro moving_stops_then pres_bind[OF pres_gets] moving_arm typed_arm_client m; simp add: refresh_timer_def)
qed

text \<open>A client that is not connecting any more has nothing to show.\<close>

lemma moving_elsewhere: "typed w \<Longrightarrow> c_state (w_cl w) \<noteq> StateConnecting \<Longrightarrow> moving us w"
  by (simp add: moving_def motion_def)

lemma moving_disconnect [steady_intro]: "pres (moving us) (moveToDisconnectedIf current c r)"
proof (rule presI)
  fix w assume w: "moving us w"
  then have ty: "typed (after (moveToDisconnectedIf current c r) w)"
    by (intro presD[OF typed_transitions(1)]) (simp add: moving_def)
  have "c_state (w_cl (after (disconnect_now c r) w)) = StateDisconnected"
    using does_disconnect[of c r] by (simp add: conn_does_def conn_def split_beta)
  then have "after (moveToDisconnectedIf current c r) w = w
      \<or> c_state (w_cl (after (moveToDisconnectedIf current c r) w)) = StateDisconnected"
    by (simp add: moveToDisconnectedIf_def split_beta)
  then show "moving us (after (moveToDisconnectedIf current c r) w)"
    using w moving_elsewhere[OF ty] by auto
qed

lemma moving_close [steady_intro]: "pres (moving us) (closeCall k)"
proof (rule presI)
  fix w assume w: "moving us w"
  then have ty: "typed (after (closeCall k) w)" by (intro presD[OF typed_transitions(3)]) (simp add: moving_def)
  have "c_state (w_cl (after close_now w)) = StateClosed"
    using does_close by (simp add: conn_does_def conn_def split_beta)
  then have "c_state (w_cl (after (closeCall k) w)) = StateClosed"
    by (simp add: closeCall_def return_to_def split_beta)
  then show "moving us (after (closeCall k) w)" using moving_elsewhere[OF ty] by simp
qed

lemma moving_refreshing [steady_intro]:
  "pres (moving us) (handleRefreshError gen)" "pres (moving us) (disconnect_refresh gen c r)"
  by (auto simp: handleRefreshError_def disconnect_refresh_def intro!: steady_intro)

lemma moving_refreshReply [steady_intro]: "pres (moving us) (refreshReply h gen x)"
  by (auto simp: refreshReply_def intro!: steady_intro)

interpretation moving: steady_turns "moving us" for us
  by unfold_locales
    (simp_all add: moving_new presD[OF moving_subscribed] moving_moves moving_disconnect moving_close
      moving_refreshing moving_refreshReply)

section \<open>Moves of an attempt\<close>

text \<open>
  \<open>hands us t m\<close>: \<open>m\<close>, run as task \<open>t\<close> of a goroutine that has \<open>us\<close> to run after it, leaves the client
  moving, with the tasks it returns in the place of \<open>t\<close>; or a nil pointer was dereferenced.
\<close>

definition passes :: "task \<Rightarrow> task list op \<Rightarrow> bool" where
  "passes t m \<longleftrightarrow> (\<forall>us w. moving (t # us) w \<longrightarrow> moving (outcome m w @ us) (after m w) \<or> w_panic (after m w))"

lemma passesI: "(\<And>us w. moving (t # us) w \<Longrightarrow> moving (outcome m w @ us) (after m w)) \<Longrightarrow> passes t m"
  by (simp add: passes_def)

lemma moving_replace: "moving (t # us) w \<Longrightarrow> supports t \<subseteq> (\<Union>t' \<in> set ts. supports t') \<Longrightarrow> moving (ts @ us) w"
  using motion_replace by (auto simp: moving_def)

lemma moving_replace1:
  assumes "moving (t # us) w" "supports t = {x}" "\<exists>t' \<in> set ts. x \<in> supports t'"
  shows "moving (ts @ us) w"
proof -
  have "{x} \<subseteq> (\<Union>t' \<in> set ts. supports t')" using assms(3) by simp
  then show ?thesis using moving_replace[OF assms(1), of ts] assms(2) by simp
qed

lemma moving_drop:
  assumes "moving (t # us) w" "Inl (c_attempt (w_cl w)) \<notin> supports t \<or> c_state (w_cl w) \<noteq> StateConnecting"
    "\<And>i. Inr i \<notin> supports t"
  shows "moving us w"
proof (cases "c_state (w_cl w) = StateConnecting")
  case True
  then show ?thesis using assms motion_drop[of t us w] by (simp add: moving_def)
next
  case False
  then show ?thesis using assms(1) by (simp add: moving_def motion_def)
qed

lemma moving_more: "moving us w \<Longrightarrow> moving (ts @ us) w"
proof -
  assume w: "moving us w"
  then have "motion (ts @ us) w"
    unfolding moving_def by (intro motion_frame[of us w w "ts @ us"]) (auto simp: support_def)
  then show ?thesis using w by (simp add: moving_def)
qed

text \<open>An operation of the first kind that hands its task on.\<close>

lemma passes_steady:
  assumes "\<And>us. pres (moving us) m" "\<And>w. supports t \<subseteq> (\<Union>t' \<in> set (outcome m w). supports t')"
  shows "passes t m"
  by (intro passesI moving_replace[OF presD[OF assms(1)] assms(2)])

text \<open>Anything that schedules a reconnect will do.\<close>

lemma schedule_arms: "retry_armed (after scheduleReconnectLocked w)"
  by (simp add: scheduleReconnectLocked_def after_func_run modc_def split_beta retry_armed_def with_timer_def)

lemma armed_moves: "typed w \<Longrightarrow> retry_armed w \<Longrightarrow> moving us w"
  by (simp add: moving_def motion_def)

lemma current_run: "outcome (isCurrentAttemptLocked n) w \<longleftrightarrow> c_state (w_cl w) = StateConnecting \<and> c_attempt (w_cl w) = n"
  "after (isCurrentAttemptLocked n) w = w"
  by (simp_all add: isCurrentAttemptLocked_def)

lemma not_current: "\<not> outcome (isCurrentAttemptLocked n) w \<Longrightarrow> supports t = {Inl n} \<Longrightarrow> moving (t # us) w \<Longrightarrow> moving us w"
  by (erule moving_drop) (auto simp: current_run(1))

lemma moving_by_task:
  "typed w \<Longrightarrow> Inl (c_attempt (w_cl w)) \<in> (\<Union>t \<in> set ts. supports t) \<Longrightarrow> moving (ts @ us) w"
  by (auto simp: moving_def motion_def support_def)

lemma moving_has_typed: "moving us w \<Longrightarrow> typed w"
  by (simp add: moving_def)

lemma schedule_moves: "moving vs w \<Longrightarrow> moving us (after scheduleReconnectLocked w)"
  by (rule armed_moves[OF presD[OF typed_schedules(1)] schedule_arms]) (rule moving_has_typed)

lemma attempt_keeps: "keeps conn m \<Longrightarrow> c_attempt (w_cl (after m w)) = c_attempt (w_cl w)"
  "keeps conn m \<Longrightarrow> c_state (w_cl (after m w)) = c_state (w_cl w)"
  by (auto simp: keeps_def conn_def)

lemma done_run: "outcome (do { m; ret [] }) w = []" "after (do { m; ret [] }) w = after m w"
  by (simp_all add: split_beta)

lemmas moving_return_to = presD[OF moving.steady_effects(7)]
lemmas moving_close_transport = presD[OF moving.steady_effects(6)]

lemma passes_startConnecting: "passes (TConnect (StartConnecting k)) (startConnecting h k)"
proof (rule passesI)
  fix us w assume t: "moving (TConnect (StartConnecting k) # us) w"
  then have w: "moving us w" by (rule moving_drop) (auto simp: supports_connect_def)
  have ty: "typed (after (startConnecting h k) w)"
    using w by (intro presD[OF typed_transitions(4)] moving_has_typed)
  show "moving (outcome (startConnecting h k) w @ us) (after (startConnecting h k) w)"
  proof (cases "c_state (w_cl w) = StateDisconnected")
    case True
    obtain w1 where w1: "w1 = after (when_do (c_close_ch (w_cl w) = None) (do {
         n \<leftarrow> fresh; modc (\<lambda>c. c\<lparr>c_close_ch := Some n\<rparr>) })) w" by blast
    let ?w2 = "after (setStateLocked StateConnecting) w1"
    let ?q = "queue_if (c_events (w_cl ?w2) HConnecting) (JEvents [EvConnecting connectingConnectCalled ''connect called''])"
    have run: "run_state (startConnecting h k) w = (waitEvent h (outcome ?q ?w2)
        @ [TConnect (StartReconnectingIf (Some (c_attempt (w_cl ?w2))) k)], after ?q ?w2)"
      using True by (simp add: startConnecting_def split_beta w1)
    have "c_attempt (w_cl (after ?q ?w2)) = c_attempt (w_cl ?w2)"
      by (rule attempt_keeps) (rule conn_queue_if)
    then show ?thesis using ty unfolding run by (intro moving_by_task) (simp_all add: supports_connect_def)
  next
    case False
    then have "run_state (startConnecting h k) w = ([], after (return_to k (if c_state (w_cl w) = StateClosed
        then Some (Sentinel ErrClientClosed) else None)) w)"
      by (cases "c_state (w_cl w)") (simp_all add: startConnecting_def split_beta)
    then show ?thesis using moving_return_to[OF w] by simp
  qed
qed

lemma passes_startReconnectingIf: "passes (TConnect (StartReconnectingIf ex k)) (startReconnectingIf ex k)"
proof (rule passesI)
  fix us w assume t: "moving (TConnect (StartReconnectingIf ex k) # us) w"
  have ty: "typed (after (startReconnectingIf ex k) w)"
    using t by (intro presD[OF typed_transitions(5)] moving_has_typed)
  let ?w1 = "after (modc (\<lambda>c. c\<lparr>c_round := Suc (c_round c)\<rparr>)) w"
  have w1: "moving (TConnect (StartReconnectingIf ex k) # us) ?w1"
    by (rule presD[OF moving_modc t]) simp_all
  show "moving (outcome (startReconnectingIf ex k) w @ us) (after (startReconnectingIf ex k) w)"
  proof (cases "c_state (w_cl ?w1) \<noteq> StateConnecting \<or> (case ex of None \<Rightarrow> False | Some e \<Rightarrow> c_attempt (w_cl ?w1) \<noteq> e)")
    case True
    have run: "run_state (startReconnectingIf ex k) w = ([], after (return_to k None) ?w1)"
      using True by (cases ex) (simp_all add: startReconnectingIf_def split_beta)
    have "moving us ?w1"
      using w1 by (rule moving_drop) (use True in \<open>auto simp: supports_connect_def split: option.splits\<close>)
    then show ?thesis unfolding run using moving_return_to by simp
  next
    case False
    let ?w2 = "after (modc (\<lambda>c. c\<lparr>c_attempt := Suc (c_attempt c)\<rparr>)) ?w1"
    have run: "run_state (startReconnectingIf ex k) w = ([TConnect (ConnectToken (c_attempt (w_cl ?w2)) (c_round (w_cl ?w1)) k)],
        after drop_transport ?w2)"
      using False by (cases ex) (simp_all add: startReconnectingIf_def split_beta)
    have "c_attempt (w_cl (after drop_transport ?w2)) = c_attempt (w_cl ?w2)"
      using does_drop_transport by (auto simp: conn_does_def conn_def)
    then show ?thesis using ty unfolding run by (intro moving_by_task) (simp_all add: supports_connect_def)
  qed
qed

lemma passes_scheduleIfCurrent: "passes (TConnect (ScheduleIfCurrent n k e)) (do { scheduleIfCurrent n k e; ret [] })"
proof (rule passesI)
  fix us w assume t: "moving (TConnect (ScheduleIfCurrent n k e) # us) w"
  have run: "after (scheduleIfCurrent n k e) w = (if outcome (isCurrentAttemptLocked n) w
      then after (return_to k (Some e)) (after scheduleReconnectLocked w) else after (return_to k None) w)"
    by (simp add: scheduleIfCurrent_def split_beta current_run)
  have "moving us (after (scheduleIfCurrent n k e) w)"
  proof (cases "outcome (isCurrentAttemptLocked n) w")
    case True
    have "moving us (after scheduleReconnectLocked w)" using t by (rule schedule_moves)
    then show ?thesis unfolding run using True moving_return_to by simp
  next
    case False
    then have "moving us w" by (rule not_current[OF _ _ t]) (simp add: supports_connect_def)
    then show ?thesis unfolding run using False moving_return_to by simp
  qed
  then show "moving (outcome (do { scheduleIfCurrent n k e; ret [] }) w @ us) (after (do { scheduleIfCurrent n k e; ret [] }) w)"
    unfolding done_run by simp
qed

lemma passes_connectingReported: "passes (TClient (ConnectingReported n)) (do { connectingReported n; ret [] })"
proof (rule passesI)
  fix us w assume t: "moving (TClient (ConnectingReported n) # us) w"
  have run: "after (connectingReported n) w = (if outcome (isCurrentAttemptLocked n) w then after scheduleReconnectLocked w else w)"
    by (simp add: connectingReported_def split_beta current_run)
  have "moving us (after scheduleReconnectLocked w)" using t by (rule schedule_moves)
  moreover have "moving us w" if "\<not> outcome (isCurrentAttemptLocked n) w"
    by (rule not_current[OF that _ t]) simp
  ultimately show "moving (outcome (do { connectingReported n; ret [] }) w @ us) (after (do { connectingReported n; ret [] }) w)"
    unfolding done_run run by simp
qed

lemma passes_connectFailed: "passes (TConnect (ConnectFailed n tr tok e)) (connectFailed n tr tok e)"
proof (rule passesI)
  fix us w assume t: "moving (TConnect (ConnectFailed n tr tok e) # us) w"
  have ty: "typed (after (connectFailed n tr tok e) w)"
    by (rule presD[OF typed_attempts(2) moving_has_typed[OF t]])
  show "moving (outcome (connectFailed n tr tok e) w @ us) (after (connectFailed n tr tok e) w)"
  proof (cases "outcome (isCurrentAttemptLocked n) w")
    case True
    then have run: "run_state (connectFailed n tr tok e) w = ([TConnect (ConnectFailedClosed n tok e)],
        after (close_transport tr) (after (setTransportLocked None) w))"
      by (simp add: connectFailed_def split_beta current_run)
    have "c_attempt (w_cl (after (close_transport tr) (after (setTransportLocked None) w))) = n"
      using True by (simp add: close_transport_def setTransportLocked_def modc_def current_run)
    then show ?thesis using ty unfolding run by (intro moving_by_task) (simp_all add: supports_connect_def)
  next
    case False
    then have "moving us w" by (rule not_current[OF _ _ t]) (simp add: supports_connect_def)
    then show ?thesis using False moving_close_transport by (simp add: connectFailed_def split_beta current_run)
  qed
qed

lemma passes_connectFailedClosed:
  "passes (TConnect (ConnectFailedClosed n tok e)) (do { connectFailedClosed n tok e; ret [] })"
proof (rule passesI)
  fix us w assume t: "moving (TConnect (ConnectFailedClosed n tok e) # us) w"
  have late: "moving us w" if "\<not> outcome (isCurrentAttemptLocked n) w"
    by (rule not_current[OF that _ t]) (simp add: supports_connect_def)
  have sched: "moving us (after scheduleReconnectLocked w)" using t by (rule schedule_moves)
  let ?w1 = "after (modc (\<lambda>c. c\<lparr>c_refresh_required := True\<rparr>)) w"
  have w1: "moving (TConnect (ConnectFailedClosed n tok e) # us) ?w1" by (rule presD[OF moving_modc t]) simp_all
  have expired: "moving us (after (connectFailedClosed n tok e) w)" if "isTokenExpiredError e"
    using that late sched schedule_moves[OF w1]
    by (auto simp: connectFailedClosed_def split_beta current_run)
  have fatal: "moving us (after (connectFailedClosed n tok e) w)"
    if x: "\<not> isTokenExpiredError e" "isServerError e \<and> \<not> isTemporaryError e" "errors_as e = Some x" for x
  proof (cases "outcome (isCurrentAttemptLocked n) w")
    case True
    let ?d = "moveToDisconnectedIf (\<lambda>c. c_state c = StateConnecting \<and> c_attempt c = n) (e_code x) (e_message x)"
    have "c_state (w_cl (after (disconnect_now c r) w)) = StateDisconnected" for c r
      using does_disconnect[of c r] by (simp add: conn_does_def conn_def split_beta)
    then have "c_state (w_cl (after ?d w)) = StateDisconnected"
      using True by (simp add: moveToDisconnectedIf_def split_beta current_run)
    moreover have "typed (after ?d w)" by (rule presD[OF typed_transitions(1) moving_has_typed[OF t]])
    moreover have "after (connectFailedClosed n tok e) w = after ?d w"
      using x by (simp add: connectFailedClosed_def split_beta)
    ultimately show ?thesis using moving_elsewhere[of "after ?d w" us] by simp
  next
    case False
    have "after (connectFailedClosed n tok e) w = w"
      using x False by (auto simp: connectFailedClosed_def split_beta moveToDisconnectedIf_def current_run)
    then show ?thesis using late[OF False] by simp
  qed
  have server: "isServerError e \<Longrightarrow> \<exists>x. errors_as e = Some x" by (cases e) (simp_all add: isServerError_def)
  have retry: "moving us (after (connectFailedClosed n tok e) w)"
    if "\<not> isTokenExpiredError e" "\<not> (isServerError e \<and> \<not> isTemporaryError e)"
    using that late sched by (auto simp: connectFailedClosed_def split_beta current_run)
  have "moving us (after (connectFailedClosed n tok e) w)"
    using expired fatal retry server by blast
  then show "moving (outcome (do { connectFailedClosed n tok e; ret [] }) w @ us) (after (do { connectFailedClosed n tok e; ret [] }) w)"
    unfolding done_run by simp
qed

lemma passes_connectOk: "passes (TConnect (ConnectOk n tr ch res)) (connectOk h n tr ch res)"
proof (rule passesI)
  fix us w assume t: "moving (TConnect (ConnectOk n tr ch res) # us) w"
  have ty: "typed (after (connectOk h n tr ch res) w)"
    by (rule presD[OF typed_attempts(3) moving_has_typed[OF t]])
  show "moving (outcome (connectOk h n tr ch res) w @ us) (after (connectOk h n tr ch res) w)"
  proof (cases "outcome (isCurrentAttemptLocked n) w")
    case True
    have "conn_does (do { setStateLocked StateConnected;
         when_do (cr_expires res) (scheduleRefreshLocked (ttl_duration (cr_ttl res)));
         resolveConnectFutures None;
         ev \<leftarrow> getc c_events;
         d \<leftarrow> queue_if (ev HConnected) (JEvents [EvConnected (cr_client res) (cr_version res) (cr_data res)]);
         ret (waitEvent h d @ [TConnect (ConnectSubs n tr ch res (cr_subs res))]) })
        (\<lambda>(_, _, t, a, g). (StateConnected, StateConnected = StateConnected, t, a, g))"
      by (rule does_before_keeps[OF does_setState]) (auto intro!: keeps_intro)
    then have "c_state (w_cl (after (connectOk h n tr ch res) w)) = StateConnected"
      using True unfolding conn_does_def connectOk_def after_bind by (simp add: conn_def current_run split_beta)
    then show ?thesis using moving_elsewhere[OF ty] by simp
  next
    case False
    then have "moving us w" by (rule not_current[OF _ _ t]) (simp add: supports_connect_def)
    then show ?thesis using False moving_close_transport by (simp add: connectOk_def split_beta current_run)
  qed
qed

text \<open>A connect command that was written is waited for.\<close>

lemma sendConnect_awaits:
  assumes "typed w" "c_attempt (w_cl w) = n" "outcome (sendConnect t (CbConnect n t' tok ch)) w = None"
  shows "moving us (after (sendConnect t (CbConnect n t' tok ch)) w)"
proof -
  let ?cb = "CbConnect n t' tok ch"
  obtain i w1 where i: "run_state nextCmdID w = (i, w1)" by fastforce
  let ?cmd = "(new_command i)\<lparr>cmd_connect := Some (connect_request (w_cl w1))\<rparr>"
  obtain w2 where w2: "w2 = after (sendAsyncOn (Some t) ?cmd ?cb) w1" by blast
  have run: "run_state (sendConnect t ?cb) w = (outcome (sendAsyncOn (Some t) ?cmd ?cb) w1, w2)"
    using i by (simp add: sendConnect_def w2)
  have "c_attempt (w_cl w1) = n" using i assms(2) by (auto simp: nextCmdID_def modc_def)
  then have at: "c_attempt (w_cl w2) = n" using sendAsyncOn_effect(2)[OF w2] by simp
  have "awaiting us n w2"
    using sendAsyncOn_effect(6)[OF w2] assms(3) run unfolding awaiting_def support_def by (force simp: attempt_cb_def)
  moreover have "typed w2" using presD[OF typed_sendConnect assms(1), of t ?cb] run by simp
  ultimately show ?thesis unfolding run using at by (simp add: moving_def motion_def)
qed

lemma passes_dialed: "passes (TConnect (Dialed n t k)) (dialed h n t k)"
proof (rule passesI)
  fix us w assume t: "moving (TConnect (Dialed n t k) # us) w"
  have ty: "typed w" using t by (rule moving_has_typed)
  show "moving (outcome (dialed h n t k) w @ us) (after (dialed h n t k) w)"
  proof (cases "outcome (isCurrentAttemptLocked n) w")
    case True
    define pre where "pre = do {
       modc (\<lambda>c. c\<lparr>c_refresh_required := False\<rparr>);
       token \<leftarrow> getc c_token;
       ch \<leftarrow> fresh;
       modc (\<lambda>c. c\<lparr>c_disconnected_ch := Some ch\<rparr>);
       spawn [TClient (Reader t ch)];
       ret (token, ch) }"
    define post where "post = (\<lambda>err. case err of
          Some e \<Rightarrow> do {
            close_transport t;
            scheduleReconnectLocked;
            ts \<leftarrow> handleError h (ConnectError e);
            ret (ts @ [TClient (ReturnErr k (Some e))]) }
        | None \<Rightarrow> do {
            setTransportLocked (Some t);
            return_to k None;
            ret [] })"
    obtain tok ch w1 where pre: "run_state pre w = ((tok, ch), w1)" by (metis prod.exhaust)
    obtain r w2 where sent: "run_state (sendConnect t (CbConnect n t tok ch)) w1 = (r, w2)" by fastforce
    have run: "run_state (dialed h n t k) w = run_state (post r) w2"
      using True pre sent unfolding pre_def post_def by (auto simp: dialed_def split_beta current_run)
    have "pres typed pre" unfolding pre_def by (auto intro!: steady_intro)
    from presD[OF this ty] have ty1: "typed w1" using pre by simp
    have "c_attempt (w_cl w1) = c_attempt (w_cl w)"
      using pre by (auto simp: pre_def fresh_def modc_def spawn_def)
    then have at: "c_attempt (w_cl w1) = n" using True by (simp add: current_run)
    show ?thesis
    proof (cases r)
      case None
      have "moving us w2" using sendConnect_awaits[OF ty1 at, of t t tok ch us] sent None by simp
      then have "moving us (after (setTransportLocked (Some t)) w2)"
        unfolding setTransportLocked_def by (rule presD[OF moving_modc, rotated -1]) simp_all
      then show ?thesis unfolding run post_def using None moving_return_to by (simp add: split_beta)
    next
      case (Some e)
      have "typed w2" using presD[OF typed_sendConnect ty1] sent by (metis snd_conv)
      then have "typed (after (close_transport t) w2)" by (rule presD[OF typed.steady_effects(6)])
      then have "moving us (after scheduleReconnectLocked (after (close_transport t) w2))"
        by (rule armed_moves[OF presD[OF typed_schedules(1)] schedule_arms])
      then have "moving us (after (handleError h (ConnectError e)) (after scheduleReconnectLocked (after (close_transport t) w2)))"
        by (rule presD[OF moving.steady_errors(1)])
      from moving_more[OF moving_more[OF this, of "[TClient (ReturnErr k (Some e))]"]]
      show ?thesis unfolding run post_def using Some by (simp add: split_beta)
    qed
  next
    case False
    then have "moving us w" by (rule not_current[OF _ _ t]) (simp add: supports_connect_def)
    then show ?thesis using False moving_close_transport moving_return_to by (simp add: dialed_def split_beta current_run)
  qed
qed

lemma passes_moveToConnectingFrom: "passes (TClient (MoveToConnectingFrom tr c r)) (moveToConnectingFrom h tr c r)"
proof (rule passesI)
  fix us w assume t: "moving (TClient (MoveToConnectingFrom tr c r) # us) w"
  then have w: "moving us w" by (rule moving_drop) (simp_all add: supports_def)
  have retry: "moving us (after (retry_connecting x) w)" for x
  proof -
    obtain w1 where w1: "w1 = after (do { modc (\<lambda>c. c\<lparr>c_attempt := Suc (c_attempt c)\<rparr>); setTransportLocked None;
        close_transport x; clearConnectedState }) w" by blast
    have "pres typed (do { modc (\<lambda>c. c\<lparr>c_attempt := Suc (c_attempt c)\<rparr>); setTransportLocked None;
        close_transport x; clearConnectedState })" by (auto intro!: steady_intro)
    from presD[OF this moving_has_typed[OF w]] have "typed w1" by (simp add: w1)
    then have "moving us (after scheduleReconnectLocked w1)"
      by (rule armed_moves[OF presD[OF typed_schedules(1)] schedule_arms])
    moreover have "after (retry_connecting x) w = after scheduleReconnectLocked w1"
      by (simp add: retry_connecting_def w1 split_beta)
    ultimately show ?thesis by simp
  qed
  have again: "moving (outcome (reconnect_now h c r) w @ us) (after (reconnect_now h c r) w)"
  proof (rule moving_by_task)
    show "typed (after (reconnect_now h c r) w)" by (rule presD[OF typed_client(2) moving_has_typed[OF w]])
    let ?w2 = "after (setStateLocked StateConnecting) (after drop_transport w)"
    have "TClient (ConnectingReported (c_attempt (w_cl ?w2))) \<in> set (outcome (reconnect_now h c r) w)"
      by (simp add: reconnect_now_def split_beta)
    moreover have "c_attempt (w_cl ?w2) = c_attempt (w_cl w)"
      using does_drop_transport does_setState[of StateConnecting] by (simp add: conn_does_def conn_def split_beta)
    moreover have "c_attempt (w_cl (after (reconnect_now h c r) w)) = c_attempt (w_cl w)"
      using does_reconnect[of h c r] by (simp add: conn_does_def conn_def split_beta)
    ultimately show "Inl (c_attempt (w_cl (after (reconnect_now h c r) w))) \<in> (\<Union>t' \<in> set (outcome (reconnect_now h c r) w). supports t')"
      by force
  qed
  show "moving (outcome (moveToConnectingFrom h tr c r) w @ us) (after (moveToConnectingFrom h tr c r) w)"
    using w retry again by (auto simp: moveToConnectingFrom_def split_beta split: option.split cstate.split)
qed

section \<open>Requests that are taken\<close>

lemma pop_moving:
  assumes t: "moving (t # us) w" and "supports t \<subseteq> {Inr i}"
  shows "moving ((case outcome (popRequest i) w of None \<Rightarrow> [] | Some q \<Rightarrow> [TCall (RunCallback (rq_cb q) x)]) @ us)
    (after (popRequest i) w)"
proof -
  let ?w = "after (popRequest i) w"
  let ?ts = "case outcome (popRequest i) w of None \<Rightarrow> [] | Some q \<Rightarrow> [TCall (RunCallback (rq_cb q) x)]"
  have ty: "typed ?w" using t presD[OF typed_tview[OF tview_ops(1)]] by (simp add: moving_def)
  have f: "(c_state (w_cl ?w), c_attempt (w_cl ?w), w_timers ?w, c_reconnect_timer (w_cl ?w), w_threads ?w, w_lost ?w)
      = (c_state (w_cl w), c_attempt (w_cl w), w_timers w, c_reconnect_timer (w_cl w), w_threads w, w_lost w)"
    by (rule keepsD[OF request_frame(2)])
  have sup: "support (t # us) w \<subseteq> {Inr i} \<union> support us ?w" "support us ?w \<subseteq> support (?ts @ us) ?w"
    using assms(2) f by (auto simp: support_def tasks_of_def)
  let ?n = "c_attempt (w_cl w)"
  have "motion (?ts @ us) ?w"
    unfolding motion_def
  proof
    assume "c_state (w_cl ?w) = StateConnecting"
    then consider "Inl ?n \<in> support (t # us) w" | "awaiting (t # us) ?n w"
      | "\<exists>cb \<in> set (w_lost w). ?n \<in> attempt_cb cb" | "retry_armed w"
      using t f by (auto simp: moving_def motion_def)
    then show "Inl (c_attempt (w_cl ?w)) \<in> support (?ts @ us) ?w \<or> awaiting (?ts @ us) (c_attempt (w_cl ?w)) ?w
        \<or> (\<exists>cb \<in> set (w_lost ?w). c_attempt (w_cl ?w) \<in> attempt_cb cb) \<or> retry_armed ?w"
    proof cases
      case 1
      then show ?thesis using sup f by auto
    next
      case 2
      then obtain j q where q: "gm_get (c_requests (w_cl w)) j = Some q" "?n \<in> attempt_cb (rq_cb q)"
          "Inr j \<in> support (t # us) w"
        by (auto simp: awaiting_def)
      show ?thesis
      proof (cases "j = i")
        case True
        then have "Inl ?n \<in> support (?ts @ us) ?w" using q by (simp add: pop_requests support_def)
        then show ?thesis using f by simp
      next
        case False
        have "gm_get (c_requests (w_cl ?w)) j = Some q" using pop_requests(1)[OF False] q(1) by simp
        moreover have "Inr j \<in> support (?ts @ us) ?w" using q(3) sup False by auto
        ultimately have "awaiting (?ts @ us) ?n ?w" using q(2) unfolding awaiting_def by blast
        then show ?thesis using f by simp
      qed
    qed (use f in \<open>auto simp: retry_armed_def\<close>)
  qed
  then show ?thesis using ty by (simp add: moving_def)
qed

lemma passes_awaitReplyOn: "passes (TCall (AwaitReplyOn i ch)) (awaitReplyOn b i ch)"
proof (rule passesI)
  fix us w assume t: "moving (TCall (AwaitReplyOn i ch) # us) w"
  have pop: "moving (outcome (popAndFail i e) w @ us) (after (popAndFail i e) w)" for e
    using pop_moving[OF t, of i "Inl e"] by (cases "outcome (popRequest i) w") (simp_all add: popAndFail_def split_beta)
  show "moving (outcome (awaitReplyOn b i ch) w @ us) (after (awaitReplyOn b i ch) w)"
    using pop t by (auto simp: awaitReplyOn_def)
qed

lemma handleReply_moving:
  assumes "moving us w"
  shows "moving (outcome (handleReply t reply) w @ us) (after (handleReply t reply) w)"
proof -
  have "moving (TCall (AwaitReplyOn (r_id reply) None) # us) w"
    using moving_more[OF assms, of "[TCall (AwaitReplyOn (r_id reply) None)]"] by simp
  from pop_moving[OF this, of "r_id reply"]
  have pop: "moving ((case outcome (popRequest (r_id reply)) w of None \<Rightarrow> [] | Some q \<Rightarrow> [TCall (RunCallback (rq_cb q) x)]) @ us)
      (after (popRequest (r_id reply)) w)" for x
    by simp
  show ?thesis
  proof (cases "outcome (popRequest (r_id reply)) w")
    case None
    then show ?thesis using pop by (simp add: handleReply_def split_beta)
  next
    case (Some q)
    show ?thesis
    proof (cases "r_error reply = None \<and> malformedReply (rq_result q) reply")
      case True
      have "moving (TCall (RunCallback (rq_cb q) (Inl (Sentinel ErrClientDisconnected))) # us) (after (popRequest (r_id reply)) w)"
        using pop[of "Inl (Sentinel ErrClientDisconnected)"] Some by simp
      from moving_more[OF this, of "[TClient (MoveToDisconnectedFrom (Some t) disconnectBadProtocol ''malformed reply'')]"]
      show ?thesis using Some True by (simp add: handleReply_def split_beta)
    next
      case False
      then show ?thesis using pop[of "Inr reply"] Some by (auto simp: handleReply_def split_beta)
    qed
  qed
qed

lemma moving_waits [steady_intro]: "pres (moving us) (handlePing t)"
  by (rule moving.steady_handlePing)

lemma passes_reader: "passes (TClient (Reader t ch)) (reader rd t ch)"
proof (rule passesI)
  fix us w assume "moving (TClient (Reader t ch) # us) w"
  then have w: "moving us w" by (rule moving_drop) (simp_all add: supports_def)
  show "moving (outcome (reader rd t ch) w @ us) (after (reader rd t ch) w)"
  proof (cases rd)
    case (GotEOF d)
    have "pres (moving us) (do { spawn [TClient (HandleTransportDisconnect (Some t) d)]; close_chan ch; ret [] :: task list op })"
      by (auto intro!: steady_intro)
    from presD[OF this w] show ?thesis using GotEOF by (simp add: reader_def split_beta)
  next
    case (GotReply reply)
    have other: "moving us (after (handle t reply) w)" if "\<not> r_id reply > 0"
    proof -
      have "pres (moving us) (handle t reply)" using that unfolding handle_def by (auto intro!: steady_intro)
      then show ?thesis using w by (rule presD)
    qed
    have "moving (outcome (handle t reply) w @ us) (after (handle t reply) w)"
    proof (cases "r_id reply > 0")
      case True
      then show ?thesis using handleReply_moving[OF w] by (simp add: handle_def)
    next
      case False
      then show ?thesis using moving_more other by blast
    qed
    then have "moving ((outcome (handle t reply) w @ [TClient (Reader t ch)]) @ us) (after (handle t reply) w)"
      unfolding moving_def by (auto elim!: motion_frame simp: support_def)
    then show ?thesis using GotReply by (simp add: reader_def split_beta)
  qed
qed

section \<open>Tasks that hand an attempt on\<close>

lemma refreshToken_hands:
  assumes "supports t \<subseteq> supports call_it" "\<And>r. supports t \<subseteq> supports (nxt r)"
  shows "supports t \<subseteq> (\<Union>t' \<in> set (outcome (refreshToken h call_it nxt) w). supports t')"
  using assms by (auto simp: refreshToken_def split_beta)

lemma passes_connectToken: "passes (TConnect (ConnectToken n r k)) (connectToken h n r k)"
proof (rule passes_steady)
  show "pres (moving us) (connectToken h n r k)" for us by (rule moving.steady_client3)
  show "supports (TConnect (ConnectToken n r k)) \<subseteq> (\<Union>t' \<in> set (outcome (connectToken h n r k) w). supports t')" for w
    using refreshToken_hands[of "TConnect (ConnectToken n r k)" "TConnect (CallGetToken n r k)"
        "\<lambda>x. TConnect (GotConnectToken n r k x)" h w]
    by (auto simp: connectToken_def supports_connect_def)
qed

lemma passes_dial: "passes (TConnect (Dial n r k)) (dial h res n r k)"
proof (rule passes_steady)
  show "pres (moving us) (dial h res n r k)" for us by (rule moving.steady_client2)
  show "supports (TConnect (Dial n r k)) \<subseteq> (\<Union>t' \<in> set (outcome (dial h res n r k) w). supports t')" for w
    by (auto simp: dial_def supports_connect_def split_beta split: option.split)
qed

lemma passes_gotConnectToken: "passes (TConnect (GotConnectToken n r k tk)) (gotConnectToken h n r k tk)"
proof (rule passesI)
  fix us w assume t: "moving (TConnect (GotConnectToken n r k tk) # us) w"
  let ?m = "gotConnectToken h n r k tk"
  let ?d = "moveToDisconnectedIf (\<lambda>c. (c_state c = StateConnecting \<and> c_attempt c = n)
      \<and> (cfg_get_token (c_cfg (w_cl w)) \<or> c_refresh_required c)) disconnectedUnauthorized ''unauthorized''"
  have sup: "supports (TConnect (GotConnectToken n r k tk)) = {Inl n}" by (simp add: supports_connect_def)
  have pre: "moving (TConnect (GotConnectToken n r k tk) # us) (after ?m w)"
    by (rule presD[OF moving.steady_moves3(3) t])
  have late: "moving us w" if "\<not> outcome (isCurrentAttemptLocked n) w" by (rule not_current[OF that sup t])
  show "moving (outcome ?m w @ us) (after ?m w)"
  proof (cases "\<exists>t' \<in> set (outcome ?m w). Inl n \<in> supports t'")
    case True
    then show ?thesis by (rule moving_replace1[OF pre sup])
  next
    case none: False
    have "moving us (after ?m w)"
    proof (cases tk)
      case (Inr token)
      then have "\<not> outcome (isCurrentAttemptLocked n) w"
        using none by (auto simp: gotConnectToken_def split_beta current_run supports_connect_def)
      then show ?thesis
        using Inr late moving_return_to by (simp add: gotConnectToken_def split_beta current_run)
    next
      case (Inl e)
      have un: "errors_is e ErrUnauthorized"
        using none Inl by (cases "errors_is e ErrUnauthorized") (auto simp: gotConnectToken_def split_beta supports_connect_def)
      have gave_up: "outcome ?d w \<or> cfg_get_token (c_cfg (w_cl w))"
        using none Inl un by (cases "outcome ?d w \<or> cfg_get_token (c_cfg (w_cl w))")
          (auto simp: gotConnectToken_def split_beta supports_connect_def)
      then have run: "after ?m w = after (return_to k None) (after ?d w)"
        using Inl un by (simp add: gotConnectToken_def split_beta)
      have "moving us (after ?d w)"
      proof (cases "outcome ?d w")
        case True
        have "c_state (w_cl (after (disconnect_now c r) w)) = StateDisconnected" for c r
          using does_disconnect[of c r] by (simp add: conn_does_def conn_def split_beta)
        then have "c_state (w_cl (after ?d w)) = StateDisconnected"
          using True by (auto simp: moveToDisconnectedIf_def split_beta split: if_splits)
        moreover have "typed (after ?d w)" by (rule presD[OF typed_transitions(1) moving_has_typed[OF t]])
        ultimately show ?thesis using moving_elsewhere[of "after ?d w" us] by simp
      next
        case False
        then have "\<not> outcome (isCurrentAttemptLocked n) w" "after ?d w = w"
          using gave_up by (auto simp: moveToDisconnectedIf_def split_beta current_run split: if_splits)
        then show ?thesis using late by simp
      qed
      then show ?thesis unfolding run by (rule moving_return_to)
    qed
    then show ?thesis by (rule moving_more)
  qed
qed

lemma passes_connectReply: "passes (TConnect (ConnectReply n tr tok ch r)) (connectReply h n tr tok ch r)"
proof (rule passesI)
  fix us w assume t: "moving (TConnect (ConnectReply n tr tok ch r) # us) w"
  have sup: "supports (TConnect (ConnectReply n tr tok ch r)) = {Inl n}" by (simp add: supports_connect_def)
  have pre: "moving (TConnect (ConnectReply n tr tok ch r) # us) (after (connectReply h n tr tok ch r) w)"
    by (rule presD[OF moving.steady_client3(2) t])
  show "moving (outcome (connectReply h n tr tok ch r) w @ us) (after (connectReply h n tr tok ch r) w)"
  proof (cases "outcome (isCurrentAttemptLocked n) w")
    case True
    then have "\<exists>t' \<in> set (outcome (connectReply h n tr tok ch r) w). Inl n \<in> supports t'"
      by (auto simp: connectReply_def split_beta current_run supports_connect_def split: sum.split)
    then show ?thesis by (rule moving_replace1[OF pre sup])
  next
    case False
    then have "moving us w" by (rule not_current[OF _ sup t])
    then show ?thesis using False moving_close_transport by (simp add: connectReply_def split_beta current_run)
  qed
qed

lemma passes_runCallback: "passes (TCall (RunCallback cb r)) (runCallback cb r)"
proof (cases "\<exists>n t tok ch. cb = CbConnect n t tok ch")
  case True
  then obtain n t tok ch where cb: "cb = CbConnect n t tok ch" by blast
  have pre: "pres (moving us) (runCallback cb r)" for us by (rule moving.steady_runCallback)
  show ?thesis
    unfolding passes_def
  proof (intro allI impI)
    fix us w assume t: "moving (TCall (RunCallback cb r) # us) w"
    have "w_panic (after (runCallback cb r) w) \<or> (\<exists>t' \<in> set (outcome (runCallback cb r) w). Inl n \<in> supports t')"
      by (auto simp: cb runCallback_def panic_def supports_connect_def split: sum.split option.split)
    then show "moving (outcome (runCallback cb r) w @ us) (after (runCallback cb r) w) \<or> w_panic (after (runCallback cb r) w)"
      using moving_replace[OF presD[OF pre t], of "outcome (runCallback cb r) w"] by (auto simp: cb attempt_cb_def)
  qed
next
  case False
  then have "supports (TCall (RunCallback cb r)) = {}" by (auto simp: attempt_cb_def split: callback.split)
  then show ?thesis by (intro passes_steady moving.steady_runCallback) simp
qed

lemma passes_awaitReply: "passes (TCall (AwaitReply i)) (awaitReply i)"
  by (intro passes_steady moving.steady_ids) (simp add: awaitReply_def)

section \<open>Every step\<close>

lemma passes_unconcerned:
  assumes "\<And>us. pres (moving us) m" "supports t = {}"
  shows "passes t m"
proof (rule passesI)
  fix us w assume "moving (t # us) w"
  then have "moving us w" by (rule moving_drop) (use assms(2) in auto)
  then show "moving (outcome m w @ us) (after m w)" using presD[OF assms(1)] moving_more by blast
qed

lemma passes_subscribing:
  "passes (TSub (SubscribeStart s k)) (subscribeStart s k)"
  "passes (TSub (MoveToSubscribing s c r)) (subscribeAgain s c r)"
  "passes (TSub (MoveToSubscribed s res g b)) (moveToSubscribed h s res g b)"
  by (auto simp: subscribeAgain_def intro!: passes_unconcerned steady_intro)

lemma special_passes:
  assumes "special t"
  shows "passes t (run_task a h t)"
  using assms unfolding special_def
  by (auto simp: run_task_def run_connect_def run_client_def run_call_def run_sub_def passes_startConnecting passes_subscribing
      passes_startReconnectingIf passes_scheduleIfCurrent passes_dialed passes_connectFailed passes_connectFailedClosed
      passes_connectOk passes_moveToConnectingFrom passes_connectingReported passes_reader passes_awaitReplyOn
      split: task.splits connect_task.splits client_task.splits call_task.splits sub_task.splits)

lemma passes_callGetToken: "passes (TConnect (CallGetToken n r k)) (ret [TConnect (GotConnectToken n r k x)])"
  by (intro passes_steady pres_return) (simp add: supports_connect_def)

lemma ordinary_passes: "\<not> special t \<Longrightarrow> supports t \<noteq> {} \<Longrightarrow> passes t (run_task a h t)"
  by (auto simp: special_def supports_def supports_connect_def run_task_def run_connect_def run_client_def run_call_def
      passes_connectToken passes_callGetToken passes_gotConnectToken passes_dial passes_connectReply passes_runCallback
      passes_awaitReply split: task.splits connect_task.splits client_task.splits call_task.splits)

lemma run_task_moving:
  assumes "moving (t # us) w"
  shows "moving (outcome (run_task a h t) w @ us) (after (run_task a h t) w) \<or> w_panic (after (run_task a h t) w)"
proof (cases "special t \<or> supports t \<noteq> {}")
  case True
  then have "passes t (run_task a h t)" using special_passes ordinary_passes by blast
  then show ?thesis using assms(1) unfolding passes_def by blast
next
  case False
  then have "moving us w" using assms(1) by (intro moving_drop[of t us w]) auto
  then have "moving us (after (run_task a h t) w)" using False presD[OF moving.steady_ordinary] by blast
  then show ?thesis using moving_more by blast
qed

lemma moving_fire: "pres (moving []) (fire_timer n)"
proof (rule presI)
  fix w assume w: "moving [] w"
  show "moving [] (after (fire_timer n) w)"
  proof (cases "gm_get (w_timers w) n")
    case None
    then show ?thesis using w by (simp add: fire_timer_def)
  next
    case (Some x)
    obtain tm d where x: "gm_get (w_timers w) n = Some (tm, d)" using Some by (cases x) auto
    let ?w1 = "w\<lparr>w_timers := gm_del n (w_timers w)\<rparr>"
    let ?w' = "after (spawn [timer_task tm]) ?w1"
    have run: "after (fire_timer n) w = ?w'" using x by (simp add: fire_timer_def)
    have ty: "typed ?w'" unfolding run[symmetric] using w by (intro presD[OF typed_fire]) (simp add: moving_def)
    show ?thesis
    proof (cases "tm = TmReconnect")
      case True
      then have "Inl m \<in> support [] ?w'" for m
        by (auto simp: support_def tasks_of_def spawn_def timer_task_def supports_connect_def)
      then show ?thesis unfolding run using ty by (simp add: moving_def motion_def)
    next
      case False
      have "retry_armed ?w'" if armed: "retry_armed w"
      proof -
        obtain m e where m: "c_reconnect_timer (w_cl w) = Some m" "gm_get (w_timers w) m = Some (TmReconnect, e)"
          using armed by (auto simp: retry_armed_def)
        then have "m \<noteq> n" using x False by auto
        then show ?thesis using m by (simp add: retry_armed_def spawn_def)
      qed
      then show ?thesis
        unfolding run by (intro moving_frame[OF w ty]) (auto simp: spawn_def tasks_of_def)
    qed
  qed
qed

lemma moving_init: "client_init w \<Longrightarrow> moving [] w"
  by (auto simp: client_init_def initial_world_def newClient_def Let_def moving_def motion_def typed_def sub_at_def
      no_sub_def gm_keys_def)

lemma moving_hand_over:
  assumes w: "moving us w" and w': "wview w' = wview w" "w_next w' = w_next w" "w_results w' = w_results w"
    and ts: "set us \<union> tasks_of w \<subseteq> set us' \<union> tasks_of w'"
  shows "moving us' w'"
proof -
  have "typed w'" using typed.loose_rest[of w w'] w w' by (simp add: moving_def)
  moreover have "motion us' w'"
    using w by (intro motion_frame[of us w w' us'])
      (use w' ts in \<open>auto simp: moving_def support_def wview_def retry_armed_def\<close>)
  ultimately show ?thesis by (simp add: moving_def)
qed

interpretation progress: follows moving "\<lambda>_ _. True"
  by unfold_locales
    (simp_all add: moving_hand_over run_task_moving moving_init moving.steady_api_step moving_fire moving.steady_dispatcher)

section \<open>Property\<close>

text \<open>
  C2: a connecting client is never stuck. In every reachable state in which the client is connecting,
  whatever failed or was torn down before and however the goroutines were interleaved, one of these
  holds: a goroutine is still to run a task that goes on with the current attempt (or starts a new
  one); the connect command of the current attempt is waiting for its reply and a goroutine watches its
  timeout; or the reconnect timer is armed. (A request can only get lost when its command id is given
  out again while it waits, after more than four thousand million commands.)
\<close>

theorem connecting_makes_progress:
  assumes "reachable w" "c_state (w_cl w) = StateConnecting" "w_lost w = []"
  shows "(\<exists>th \<in> set (w_threads w). \<exists>t \<in> set (snd th). Inl (c_attempt (w_cl w)) \<in> supports t)
    \<or> (\<exists>i q. gm_get (c_requests (w_cl w)) i = Some q \<and> c_attempt (w_cl w) \<in> attempt_cb (rq_cb q)
        \<and> (\<exists>th \<in> set (w_threads w). \<exists>t \<in> set (snd th). Inr i \<in> supports t))
    \<or> (\<exists>m d. c_reconnect_timer (w_cl w) = Some m \<and> gm_get (w_timers w) m = Some (TmReconnect, d))"
proof -
  have "motion [] w" using progress.all.invariant[OF assms(1)] by (simp add: moving_def)
  then show ?thesis
    using assms(2,3) by (auto simp: motion_def awaiting_def support_def tasks_of_def retry_armed_def)
qed

definition demo_connecting :: world where
  "demo_connecting = run_actions ([Api False ApiConnect] @ go 5 0) demo_start"

definition connecting_ok :: "world \<Rightarrow> bool" where
  "connecting_ok w \<longleftrightarrow> c_state (w_cl w) = StateConnecting \<and> w_lost w = [] \<and> c_attempt (w_cl w) = 1
     \<and> c_reconnect_timer (w_cl w) = None \<and> w_threads w = [(False, [TClient (Reader 1 2)]), (False, [TCall (AwaitReply 1)])]"

text \<open>Here the connect command is on its way: what the theorem finds is the pending request.\<close>

theorem connecting_makes_progress_witness:
  "\<exists>i q. gm_get (c_requests (w_cl demo_connecting)) i = Some q \<and> 1 \<in> attempt_cb (rq_cb q)"
proof -
  have run: "run_then ([Api False ApiConnect] @ go 5 0) connecting_ok demo_start" by code_simp
  then have "reachable demo_connecting" "connecting_ok demo_connecting"
    unfolding demo_connecting_def using reachable_start by (simp_all add: run_then_iff reachable_run)
  then show ?thesis
    using connecting_makes_progress[of demo_connecting]
    by (auto simp: connecting_ok_def supports_def)
qed

end
