(* ===== verification/Settling.thy ===== *)
theory Settling
  imports NoPanic "HOL-Library.Multiset_Order"
begin

text \<open>
  The goroutines settle. A subscribe whose attempt was superseded begins again, a request that fails
  is followed by others, teardowns start goroutines that report to subscriptions: nothing of this goes
  round in circles. Every task has a rank, and what it leaves behind (the tasks it returns and
  spawns, the requests it sends) ranks lower, except that a request passes its own rank on to its
  callback; the multiset of all the ranks goes down with every step. The rank of a subscribe depends
  on whether its attempt is still the current one, so it is taken for fixed counters.
\<close>

section \<open>Ranks\<close>

type_synonym counters = "(sid \<Rightarrow> nat \<times> nat) \<times> int"

definition counts :: "world \<Rightarrow> counters" where
  "counts w = ((\<lambda>s. (s_attempt (sub_at w s), s_invalidations (sub_at w s))), c_generation (w_cl w))"

text \<open>Is this attempt current, with these invalidations, on this connection?\<close>

definition cur_attempt :: "counters \<Rightarrow> sid \<Rightarrow> nat \<Rightarrow> bool" where
  "cur_attempt K s a \<longleftrightarrow> fst (fst K s) = a"

definition cur_state :: "counters \<Rightarrow> sid \<Rightarrow> nat \<Rightarrow> nat \<Rightarrow> bool" where
  "cur_state K s a i \<longleftrightarrow> fst K s = (a, i)"

definition cur_session :: "counters \<Rightarrow> sid \<Rightarrow> nat \<Rightarrow> int \<Rightarrow> bool" where
  "cur_session K s a g \<longleftrightarrow> cur_attempt K s a \<and> (g = noConnGeneration \<or> g = snd K)"

definition rank_cb :: "counters \<Rightarrow> callback \<Rightarrow> nat" where
  "rank_cb K cb = (case cb of
     CbConnect n t tok ch \<Rightarrow> 5
   | CbSubscribe s g a \<Rightarrow> if cur_session K s a g then 10 else 18
   | CbRefresh g \<Rightarrow> 5
   | CbSubRefresh s n i \<Rightarrow> 8
   | CbUnsubscribe \<Rightarrow> 5
   | CbCall k oper \<Rightarrow> 5)"

definition rank_reply :: "err + pb_reply \<Rightarrow> nat" where
  "rank_reply r = (case r of Inl e \<Rightarrow> 0 | Inr reply \<Rightarrow>
     (case r_connect reply of None \<Rightarrow> 0 | Some res \<Rightarrow> 20 + length (cr_subs res)))"

definition rank_connect :: "connect_task \<Rightarrow> nat" where
  "rank_connect t = (case t of
     StartConnecting k \<Rightarrow> 13 | StartReconnectingIf e k \<Rightarrow> 12 | ConnectToken n r k \<Rightarrow> 11
   | CallGetToken n r k \<Rightarrow> 10 | GotConnectToken n r k res \<Rightarrow> 9 | Dial n r k \<Rightarrow> 8
   | Dialed n tr k \<Rightarrow> 7 | ScheduleIfCurrent n k e \<Rightarrow> 1
   | ConnectReply n tr tok ch r \<Rightarrow> (case r of Inl e \<Rightarrow> 4 | Inr res \<Rightarrow> 22 + length (cr_subs res))
   | ConnectFailed n tr tok e \<Rightarrow> 3 | ConnectFailedClosed n tok e \<Rightarrow> 2
   | ConnectOk n tr ch res \<Rightarrow> 21 + length (cr_subs res)
   | ConnectSubs n tr ch res rest \<Rightarrow> 20 + length rest
   | ConnectUnsubs n tr ch res \<Rightarrow> 19 | ConnectDone n tr ch res \<Rightarrow> 18)"

definition rank_client :: "client_task \<Rightarrow> nat" where
  "rank_client t = (case t of
     HandlePush tr p \<Rightarrow> 23
   | SendRefresh g \<Rightarrow> 9 | CallGetTokenRefresh g \<Rightarrow> 8 | GotRefreshToken g r \<Rightarrow> 7 | RefreshSend g tok \<Rightarrow> 6
   | CloseCall k \<Rightarrow> 6 | CloseReport st chs k \<Rightarrow> 5 | CloseWaitReader k \<Rightarrow> 4 | CloseQueue q k \<Rightarrow> 3
   | HandleTransportDisconnect tr d \<Rightarrow> 4
   | MoveToConnectingFrom tr c r \<Rightarrow> 3 | InvalidateConnectionState \<Rightarrow> 3 | DisconnectCall k \<Rightarrow> 3
   | MoveToDisconnected c r \<Rightarrow> 2 | MoveToDisconnectedFrom tr c r \<Rightarrow> 2
   | HandleError e \<Rightarrow> 2 | HandleMessage d \<Rightarrow> 2 | HandleServerPublication ch p \<Rightarrow> 2
   | HandleServerJoin ch i \<Rightarrow> 2 | HandleServerLeave ch i \<Rightarrow> 2 | HandleServerSub ch p \<Rightarrow> 2
   | HandleServerUnsub ch \<Rightarrow> 2 | RefreshReply g r \<Rightarrow> 2
   | _ \<Rightarrow> 1)"

definition rank_call :: "counters \<Rightarrow> call_task \<Rightarrow> nat" where
  "rank_call K t = (case t of
     RunCallback cb r \<Rightarrow> rank_cb K cb + rank_reply r
   | AwaitReply i \<Rightarrow> 3 | AwaitReplyOn i ch \<Rightarrow> 2
   | ClientCall k oper \<Rightarrow> 8 | OnConnect k oper \<Rightarrow> 7 | RunOperation k oper e \<Rightarrow> 6 | FutureTimeout i \<Rightarrow> 1
   | SubCall s k oper \<Rightarrow> 10 | OnSubscribe s k oper \<Rightarrow> 9
   | RunSubOperation s k oper e \<Rightarrow> (case e of None \<Rightarrow> 8 | Some e \<Rightarrow> 1)
   | SubFutureTimeout s i \<Rightarrow> 1)"

definition rank_sub :: "counters \<Rightarrow> sub_task \<Rightarrow> nat" where
  "rank_sub K t = (case t of
     SubscribeCall s k \<Rightarrow> 20 | SubscribeRegistered s k \<Rightarrow> 19 | SubscribeStart s k \<Rightarrow> 18
   | SubscribeConnected s k \<Rightarrow> 17 | HandleUnsubscribe s u \<Rightarrow> 18 | MoveToSubscribing s c r \<Rightarrow> 17 | Resubscribe s \<Rightarrow> 16 | GetState s \<Rightarrow> 15
   | CallGetState s a i \<Rightarrow> if cur_state K s a i then 14 else 17
   | ContinueResubscribe s async \<Rightarrow> if async then 13 else 14
   | CallGetSubToken s a i \<Rightarrow> if cur_state K s a i then 12 else 17
   | SendSubscribe s a i tok \<Rightarrow> if cur_state K s a i then 11 else 17
   | MoveToSubscribed s res g a \<Rightarrow> if cur_attempt K s a then 9 else 17
   | SubscribeError s e a g \<Rightarrow> if cur_session K s a g then 5 else 17
   | SubscribeErrorReported s e a g \<Rightarrow> if cur_session K s a g then 3 else 17
   | SubscribeUnrecoverable s a g \<Rightarrow> if cur_session K s a g then 3 else 17
   | GetStateFailed s a \<Rightarrow> if cur_attempt K s a then 3 else 17
   | UnsubscribeCall s k \<Rightarrow> 7 | Unsubscribe s k \<Rightarrow> 6
   | SubRefresh s n \<Rightarrow> 12 | CallGetSubTokenRefresh s n i \<Rightarrow> 11 | SubRefreshSend s n i tok \<Rightarrow> 10
   | SubRefreshWrite s n i tok \<Rightarrow> 9 | SubRefreshReply s n i r \<Rightarrow> 7 | SubRefreshFatal s n i c r \<Rightarrow> 6
   | HandlePublication s p \<Rightarrow> 4 | DeltaFailed s off e \<Rightarrow> 3
   | EmitError s e \<Rightarrow> 2 | HandleJoin s i \<Rightarrow> 2 | HandleLeave s i \<Rightarrow> 2 | MoveToUnsubscribed s c r \<Rightarrow> 2
   | RemoveCall s k \<Rightarrow> 2
   | _ \<Rightarrow> 1)"

definition rank :: "counters \<Rightarrow> task \<Rightarrow> nat" where
  "rank K t = (case t of
     TConnect t \<Rightarrow> rank_connect t | TClient t \<Rightarrow> rank_client t | TCall t \<Rightarrow> rank_call K t
   | TSub t \<Rightarrow> rank_sub K t | _ \<Rightarrow> 1)"

lemma rank_simps [simp]:
  "rank K (WaitEvent n) = 1" "rank K (WaitChan n) = 1" "rank K WaitQueueClosed = 1"
  "rank K (TConnect ct) = rank_connect ct" "rank K (TClient clt) = rank_client clt"
  "rank K (TCall cat) = rank_call K cat" "rank K (TSub st) = rank_sub K st"
  by (simp_all add: rank_def)

lemmas rank_defs = rank_connect_def rank_client_def rank_call_def rank_sub_def

text \<open>What there is still to do: the ranks of all tasks and of all callbacks of pending requests.\<close>

definition ranks :: "counters \<Rightarrow> task list \<Rightarrow> nat multiset" where
  "ranks K ts = mset (map (rank K) ts)"

definition work :: "counters \<Rightarrow> world \<Rightarrow> nat multiset" where
  "work K w = ranks K (concat (map snd (w_threads w)))
     + mset (map (\<lambda>q. rank_cb K (rq_cb q)) (gm_vals (c_requests (w_cl w))))"

lemma ranks_simps [simp]:
  "ranks K [] = {#}" "ranks K (t # ts) = add_mset (rank K t) (ranks K ts)" "ranks K (ts @ us) = ranks K ts + ranks K us"
  by (simp_all add: ranks_def)

section \<open>Operations that leave little behind\<close>

text \<open>At most \<open>c\<close> and things that rank below \<open>r\<close>.\<close>

definition within :: "counters \<Rightarrow> nat \<Rightarrow> nat multiset \<Rightarrow> world \<Rightarrow> bool" where
  "within K r c w \<longleftrightarrow> (\<exists>N. work K w \<le> c + N \<and> (\<forall>n \<in># N. n < r))"

lemma within_le: "within K r c w \<Longrightarrow> work K w' \<le> work K w \<Longrightarrow> within K r c w'"
  unfolding within_def using order_trans by blast

lemma within_eq: "work K w' = work K w \<Longrightarrow> within K r c w' = within K r c w"
  by (simp add: within_def)

lemma within_more:
  assumes "within K r c w" "work K w' \<le> work K w + N" "\<And>n. n \<in># N \<Longrightarrow> n < r"
  shows "within K r c w'"
proof -
  obtain M where M: "work K w \<le> c + M" "\<forall>n \<in># M. n < r" using assms(1) by (auto simp: within_def)
  have "work K w' \<le> c + (M + N)" using assms(2) add_right_mono[OF M(1), of N] by (metis add.assoc order_trans)
  then show ?thesis using M(2) assms(3) unfolding within_def by (metis union_iff)
qed

lemma work_frames [simp]:
  "work K (w\<lparr>w_heap := a\<rparr>) = work K w" "work K (w\<lparr>w_next_sid := ns\<rparr>) = work K w"
  "work K (w\<lparr>w_next := n\<rparr>) = work K w" "work K (w\<lparr>w_timers := t\<rparr>) = work K w"
  "work K (w\<lparr>w_queue := q\<rparr>) = work K w" "work K (w\<lparr>w_ran := r\<rparr>) = work K w"
  "work K (w\<lparr>w_chans := ch\<rparr>) = work K w" "work K (w\<lparr>w_wire := wi\<rparr>) = work K w"
  "work K (w\<lparr>w_closed_tr := ct\<rparr>) = work K w" "work K (w\<lparr>w_dials := d\<rparr>) = work K w"
  "work K (w\<lparr>w_results := rs\<rparr>) = work K w" "work K (w\<lparr>w_returns := rt\<rparr>) = work K w"
  "work K (w\<lparr>w_delivered := dl\<rparr>) = work K w" "work K (w\<lparr>w_ctx_done := cd\<rparr>) = work K w"
  "work K (w\<lparr>w_lost := l\<rparr>) = work K w" "work K (w\<lparr>w_next_call := nc\<rparr>) = work K w"
  "work K (w\<lparr>w_panic := p\<rparr>) = work K w"
  by (simp_all add: work_def)

lemma work_cl [simp]: "c_requests c = c_requests (w_cl w) \<Longrightarrow> work K (w\<lparr>w_cl := c\<rparr>) = work K w"
  by (simp add: work_def)

lemma within_frame: "(\<And>w. work K (after m w) = work K w) \<Longrightarrow> pres (within K r c) m"
  by (simp add: pres_def within_def)

definition settles :: "counters \<Rightarrow> nat \<Rightarrow> task list op \<Rightarrow> bool" where
  "settles K r m \<longleftrightarrow> (\<forall>c. pres (within K r c) m) \<and> (\<forall>w. list_all (\<lambda>t. rank K t < r) (outcome m w))"

named_theorems settle_intro \<open>rules for operations that leave little behind\<close>

lemmas settle_rules [settle_intro] = pres_return pres_gets pres_bind pres_if pres_when pres_for_each
  pres_option pres_sum pres_prod pres_list pres_cases pres_operation

lemma settles_pres: "settles K r m \<Longrightarrow> pres (within K r c) m"
  by (simp add: settles_def)

lemma settles_return [settle_intro]: "list_all (\<lambda>t. rank K t < r) ts \<Longrightarrow> settles K r (ret ts)"
  by (simp add: settles_def pres_return)

lemma settles_bind [settle_intro]:
  "(\<And>c. pres (within K r c) m) \<Longrightarrow> (\<And>x. settles K r (k x)) \<Longrightarrow> settles K r (State_Monad.bind m k)"
  by (simp add: settles_def pres_def split_beta)

lemma settles_bind_tasks:
  "settles K r m \<Longrightarrow> (\<And>ts. list_all (\<lambda>t. rank K t < r) ts \<Longrightarrow> settles K r (k ts)) \<Longrightarrow> settles K r (State_Monad.bind m k)"
  by (simp add: settles_def pres_def split_beta)

lemma settles_if [settle_intro]: "(b \<Longrightarrow> settles K r m) \<Longrightarrow> (\<not> b \<Longrightarrow> settles K r n) \<Longrightarrow> settles K r (if b then m else n)"
  by simp

lemma settles_option [settle_intro]:
  "(x = None \<Longrightarrow> settles K r m) \<Longrightarrow> (\<And>y. x = Some y \<Longrightarrow> settles K r (n y))
    \<Longrightarrow> settles K r (case x of None \<Rightarrow> m | Some y \<Rightarrow> n y)"
  by (cases x) auto

lemma settles_sum [settle_intro]:
  "(\<And>y. x = Inl y \<Longrightarrow> settles K r (m y)) \<Longrightarrow> (\<And>y. x = Inr y \<Longrightarrow> settles K r (n y))
    \<Longrightarrow> settles K r (case x of Inl y \<Rightarrow> m y | Inr y \<Rightarrow> n y)"
  by (cases x) auto

lemma settles_prod [settle_intro]:
  "(\<And>a b. x = (a, b) \<Longrightarrow> settles K r (m a b)) \<Longrightarrow> settles K r (case x of (a, b) \<Rightarrow> m a b)"
  by (cases x) auto

lemma settles_list [settle_intro]:
  "(x = [] \<Longrightarrow> settles K r m) \<Longrightarrow> (\<And>y ys. x = y # ys \<Longrightarrow> settles K r (n y ys))
    \<Longrightarrow> settles K r (case x of [] \<Rightarrow> m | y # ys \<Rightarrow> n y ys)"
  by (cases x) auto

lemma settles_cstate [settle_intro]:
  "settles K r a \<Longrightarrow> settles K r b \<Longrightarrow> settles K r c \<Longrightarrow> settles K r d
    \<Longrightarrow> settles K r (case st of StateDisconnected \<Rightarrow> a | StateConnecting \<Rightarrow> b | StateConnected \<Rightarrow> c | StateClosed \<Rightarrow> d)"
  by (cases st) simp_all

section \<open>The primitives\<close>

lemma within_modc [settle_intro]: "(\<And>x. c_requests (f x) = c_requests x) \<Longrightarrow> pres (within K r c) (modc f)"
  by (rule within_frame) (simp add: modc_def)

lemma within_mods [settle_intro]: "pres (within K r c) (mods s f)"
  by (rule within_frame) (simp add: mods_def)

lemma work_spawn: "work K (after (spawn ts) w) = work K w + ranks K ts"
  by (simp add: spawn_def work_def)

lemma within_spawn [settle_intro]: "list_all (\<lambda>t. rank K t < r) ts \<Longrightarrow> pres (within K r c) (spawn ts)"
proof (rule presI)
  fix w assume "list_all (\<lambda>t. rank K t < r) ts" "within K r c w"
  then show "within K r c (after (spawn ts) w)"
    by (auto simp: work_spawn ranks_def list_all_iff elim!: within_more[where N = "ranks K ts"])
qed

lemma within_effects [settle_intro]:
  "pres (within K r c) fresh" "pres (within K r c) (add_result k x)" "pres (within K r c) (return_to cl e)"
  "pres (within K r c) (close_chan ch)" "pres (within K r c) (close_transport t)" "pres (within K r c) panic"
  "pres (within K r c) (stop_timer tm)" "pres (within K r c) (after_func d tmr)" "pres (within K r c) (push_job j)"
  by (rule within_frame, simp add: fresh_def add_result_def return_to_def close_chan_def
      close_transport_def panic_def stop_timer_def after_func_def push_job_def split_beta split: option.split)+

lemma within_modify: "(\<And>w. work K (f w) = work K w) \<Longrightarrow> pres (within K r c) (modify f)"
  by (rule within_frame) simp

lemma within_queueEvent [settle_intro]:
  "pres (within K r c) (queueEvent j)" "pres (within K r c) (runHandlerAsync j)" "pres (within K r c) (queue_if b j)"
  by (auto simp: queueEvent_def runHandlerAsync_def queue_if_def intro!: settle_intro within_modify)

lemma low_waitEvent [simp]: "1 < r \<Longrightarrow> list_all (\<lambda>t. rank K t < r) (waitEvent h d)"
  by (simp add: waitEvent_def split: option.split)

lemma rank_waitEvent [simp]: "t \<in> set (waitEvent h d) \<Longrightarrow> rank K t = 1"
  by (auto simp: waitEvent_def split: option.splits if_splits)

lemma settles_handlers [settle_intro]:
  "1 < r \<Longrightarrow> settles K r (runHandlerSync j)" "1 < r \<Longrightarrow> settles K r (runHandlerSyncReentrant h j)"
  "1 < r \<Longrightarrow> settles K r (handleError h e)" "1 < r \<Longrightarrow> settles K r (emitError s e)"
  by (auto simp: runHandlerSync_def runHandlerSyncReentrant_def handleError_def emitError_def
      intro!: settle_intro)

lemmas within_handlers [settle_intro] = settles_handlers[THEN settles_pres]

section \<open>Requests\<close>

lemma gm_put_vals_le:
  fixes m :: "('k, 'v) gomap"
  shows "mset (map f (gm_vals (gm_put k v m))) \<subseteq># add_mset (f v) (mset (map f (gm_vals m)))"
proof -
  have "mset (map f (gm_vals (AList.update k v m))) \<subseteq># add_mset (f v) (mset (map f (gm_vals m)))"
  proof (induction m)
    case (Cons e m)
    then show ?case by (cases e) (auto simp: gm_vals_def add_mset_commute subset_mset.add_mono)
  qed (simp add: gm_vals_def)
  then show ?thesis by (simp add: gm_put_def)
qed

lemma gm_del_vals_le: "mset (map f (gm_vals (gm_del k m))) \<subseteq># mset (map f (gm_vals m))"
proof (induction m)
  case (Cons e m)
  then show ?case
    by (cases e) (auto simp: gm_vals_def gm_del_def intro: subset_mset.order_trans mset_subset_eq_add_mset_cancel)
qed (simp add: gm_vals_def gm_del_def)

lemma gm_del_vals_get:
  "gm_get m k = Some v \<Longrightarrow> add_mset (f v) (mset (map f (gm_vals (gm_del k m)))) \<subseteq># mset (map f (gm_vals m))"
proof (induction m)
  case (Cons e m)
  obtain a b where e: "e = (a, b)" by (cases e)
  show ?case
  proof (cases "a = k")
    case True
    then show ?thesis using Cons.prems gm_del_vals_le[of f k m] by (simp add: e gm_get_def gm_vals_def gm_del_def)
  next
    case False
    then show ?thesis using Cons by (simp add: e gm_get_def gm_vals_def gm_del_def add_mset_commute)
  qed
qed (simp add: gm_get_def)

lemma within_addRequest [settle_intro]:
  assumes "rank_cb K cb < r"
  shows "pres (within K r c) (addRequest i x cb)"
proof -
  have "pres (within K r c) (modc (\<lambda>c. c\<lparr>c_requests := gm_put i \<lparr>rq_cb = cb, rq_result = x\<rparr> (c_requests c)\<rparr>))"
    unfolding pres_def
  proof (intro allI impI)
    fix w assume w: "within K r c w"
    have "work K (w\<lparr>w_cl := (w_cl w)\<lparr>c_requests := gm_put i \<lparr>rq_cb = cb, rq_result = x\<rparr> (c_requests (w_cl w))\<rparr>\<rparr>)
        \<subseteq># work K w + {#rank_cb K cb#}"
      using gm_put_vals_le[of "\<lambda>q. rank_cb K (rq_cb q)" i "\<lparr>rq_cb = cb, rq_result = x\<rparr>"]
      by (simp add: work_def)
    then show "within K r c (after (modc (\<lambda>c. c\<lparr>c_requests := gm_put i \<lparr>rq_cb = cb, rq_result = x\<rparr> (c_requests c)\<rparr>)) w)"
      using assms within_more[OF w, of _ "{#rank_cb K cb#}"]
      by (simp add: modc_def subset_eq_imp_le_multiset)
  qed
  then show ?thesis unfolding addRequest_def by (auto intro!: settle_intro within_modify)
qed

lemma work_popRequest:
  "work K (after (popRequest i) w) + (case outcome (popRequest i) w of None \<Rightarrow> {#} | Some q \<Rightarrow> {#rank_cb K (rq_cb q)#})
    \<subseteq># work K w"
  using gm_del_vals_get[of "c_requests (w_cl w)" i _ "\<lambda>q. rank_cb K (rq_cb q)"]
  by (auto simp: popRequest_def modc_def gm_pop_def work_def split_beta split: option.split)

lemma within_popRequest [settle_intro]: "pres (within K r c) (popRequest i)"
  unfolding pres_def
proof (intro allI impI)
  fix w assume w: "within K r c w"
  have "work K (after (popRequest i) w) \<subseteq># work K w"
    using work_popRequest subset_mset.order_trans mset_subset_eq_add_left by blast
  then show "within K r c (after (popRequest i) w)" using w by (blast intro: within_le subset_eq_imp_le_multiset)
qed

lemma within_sendOn [settle_intro]: "4 < r \<Longrightarrow> pres (within K r c) (sendOn t cmd)"
  by (auto simp: sendOn_def rank_defs intro!: settle_intro within_modify)

lemma within_send [settle_intro]: "4 < r \<Longrightarrow> pres (within K r c) (send cmd)"
  by (auto simp: send_def intro!: settle_intro)

lemma within_ids [settle_intro]: "pres (within K r c) nextCmdID" "pres (within K r c) nextFutureID"
  by (auto simp: nextCmdID_def nextFutureID_def intro!: settle_intro)

lemma within_sendAsyncOn [settle_intro]:
  "4 < r \<Longrightarrow> rank_cb K cb < r \<Longrightarrow> pres (within K r c) (sendAsyncOn t cmd cb)"
  by (auto simp: sendAsyncOn_def rank_defs intro!: settle_intro)

lemma within_sendAsync [settle_intro]: "4 < r \<Longrightarrow> rank_cb K cb < r \<Longrightarrow> pres (within K r c) (sendAsync cmd cb)"
  by (auto simp: sendAsync_def intro!: settle_intro)

lemma within_calls [settle_intro]:
  assumes "5 < r"
  shows "pres (within K r c) (send_operation k oper cmd)" "pres (within K r c) (send_message k d)"
    "pres (within K r c) (sendRPC k m d)" "pres (within K r c) (sendPublish k ch d)"
    "pres (within K r c) (sendHistory k ch opts)" "pres (within K r c) (sendPresence k ch)"
    "pres (within K r c) (sendPresenceStats k ch)"
  using assms
  by (auto simp: send_operation_def send_message_def sendRPC_def sendPublish_def sendHistory_def sendPresence_def
      sendPresenceStats_def rank_cb_def intro!: settle_intro)

text \<open>An operation that runs with an error only answers.\<close>

lemma within_runOperation [settle_intro]: "5 < r \<or> e \<noteq> None \<Longrightarrow> pres (within K r c) (runOperation k oper e)"
  by (cases e; cases oper) (auto simp: runOperation_defs intro!: settle_intro)

lemma within_operationReply [settle_intro]: "pres (within K r c) (operationReply k oper x)"
  by (auto simp: operationReply_def intro!: settle_intro)

lemma within_futures [settle_intro]:
  "5 < r \<or> e \<noteq> None \<Longrightarrow> pres (within K r c) (resolveConnectFutures e)" "pres (within K r c) (futureTimeout i)"
  by (auto simp: resolveConnectFutures_def futureTimeout_def intro!: settle_intro)

lemma settles_onConnect [settle_intro]: "6 < r \<Longrightarrow> settles K r (onConnect k oper)" "7 < r \<Longrightarrow> settles K r (clientCall k oper)"
  by (auto simp: onConnect_def clientCall_def rank_defs intro!: settle_intro)

section \<open>Teardown\<close>

text \<open>What waits for a reply becomes a goroutine that runs its callback: the rank stays.\<close>

lemma spawn_each: "after (for_each (\<lambda>x. spawn (f x)) xs) w = w\<lparr>w_threads := w_threads w @ map (\<lambda>x. (False, f x)) xs\<rparr>"
  by (induction xs arbitrary: w) (simp_all add: spawn_def)

lemma within_fail_requests:
  "pres (within K r c) (do {
     reqs \<leftarrow> getc c_requests;
     modc (\<lambda>c. c\<lparr>c_requests := []\<rparr>);
     for_each (\<lambda>q. spawn [TCall (RunCallback (rq_cb q) (Inl e))]) (gm_vals reqs) })"
proof (rule within_frame)
  fix w
  have "concat (map (\<lambda>x. [f x]) xs) = map f xs" for f :: "request \<Rightarrow> task" and xs by (induction xs) simp_all
  then show "work K (after (do {
     reqs \<leftarrow> getc c_requests;
     modc (\<lambda>c. c\<lparr>c_requests := []\<rparr>);
     for_each (\<lambda>q. spawn [TCall (RunCallback (rq_cb q) (Inl e))]) (gm_vals reqs) }) w) = work K w"
    by (simp add: modc_def spawn_each work_def gm_vals_def ranks_def comp_def rank_defs rank_reply_def)
qed

lemma within_clear [settle_intro]: "pres (within K r c) clearConnectedState"
  unfolding clearConnectedState_def
  by (intro pres_bind within_fail_requests pres_gets) (auto intro!: settle_intro)

lemma within_transitions [settle_intro]:
  "pres (within K r c) (setStateLocked st)" "pres (within K r c) (setTransportLocked t)"
  "pres (within K r c) drop_transport" "pres (within K r c) (isCurrentAttemptLocked n)"
  "pres (within K r c) (isConnectedAttemptLocked n)" "pres (within K r c) scheduleReconnectLocked"
  "pres (within K r c) (scheduleRefreshLocked d)" "pres (within K r c) (isConnRefreshCurrent g)"
  by (auto simp: setStateLocked_def setTransportLocked_def drop_transport_def isCurrentAttemptLocked_def
      isConnectedAttemptLocked_def scheduleReconnectLocked_def scheduleRefreshLocked_def isConnRefreshCurrent_def
      intro!: settle_intro)

lemma within_sub_timers [settle_intro]:
  "pres (within K r c) (stop_sub_timers s)" "pres (within K r c) (scheduleResubscribe s)"
  "pres (within K r c) (arm_sub_refresh s ttl)" "pres (within K r c) (queueSubscribingLocked s code reason)"
  "pres (within K r c) (moveToSubscribingLocked s code reason)" "pres (within K r c) (end_inflight s)"
  "pres (within K r c) (updateSubscriptionPushID s a b)"
  by (auto simp: stop_sub_timers_def scheduleResubscribe_def arm_sub_refresh_def queueSubscribingLocked_def
      moveToSubscribingLocked_def end_inflight_def updateSubscriptionPushID_def intro!: settle_intro)

lemma within_subs_to_subscribing [settle_intro]: "pres (within K r c) subs_to_subscribing"
  by (auto simp: subs_to_subscribing_def intro!: settle_intro)

lemma within_teardown [settle_intro]:
  "pres (within K r c) (disconnect_now code reason)" "pres (within K r c) (moveToDisconnectedIf current code reason)"
  "pres (within K r c) (moveToDisconnected code reason)" "pres (within K r c) (moveToDisconnectedFrom t code reason)"
  "pres (within K r c) (retry_connecting tr)" "pres (within K r c) (connectingReported n)"
  "pres (within K r c) close_now" "pres (within K r c) (disconnect_refresh g code reason)"
  by (auto simp: disconnect_now_def moveToDisconnectedIf_def moveToDisconnected_def moveToDisconnectedFrom_def
      retry_connecting_def connectingReported_def close_now_def disconnect_refresh_def intro!: settle_intro)

lemma settles_reconnect [settle_intro]:
  "2 < r \<Longrightarrow> settles K r (reconnect_now h code reason)" "2 < r \<Longrightarrow> settles K r (moveToConnectingFrom h t code reason)"
  by (auto simp: reconnect_now_def moveToConnectingFrom_def rank_defs split: prod.split intro!: settle_intro)

lemma settles_disconnect [settle_intro]:
  "2 < r \<Longrightarrow> settles K r invalidateConnectionState" "3 < r \<Longrightarrow> settles K r (handleTransportDisconnect t d)"
  "2 < r \<Longrightarrow> settles K r (disconnectCall k)" "5 < r \<Longrightarrow> settles K r (closeCall k)"
  "4 < r \<Longrightarrow> settles K r (closeReport st chs k)" "3 < r \<Longrightarrow> settles K r (closeWaitReader h k)"
  "2 < r \<Longrightarrow> settles K r (closeQueue h q k)"
  by (auto simp: invalidateConnectionState_def handleTransportDisconnect_def disconnectCall_def closeCall_def
      closeReport_def closeWaitReader_def closeQueue_def rank_defs list_all_iff Let_def split: option.split
      intro!: settle_intro within_modify)

section \<open>Subscriptions\<close>

lemma within_resolveSubFutures [settle_intro]:
  "8 < r \<or> 1 < r \<and> e \<noteq> None \<Longrightarrow> pres (within K r c) (resolveSubFutures s e)"
  by (cases e) (auto simp: resolveSubFutures_def rank_defs intro!: settle_intro)

lemma within_sub_ops [settle_intro]:
  "8 < r \<Longrightarrow> pres (within K r c) (onSubscribe s k oper)" "1 < r \<Longrightarrow> pres (within K r c) (moveToUnsubscribedLocked s code reason e)"
  "1 < r \<Longrightarrow> pres (within K r c) (moveToUnsubscribed s code reason)" "4 < r \<Longrightarrow> pres (within K r c) unsubscribe_failed"
  "4 < r \<Longrightarrow> pres (within K r c) (unsubscribeReply x)"
  by (auto simp: onSubscribe_def moveToUnsubscribedLocked_def moveToUnsubscribed_def unsubscribe_failed_def
      unsubscribeReply_def rank_defs intro!: settle_intro)

lemma within_sub_commands [settle_intro]:
  "5 < r \<Longrightarrow> pres (within K r c) (sendUnsubscribe ch)" "5 < r \<Longrightarrow> pres (within K r c) (sendUnsubscribeLocked s)"
  "5 < r \<Longrightarrow> pres (within K r c) (unsubscribe s code reason b)"
  "4 < r \<Longrightarrow> rank_cb K cb < r \<Longrightarrow> pres (within K r c) (sendSubscribe params cb)"
  "4 < r \<Longrightarrow> rank_cb K cb < r \<Longrightarrow> pres (within K r c) (sendSubRefresh ch tok cb)"
  by (auto simp: sendUnsubscribe_def sendUnsubscribeLocked_def unsubscribe_def sendSubscribe_def sendSubRefresh_def
      rank_cb_def intro!: settle_intro)

lemma settles_sub_calls [settle_intro]:
  "7 < r \<or> 0 < r \<and> e \<noteq> None \<Longrightarrow> settles K r (runSubOperation s k oper e)" "0 < r \<Longrightarrow> settles K r (subFutureTimeout s i)"
  "9 < r \<Longrightarrow> settles K r (subCall s k oper)"
  by (auto simp: runSubOperation_def subFutureTimeout_def subCall_def rank_defs intro!: settle_intro)

lemma within_registry [settle_intro]: "pres (within K r c) (isRegistered s)" "pres (within K r c) (removeEntry s k)"
  by (auto simp: isRegistered_def removeEntry_def intro!: settle_intro)

lemma settles_sub_api [settle_intro]:
  "19 < r \<Longrightarrow> settles K r (subscribeCall s k)" "18 < r \<Longrightarrow> settles K r (subscribeRegistered s k)"
  "17 < r \<Longrightarrow> settles K r (subscribeStart s k)" "16 < r \<Longrightarrow> settles K r (subscribeConnected s k)"
  "6 < r \<Longrightarrow> settles K r (unsubscribeCall s k)" "1 < r \<Longrightarrow> settles K r (removeCall s k)"
  by (auto simp: subscribeCall_def subscribeRegistered_def subscribeStart_def subscribeConnected_def
      unsubscribeCall_def removeCall_def rank_defs intro!: settle_intro)

lemma settles_resubscribe [settle_intro]: "15 < r \<Longrightarrow> settles K r (resubscribe s)"
  by (auto simp: resubscribe_def rank_defs intro!: settle_intro)

lemma within_locks [settle_intro]:
  "pres (within K r c) (lockCurrentAttempt s a)" "pres (within K r c) (lockCurrentSubscribe s a g)"
  "pres (within K r c) (isRefreshCurrent s n i)" "pres (within K r c) (invalidateState s)"
  by (auto simp: lockCurrentAttempt_def lockCurrentSubscribe_def isRefreshCurrent_def invalidateState_def
      intro!: settle_intro)

lemma settles_pushes [settle_intro]:
  "3 < r \<Longrightarrow> settles K r (handlePublication h s p)" "1 < r \<Longrightarrow> settles K r (handleJoin h s i)"
  "1 < r \<Longrightarrow> settles K r (handleLeave h s i)" "17 < r \<Longrightarrow> settles K r (handleUnsubscribe s u)"
  by (auto simp: handlePublication_def handleJoin_def handleLeave_def handleUnsubscribe_def rank_defs
      intro!: settle_intro)

lemma settles_deltaFailed [settle_intro]: "2 < r \<Longrightarrow> settles K r (deltaFailed h s off e)"
  by (auto simp: deltaFailed_def rank_defs intro!: settle_intro settles_bind_tasks)

lemma settles_sub_refresh [settle_intro]:
  "11 < r \<Longrightarrow> settles K r (refresh s n)" "10 < r \<Longrightarrow> settles K r (gotRefreshSubToken x s n i)"
  "9 < r \<Longrightarrow> settles K r (subRefreshSend s n i tok)" "6 < r \<Longrightarrow> settles K r (subRefreshReply s n i y)"
  by (auto simp: refresh_def gotRefreshSubToken_def subRefreshSend_def subRefreshReply_def rank_defs
      intro!: settle_intro split: option.split)

lemma within_sub_refresh [settle_intro]:
  "pres (within K r c) (subRefreshArm s n ttl)" "8 < r \<Longrightarrow> pres (within K r c) (subRefreshWrite s n i tok)"
  "5 < r \<Longrightarrow> pres (within K r c) (unsubscribeIfRefreshCurrent s n i code reason)"
  by (auto simp: subRefreshArm_def subRefreshWrite_def unsubscribeIfRefreshCurrent_def rank_cb_def
      intro!: settle_intro)

section \<open>The client\<close>

lemma settles_connecting [settle_intro]:
  "12 < r \<Longrightarrow> settles K r (startConnecting h k)" "11 < r \<Longrightarrow> settles K r (startReconnectingIf e k)"
  "1 < r \<Longrightarrow> rank K t < r \<Longrightarrow> (\<And>x. rank K (f x) < r) \<Longrightarrow> settles K r (refreshToken h t f)"
  "8 < r \<Longrightarrow> settles K r (gotConnectToken h n rd k res)" "7 < r \<Longrightarrow> settles K r (dial h eo n rd k)"
  by (auto simp: startConnecting_def startReconnectingIf_def refreshToken_def gotConnectToken_def dial_def rank_defs
      intro!: settle_intro settles_bind_tasks within_modify)

lemma settles_connectToken [settle_intro]: "10 < r \<Longrightarrow> settles K r (connectToken h n rd k)"
  by (auto simp: connectToken_def rank_defs intro!: settle_intro)

lemma within_scheduleIfCurrent [settle_intro]: "pres (within K r c) (scheduleIfCurrent n k e)"
  by (auto simp: scheduleIfCurrent_def intro!: settle_intro)

lemma within_sendConnect [settle_intro]: "4 < r \<Longrightarrow> rank_cb K cb < r \<Longrightarrow> pres (within K r c) (sendConnect t cb)"
  by (auto simp: sendConnect_def intro!: settle_intro)

lemma settles_dialed [settle_intro]: "6 < r \<Longrightarrow> settles K r (dialed h n t k)"
  by (auto simp: dialed_def rank_defs rank_cb_def intro!: settle_intro settles_bind_tasks)

lemma settles_connectReply [settle_intro]:
  "rank_connect (ConnectReply n t tok ch x) \<le> r \<Longrightarrow> settles K r (connectReply h n t tok ch x)"
  "2 < r \<Longrightarrow> settles K r (connectFailed n t tok e)" "rank_connect (ConnectOk n t ch res) \<le> r \<Longrightarrow> settles K r (connectOk h n t ch res)"
  by (auto simp: connectReply_def connectFailed_def connectOk_def rank_defs
      intro!: settle_intro settles_bind_tasks split: sum.splits)

lemma within_connectFailedClosed [settle_intro]: "pres (within K r c) (connectFailedClosed n tok e)"
  by (auto simp: connectFailedClosed_def intro!: settle_intro)

lemma within_queue_each [settle_intro]: "pres (within K r c) (queue_each es d)"
  by (induction es arbitrary: d) (auto intro!: settle_intro)

lemma settles_connected [settle_intro]:
  "rank_connect (ConnectSubs n t ch res rest) \<le> r \<Longrightarrow> settles K r (connectSubs h n t ch res rest)"
  "18 < r \<Longrightarrow> settles K r (connectUnsubs h n t ch res)" "17 < r \<Longrightarrow> settles K r (connectDone n t ch res)"
  by (auto simp: connectSubs_def connectUnsubs_def connectDone_def rank_defs list_all_iff intro!: settle_intro)

lemma settles_server_pushes [settle_intro]:
  "1 < r \<Longrightarrow> settles K r (handleServerPublication h ch p)" "1 < r \<Longrightarrow> settles K r (handleServerJoin h ch i)"
  "1 < r \<Longrightarrow> settles K r (handleServerLeave h ch i)" "1 < r \<Longrightarrow> settles K r (handleServerSub h ch sp)"
  "1 < r \<Longrightarrow> settles K r (handleServerUnsub h ch)" "1 < r \<Longrightarrow> settles K r (handleMessage m)"
  by (auto simp: handleServerPublication_def handleServerJoin_def handleServerLeave_def handleServerSub_def
      handleServerUnsub_def handleMessage_def intro!: settle_intro)

lemma settles_handlePush [settle_intro]: "18 < r \<Longrightarrow> settles K r (handlePush t p)"
  by (auto simp: handlePush_def push_tasks_def unknown_def rank_defs intro!: settle_intro split: option.split)

lemma settles_refresh [settle_intro]:
  "8 < r \<Longrightarrow> settles K r (sendRefresh h g)" "6 < r \<Longrightarrow> settles K r (gotRefreshToken h g x)"
  "1 < r \<Longrightarrow> settles K r (refreshReply h g y)"
  by (auto simp: sendRefresh_def gotRefreshToken_def refreshReply_def rank_defs
      intro!: settle_intro settles_bind_tasks)

lemma within_refresh [settle_intro]: "5 < r \<Longrightarrow> pres (within K r c) (refreshSend g tok)" "pres (within K r c) (handleRefreshError g)"
  by (auto simp: refreshSend_def handleRefreshError_def rank_cb_def intro!: settle_intro)

lemma settles_runCallback:
  "rank_cb K cb + rank_reply x \<le> r \<Longrightarrow> settles K r (runCallback cb x)"
  by (cases cb) (auto simp: runCallback_def reply_result_def rank_defs rank_cb_def rank_reply_def cur_session_def
      intro!: settle_intro split: sum.splits option.splits if_splits)

section \<open>Subscribes that may be outdated\<close>

definition lowers :: "counters \<Rightarrow> nat \<Rightarrow> task list op \<Rightarrow> world \<Rightarrow> bool" where
  "lowers K r m w \<longleftrightarrow> (\<forall>c. within K r c w \<longrightarrow> within K r c (after m w))
     \<and> list_all (\<lambda>t. rank K t < r) (outcome m w)"

lemma settles_lowers: "settles K r m \<Longrightarrow> lowers K r m w"
  by (simp add: settles_def lowers_def pres_def)

lemma lowersI:
  "(\<And>c. pres (within K r c) m) \<Longrightarrow> list_all (\<lambda>t. rank K t < r) (outcome m w) \<Longrightarrow> lowers K r m w"
  by (simp add: lowers_def pres_def)

lemma lowers_unit: "(\<And>c. pres (within K r c) m) \<Longrightarrow> lowers K r (do { m; ret [] }) w"
  by (rule lowersI) (auto simp: split_beta intro!: settle_intro)

lemmas cur_defs = cur_state_def cur_attempt_def cur_session_def

lemma counts_at:
  assumes "counts w = K"
  shows "fst K s = (s_attempt (sub_at w s), s_invalidations (sub_at w s))" "snd K = c_generation (w_cl w)"
  using assms by (auto simp: counts_def)

lemma within_outdated [settle_intro]:
  "pres (within K r c) (gotState x s a i)" "1 < r \<Longrightarrow> pres (within K r c) (gotSubToken y s a i)"
  "pres (within K r c) (getStateFailed s a)" "4 < r \<Longrightarrow> pres (within K r c) (subscribeError s e a g)"
  "1 < r \<Longrightarrow> pres (within K r c) (subscribeErrorReported s e a g)" "pres (within K r c) (subscribeUnrecoverable s a g)"
  by (auto simp: gotState_def gotSubToken_def getStateFailed_def subscribeError_def subscribeErrorReported_def
      subscribeUnrecoverable_def rank_defs intro!: settle_intro)

text \<open>A task that finds its attempt outdated may begin again, and ranks above a new beginning.\<close>

lemma lowers_outdated:
  assumes "counts w = K"
  shows "lowers K (rank_sub K (CallGetState s a i)) (gotState x s a i) w"
    "lowers K (rank_sub K (CallGetSubToken s a i)) (gotSubToken y s a i) w"
    "lowers K (rank_sub K (GetStateFailed s a)) (getStateFailed s a) w"
    "lowers K (rank_sub K (SubscribeError s e a g)) (subscribeError s e a g) w"
    "lowers K (rank_sub K (SubscribeErrorReported s e a g)) (subscribeErrorReported s e a g) w"
    "lowers K (rank_sub K (SubscribeUnrecoverable s a g)) (subscribeUnrecoverable s a g) w"
proof -
  note at = counts_at(1)[OF assms, of s] counts_at(2)[OF assms]
  show "lowers K (rank_sub K (CallGetState s a i)) (gotState x s a i) w"
    by (rule lowersI, intro settle_intro)
      (auto simp: gotState_def rank_defs cur_defs at split_beta split: sum.split)
  show "lowers K (rank_sub K (CallGetSubToken s a i)) (gotSubToken y s a i) w"
    by (rule lowersI, intro settle_intro)
      (auto simp: gotSubToken_def rank_defs cur_defs at split_beta split: sum.split)
  show "lowers K (rank_sub K (GetStateFailed s a)) (getStateFailed s a) w"
    by (rule lowersI, intro settle_intro)
      (auto simp: getStateFailed_def lockCurrentAttempt_def rank_defs cur_defs at split_beta)
  show "lowers K (rank_sub K (SubscribeError s e a g)) (subscribeError s e a g) w"
    by (rule lowersI, intro settle_intro)
      (auto simp: subscribeError_def lockCurrentSubscribe_def lockCurrentAttempt_def rank_defs cur_defs at split_beta)
  show "lowers K (rank_sub K (SubscribeErrorReported s e a g)) (subscribeErrorReported s e a g) w"
    by (rule lowersI, intro settle_intro)
      (auto simp: subscribeErrorReported_def lockCurrentSubscribe_def lockCurrentAttempt_def rank_defs cur_defs at split_beta)
  show "lowers K (rank_sub K (SubscribeUnrecoverable s a g)) (subscribeUnrecoverable s a g) w"
    by (rule lowersI, intro settle_intro)
      (auto simp: subscribeUnrecoverable_def lockCurrentSubscribe_def lockCurrentAttempt_def rank_defs cur_defs at split_beta)
qed

text \<open>A new beginning takes the counters as they are.\<close>

lemma lowers_begin:
  assumes "counts w = K"
  shows "lowers K (rank_sub K (GetState s)) (getState s) w"
    "lowers K (rank_sub K (ContinueResubscribe s async)) (continueResubscribe s async) w"
proof -
  note at = counts_at(1)[OF assms, of s] counts_at(2)[OF assms]
  show "lowers K (rank_sub K (GetState s)) (getState s) w"
    by (rule lowersI, unfold getState_def, intro settle_intro) (auto simp: rank_defs cur_defs at split_beta)
  show "lowers K (rank_sub K (ContinueResubscribe s async)) (continueResubscribe s async) w"
    by (rule lowersI) (auto simp: continueResubscribe_def rank_defs cur_defs at split_beta intro!: settle_intro)
qed

lemma lowers_send:
  assumes "counts w = K"
  shows "lowers K (rank_sub K (SendSubscribe s a i tok)) (do { sendSubscribeNow s a i tok; ret [] }) w"
proof -
  note at = counts_at(1)[OF assms, of s] counts_at(2)[OF assms]
  let ?r = "rank_sub K (SendSubscribe s a i tok)"
  have "within K ?r c (after (sendSubscribeNow s a i tok) w)" if w: "within K ?r c w" for c
  proof (cases "s_attempt (sub_at w s) = a \<and> s_invalidations (sub_at w s) = i")
    case True
    then have r: "?r = 11" "rank_cb K (CbSubscribe s (c_generation (w_cl w)) a) < ?r"
      by (simp_all add: rank_defs rank_cb_def cur_defs at)
    have "pres (within K ?r c) (do {
        e \<leftarrow> sendSubscribe (subscribe_params (sub_at w s) tok) (CbSubscribe s (c_generation (w_cl w)) a);
        (case e of None \<Rightarrow> ret () | Some _ \<Rightarrow> do { end_inflight s; scheduleResubscribe s }) })"
      using r by (auto intro!: settle_intro)
    from presD[OF this w] have sent: "within K ?r c (after (do {
        e \<leftarrow> sendSubscribe (subscribe_params (sub_at w s) tok) (CbSubscribe s (c_generation (w_cl w)) a);
        (case e of None \<Rightarrow> ret () | Some _ \<Rightarrow> do { end_inflight s; scheduleResubscribe s }) }) w)" .
    have "within K ?r c (after (end_inflight s) w)" using w by (intro presD[OF within_sub_timers(6)])
    with sent True show ?thesis by (auto simp: sendSubscribeNow_def)
  next
    case False
    then have r: "?r = 17" by (auto simp: rank_defs cur_defs at)
    have "pres (within K ?r c) (do { end_inflight s; spawn [TSub (Resubscribe s)] })"
      "pres (within K ?r c) (end_inflight s)"
      using r by (auto simp: rank_defs intro!: settle_intro)
    from presD[OF this(1) w] presD[OF this(2) w] False show ?thesis
      by (auto simp: sendSubscribeNow_def)
  qed
  then show ?thesis by (simp add: lowers_def split_beta)
qed

lemma settles_enterSubscribed: "8 < r \<Longrightarrow> settles K r (enterSubscribed h s res pubs ds)"
  by (auto simp: enterSubscribed_def intro!: settle_intro)

lemma lowers_subscribed:
  assumes "counts w = K"
  shows "lowers K (rank_sub K (MoveToSubscribed s res g a)) (moveToSubscribed h s res g a) w"
proof -
  note at = counts_at(1)[OF assms, of s] counts_at(2)[OF assms]
  let ?r = "rank_sub K (MoveToSubscribed s res g a)"
  have enter: "pres (within K ?r c) (enterSubscribed h s res pubs ds)"
    "list_all (\<lambda>t. rank K t < ?r) (outcome (enterSubscribed h s res pubs ds) v)" for c pubs ds v
    using settles_enterSubscribed[of ?r K h s res pubs ds] by (auto simp: settles_def rank_defs)
  show ?thesis
  proof (rule lowersI)
    show "pres (within K ?r c) (moveToSubscribed h s res g a)" for c
      by (auto simp: moveToSubscribed_def intro!: settle_rules within_mods within_effects within_sub_timers enter)
    show "list_all (\<lambda>t. rank K t < ?r) (outcome (moveToSubscribed h s res g a) w)"
      using enter(2) by (auto simp: moveToSubscribed_def rank_defs cur_defs at split_beta split: option.split sum.split)
  qed
qed

section \<open>One step of a goroutine\<close>

text \<open>
  The reader and the goroutine that waits for pings are fed by the server for as long as the connection
  lasts; all the others are \<open>internal\<close>.
\<close>

definition internal :: "task \<Rightarrow> bool" where
  "internal t = (case t of
     TClient clt \<Rightarrow> (case clt of Reader tr ch \<Rightarrow> False | WaitServerPing tr ch p \<Rightarrow> False | _ \<Rightarrow> True)
   | _ \<Rightarrow> True)"

lemma lowers_connect: "lowers K (rank_connect t) (run_connect a h t) w"
  by (cases t) (auto simp: run_connect_def rank_connect_def intro!: settles_lowers lowers_unit settle_intro)

lemma lowers_client: "internal (TClient t) \<Longrightarrow> lowers K (rank_client t) (run_client a h t) w"
  by (cases t) (auto simp: run_client_def rank_client_def internal_def
      intro!: settles_lowers lowers_unit settle_intro)

lemma lowers_call: "(\<And>i ch. t \<noteq> AwaitReplyOn i ch) \<Longrightarrow> lowers K (rank_call K t) (run_call a t) w"
  by (cases t) (auto simp: run_call_def rank_call_def awaitReply_def
      intro!: settles_lowers lowers_unit settle_intro settles_runCallback split: option.split)

text \<open>The tasks that check whether their subscribe is still the current one.\<close>

definition checks_current :: "sub_task \<Rightarrow> bool" where
  "checks_current t = (case t of
     CallGetState s n i \<Rightarrow> True | CallGetSubToken s n i \<Rightarrow> True | GetStateFailed s n \<Rightarrow> True
   | SubscribeError s e n g \<Rightarrow> True | SubscribeErrorReported s e n g \<Rightarrow> True
   | SubscribeUnrecoverable s n g \<Rightarrow> True | GetState s \<Rightarrow> True | ContinueResubscribe s b \<Rightarrow> True
   | SendSubscribe s n i tok \<Rightarrow> True | MoveToSubscribed s res g n \<Rightarrow> True | _ \<Rightarrow> False)"

lemma settles_sub: "\<not> checks_current t \<Longrightarrow> settles K (rank_sub K t) (run_sub a h t)"
  by (cases t) (auto simp: checks_current_def run_sub_def subscribeAgain_def rank_sub_def intro!: settle_intro)

lemma lowers_checked:
  "counts w = K \<Longrightarrow> checks_current t \<Longrightarrow> lowers K (rank_sub K t) (run_sub a h t) w"
  by (cases t) (simp_all add: checks_current_def run_sub_def lowers_outdated lowers_begin lowers_send lowers_subscribed)

lemma lowers_sub: "counts w = K \<Longrightarrow> lowers K (rank_sub K t) (run_sub a h t) w"
  by (cases "checks_current t") (auto intro: lowers_checked settles_lowers settles_sub)

lemma lowers_run_task:
  assumes "counts w = K" "internal t" "\<And>i ch. t \<noteq> TCall (AwaitReplyOn i ch)" "outcome (run_task a h t) w \<noteq> [t]"
  shows "lowers K (rank K t) (run_task a h t) w"
proof (cases t)
  case (WaitEvent n)
  then show ?thesis using assms(4) by (auto simp: run_task_def lowers_def split: if_splits)
next
  case (WaitChan n)
  then show ?thesis using assms(4) by (auto simp: run_task_def lowers_def split: if_splits)
next
  case WaitQueueClosed
  then show ?thesis using assms(4) by (auto simp: run_task_def lowers_def split: if_splits)
qed (use assms lowers_connect lowers_client lowers_call lowers_sub in \<open>auto simp: run_task_def\<close>)

lemma below_less: "(\<And>n. n \<in># N \<Longrightarrow> n < r) \<Longrightarrow> N < {#r :: nat#}"
  by (rule ex_gt_imp_less_multiset) auto

text \<open>What a task leaves behind weighs less than the task.\<close>

lemma run_task_lowers:
  assumes "counts w = K" "internal t" "outcome (run_task a h t) w \<noteq> [t]"
  shows "work K (after (run_task a h t) w) + ranks K (outcome (run_task a h t) w) < work K w + {#rank K t#}"
proof (cases "\<exists>i ch. t = TCall (AwaitReplyOn i ch)")
  case True
  then obtain i ch where t: "t = TCall (AwaitReplyOn i ch)" by blast
  have pop: "work K (after (popAndFail i e) w) + ranks K (outcome (popAndFail i e) w) \<le> work K w" for e
    using work_popRequest[of K i w]
    by (auto simp: popAndFail_def split_beta rank_call_def rank_reply_def split: option.splits
        intro: subset_eq_imp_le_multiset)
  have "\<exists>e. run_state (run_task a h t) w = run_state (popAndFail i e) w"
    using assms(3) by (auto simp: t run_task_def run_call_def awaitReplyOn_def split: if_splits option.splits)
  then obtain e where "run_state (run_task a h t) w = run_state (popAndFail i e) w" by blast
  then have "work K (after (run_task a h t) w) + ranks K (outcome (run_task a h t) w) \<le> work K w"
    using pop[of e] by simp
  also have "\<dots> < work K w + {#rank K t#}" by simp
  finally show ?thesis .
next
  case False
  then have low: "lowers K (rank K t) (run_task a h t) w" using assms by (intro lowers_run_task) auto
  have "within K (rank K t) (work K w) w" by (auto simp: within_def intro: exI[of _ "{#}"])
  then obtain N where N: "work K (after (run_task a h t) w) \<le> work K w + N" "\<forall>n \<in># N. n < rank K t"
    using low unfolding lowers_def within_def by blast
  have "N + ranks K (outcome (run_task a h t) w) < {#rank K t#}"
    using N(2) low by (intro below_less) (auto simp: lowers_def ranks_def list_all_iff)
  then have "work K w + (N + ranks K (outcome (run_task a h t) w)) < work K w + {#rank K t#}" by simp
  moreover have "work K (after (run_task a h t) w) + ranks K (outcome (run_task a h t) w)
      \<le> work K w + (N + ranks K (outcome (run_task a h t) w))"
    using add_right_mono[OF N(1)] by (simp add: add.assoc)
  ultimately show ?thesis by (rule le_less_trans[rotated])
qed

section \<open>Property\<close>

text \<open>
  A step of an internal goroutine that does something: what it waited for has happened, and the
  counters of the subscriptions and of the connection stay.
\<close>

definition settling_step :: "world \<Rightarrow> world \<Rightarrow> bool" where
  "settling_step w w' \<longleftrightarrow> (\<exists>a i h t ts. outcome (take_task i) w = Some (h, t, ts) \<and> internal t
     \<and> outcome (run_task a h t) (after (take_task i) w) \<noteq> [t]
     \<and> w' = after (act (ThreadStep a i)) w \<and> counts w' = counts w)"

lemma work_take_task:
  assumes "outcome (take_task i) w = Some (h, t, ts)"
  shows "work K w = work K (after (take_task i) w) + ranks K (t # ts)" "counts (after (take_task i) w) = counts w"
proof -
  have i: "i < length (w_threads w)" "w_threads w ! i = (h, t # ts)"
    using assms by (auto simp: take_task_def split: if_splits prod.splits list.splits)
  then have run: "after (take_task i) w = w\<lparr>w_threads := take i (w_threads w) @ drop (Suc i) (w_threads w)\<rparr>"
    by (simp add: take_task_def)
  have ths: "w_threads w = take i (w_threads w) @ (h, t # ts) # drop (Suc i) (w_threads w)"
    using i id_take_nth_drop[of i "w_threads w"] by simp
  have "ranks K (concat (map snd (w_threads w)))
      = ranks K (concat (map snd (take i (w_threads w) @ drop (Suc i) (w_threads w)))) + ranks K (t # ts)"
    by (subst ths) simp
  then show "work K w = work K (after (take_task i) w) + ranks K (t # ts)" unfolding run by (simp add: work_def)
  show "counts (after (take_task i) w) = counts w" unfolding run by (simp add: counts_def sub_at_def)
qed

lemma settling_work:
  assumes "settling_step w w'"
  shows "work (counts w') w' < work (counts w) w"
proof -
  obtain a i h t ts where s: "outcome (take_task i) w = Some (h, t, ts)" "internal t"
      "outcome (run_task a h t) (after (take_task i) w) \<noteq> [t]"
      "w' = after (act (ThreadStep a i)) w" "counts w' = counts w"
    using assms by (auto simp: settling_step_def)
  let ?w = "after (take_task i) w" and ?K = "counts w"
  note tk = work_take_task[OF s(1)]
  let ?new = "outcome (run_task a h t) ?w"
  have w': "w' = after (put_tasks h (?new @ ts)) (after (run_task a h t) ?w)"
    using s(1,4) by (simp add: act_def thread_step_def split_beta)
  have "work ?K w' = work ?K (after (run_task a h t) ?w) + ranks ?K ?new + ranks ?K ts"
    unfolding w' by (simp add: put_tasks_def work_def)
  also have "\<dots> < work ?K ?w + {#rank ?K t#} + ranks ?K ts"
    using run_task_lowers[OF tk(2) s(2,3)] by simp
  also have "\<dots> = work ?K w" using tk(1)[of ?K] by simp
  finally show ?thesis using s(5) by simp
qed

text \<open>
  C4: the goroutines of the client settle. Whatever they have begun (teardowns, subscribes that
  find themselves outdated and begin again, failed requests that disconnect, token requests), and in
  whatever order they run, there is no infinite run of steps in which the counters of attempts,
  invalidations and sessions stay the same and nothing comes from outside: no call, no timer, no event
  handler, no message of the server. No failure is retried except through a timer.
\<close>

theorem goroutines_settle: "wf {(w', w). settling_step w w'}"
proof (rule wf_subset)
  show "wf (inv_image {(M, N :: nat multiset). M < N} (\<lambda>w. work (counts w) w))"
    by (intro wf_inv_image wf)
  show "{(w', w). settling_step w w'} \<subseteq> inv_image {(M, N). M < N} (\<lambda>w. work (counts w) w)"
    using settling_work by auto
qed

text \<open>There are such steps: the first segment of the goroutine of \<open>Connect\<close> is one.\<close>

definition settle_start :: world where
  "settle_start = after (act (Api False ApiConnect)) demo_start"

definition settle_ok :: bool where
  "settle_ok \<longleftrightarrow> outcome (take_task 0) settle_start = Some (False, TConnect (StartConnecting (Some 0)), [])
     \<and> outcome (run_task demo_answers False (TConnect (StartConnecting (Some 0)))) (after (take_task 0) settle_start)
         = [TConnect (StartReconnectingIf (Some 0) (Some 0))]
     \<and> w_heap settle_start = [] \<and> w_heap (after (act (ThreadStep demo_answers 0)) settle_start) = []
     \<and> c_generation (w_cl settle_start) = c_generation (w_cl (after (act (ThreadStep demo_answers 0)) settle_start))"

lemma settle_ok: settle_ok
  by code_simp

lemma settling_step_connect: "settling_step settle_start (after (act (ThreadStep demo_answers 0)) settle_start)"
  unfolding settling_step_def
proof (intro exI conjI)
  show "outcome (take_task 0) settle_start = Some (False, TConnect (StartConnecting (Some 0)), [])"
    "outcome (run_task demo_answers False (TConnect (StartConnecting (Some 0)))) (after (take_task 0) settle_start)
       \<noteq> [TConnect (StartConnecting (Some 0))]"
    "counts (after (act (ThreadStep demo_answers 0)) settle_start) = counts settle_start"
    using settle_ok by (simp_all add: settle_ok_def counts_def sub_at_def)
qed (simp_all add: internal_def)

end
