(* ===== verification/Watched.thy ===== *)
theory Watched
  imports Progress
begin

text \<open>
  Every request that is waiting for its reply is watched: a goroutine waits for the reply, with a
  timeout, and fails the request when it runs out or the connection is closed.
\<close>

section \<open>Watched requests\<close>

definition watched :: "task list \<Rightarrow> world \<Rightarrow> bool" where
  "watched us w \<longleftrightarrow> (\<forall>i q. gm_get (c_requests (w_cl w)) i = Some q \<longrightarrow> Inr i \<in> support us w)"

lemma watched_frame:
  assumes "watched us w" "\<And>i q. gm_get (c_requests (w_cl w')) i = Some q \<Longrightarrow> gm_get (c_requests (w_cl w)) i \<noteq> None"
    "support us w \<subseteq> support us' w'"
  shows "watched us' w'"
  using assms unfolding watched_def by blast

lemma watched_same:
  "watched us w \<Longrightarrow> c_requests (w_cl w') = c_requests (w_cl w) \<Longrightarrow> tasks_of w \<subseteq> tasks_of w' \<Longrightarrow> watched us w'"
  by (erule watched_frame) (auto simp: support_mono)

lemma watched_modc: "(\<And>c. c_requests (f c) = c_requests c \<or> c_requests (f c) = []) \<Longrightarrow> pres (watched us) (modc f)"
proof (rule presI)
  fix w assume f: "\<And>c. c_requests (f c) = c_requests c \<or> c_requests (f c) = []" and w: "watched us w"
  show "watched us (after (modc f) w)"
    using w by (rule watched_frame) (use f[of "w_cl w"] in \<open>auto simp: modc_def support_def tasks_of_def gm_get_def\<close>)
qed

lemma watched_mods: "pres (watched us) (mods s f)"
  by (auto simp: pres_def mods_def tasks_of_def intro: watched_same)

lemma watched_keeps: "keeps (\<lambda>w. (c_requests (w_cl w), w_threads w)) m \<Longrightarrow> pres (watched us) m"
  by (auto simp: pres_def keeps_def tasks_of_def intro: watched_same)

lemma watched_timers:
  "pres (watched us) (stop_timer t)" "pres (watched us) (after_func d tm)"
  by (rule watched_keeps, auto simp: keeps_def stop_timer_def after_func_def fresh_def split_beta split: option.split)+

lemma watched_spawn: "pres (watched us) (spawn ts)"
  by (auto simp: pres_def spawn_def tasks_of_def intro: watched_same)

section \<open>Sending\<close>

lemma popped_request: "gm_get (c_requests (w_cl (after (popRequest i) w))) i = None"
  by (simp add: popRequest_def modc_def split_beta gm.pop_del)

lemma sendAsyncOn_requests:
  assumes "gm_get (c_requests (w_cl (after (sendAsyncOn t cmd cb) w))) j = Some q"
  shows "gm_get (c_requests (w_cl w)) j \<noteq> None \<or> j = cmd_id cmd \<and> outcome (sendAsyncOn t cmd cb) w = None"
proof -
  let ?i = "cmd_id cmd"
  obtain a where a: "a = after (addRequest ?i (replyResultOf cmd) cb) w" by blast
  obtain r b where b: "run_state (case t of Some t \<Rightarrow> sendOn t cmd | None \<Rightarrow> send cmd) a = (r, b)" by fastforce
  have "wrote a b" using send_wrote[where w = a and t = t and cmd = cmd] b by simp
  then have ab: "w_cl b = w_cl a" by (simp add: wrote_def)
  have run: "run_state (sendAsyncOn t cmd cb) w = (case r of
      Some e \<Rightarrow> (case outcome (popRequest ?i) b of None \<Rightarrow> None | Some _ \<Rightarrow> Some e, after (popRequest ?i) b)
    | None \<Rightarrow> (None, after (spawn [TCall (AwaitReply ?i)]) b))"
    using b by (auto simp: sendAsyncOn_def split_beta a split: option.split)
  show ?thesis
  proof (cases "j = ?i")
    case True
    then have "r = None" using assms run popped_request[of ?i b] by (cases r) simp_all
    then show ?thesis using True run by simp
  next
    case False
    then have "gm_get (c_requests (w_cl b)) j = Some q"
      using assms run pop_requests(1)[OF False, of b] by (cases r) (simp_all add: spawn_def)
    then show ?thesis using False add_requests(4)[OF False] ab by (simp add: a)
  qed
qed

lemma watched_sendAsyncOn: "pres (watched us) (sendAsyncOn t cmd cb)"
proof (rule presI)
  fix w assume w: "watched us w"
  let ?w = "after (sendAsyncOn t cmd cb) w"
  note eff = sendAsyncOn_effect[OF refl, where t = t and cmd = cmd and cb = cb and w = w]
  have old: "gm_get (c_requests (w_cl w)) j \<noteq> None \<Longrightarrow> Inr j \<in> support us ?w" for j
    using w eff(4) support_mono[of us us w ?w] unfolding watched_def by auto
  have new: "Inr (cmd_id cmd) \<in> support us ?w" if "outcome (sendAsyncOn t cmd cb) w = None"
    using eff(6)[OF that] by (force simp: support_def)
  show "watched us ?w"
    unfolding watched_def
  proof (intro allI impI)
    fix j q assume "gm_get (c_requests (w_cl ?w)) j = Some q"
    from sendAsyncOn_requests[OF this] show "Inr j \<in> support us ?w" using old new by auto
  qed
qed

lemma watched_onConnect: "pres (watched us) (onConnect k oper)"
  by (auto simp: pres_def onConnect_def nextFutureID_def modc_def spawn_def split_beta tasks_of_def
      split: cstate.split intro: watched_same)

lemma watched_sub_timers:
  "pres (watched us) (stop_sub_timers s)" "pres (watched us) (scheduleResubscribe s)" "pres (watched us) (arm_sub_refresh s ttl)"
  by (auto simp: stop_sub_timers_def scheduleResubscribe_def arm_sub_refresh_def
      intro!: steady_rules watched_mods watched_timers)

interpretation watched: steady_core "watched us" for us
proof
  show "watched us w'" if "watched us w" "grows w w'" for us w w'
    by (rule watched_same[OF that(1)]) (use that(2) in \<open>simp_all add: grows_def wview_def\<close>)
  show "pres (watched us) (sendAsync cmd cb)" for us cmd cb unfolding sendAsync_def by (rule watched_sendAsyncOn)
qed (auto simp: cview_def tasks_of_def watched_sub_timers watched_onConnect intro: watched_same)

declare watched.steady_modc [steady_intro del] watched.steady_mods [steady_intro del]

lemmas watched_intro [steady_intro] = watched_modc watched_mods watched_timers watched_spawn watched_sendAsyncOn
  watched_sub_timers(1)

section \<open>Transitions\<close>

lemma watched_new: "watched us w \<Longrightarrow> watched us (after (NewSubscription ch cfg) w)"
  by (erule watched_same) (auto simp: NewSubscription_def modc_def split_beta tasks_of_def)

lemma watched_moves [steady_intro]:
  "pres (watched us) (updateSubscriptionPushID s x y)"
  "pres (watched us) (moveToUnsubscribedLocked s c r e)" "pres (watched us) (moveToSubscribingLocked s c r)"
  "pres (watched us) (subscribeStart s k)" "pres (watched us) (invalidateState s)"
  "pres (watched us) (enterSubscribed h s res pubs ds)" "pres (watched us) (removeEntry s k)"
  by (auto simp: updateSubscriptionPushID_def moveToUnsubscribedLocked_def moveToSubscribingLocked_def
      subscribeStart_def invalidateState_def enterSubscribed_def removeEntry_def intro!: steady_intro)

lemma watched_subscribed [steady_intro]: "pres (watched us) (moveToSubscribed h s res g a)"
  by (auto simp: moveToSubscribed_def intro!: steady_intro)

lemma watched_teardown [steady_intro]:
  "pres (watched us) clearConnectedState" "pres (watched us) drop_transport"
  "pres (watched us) (setStateLocked st)" "pres (watched us) (setTransportLocked t)"
  "pres (watched us) subs_to_subscribing" "pres (watched us) scheduleReconnectLocked"
  "pres (watched us) (scheduleRefreshLocked d)"
  by (auto simp: clearConnectedState_def drop_transport_def setStateLocked_def setTransportLocked_def
      subs_to_subscribing_def scheduleReconnectLocked_def scheduleRefreshLocked_def intro!: steady_intro)

lemma watched_client [steady_intro]:
  "pres (watched us) (disconnect_now c r)" "pres (watched us) (reconnect_now h c r)"
  "pres (watched us) (retry_connecting t)" "pres (watched us) close_now"
  by (auto simp: disconnect_now_def reconnect_now_def retry_connecting_def close_now_def intro!: steady_intro)

lemma watched_transitions [steady_intro]:
  "pres (watched us) (moveToDisconnectedIf current c r)" "pres (watched us) (moveToConnectingFrom h t c r)"
  "pres (watched us) (closeCall k)" "pres (watched us) (startConnecting h cl)" "pres (watched us) (startReconnectingIf ex cl)"
  by (auto simp: moveToDisconnectedIf_def moveToConnectingFrom_def closeCall_def startConnecting_def
      startReconnectingIf_def intro!: steady_intro)

lemma watched_sendConnect [steady_intro]: "pres (watched us) (sendConnect t cb)"
  unfolding sendConnect_def by (auto intro!: steady_intro)

lemma watched_attempts [steady_intro]:
  "pres (watched us) (dialed h m tr cl)" "pres (watched us) (connectFailed m tr tok e)"
  "pres (watched us) (connectOk h m tr dch cres)" "pres (watched us) (connectingReported m)"
  "pres (watched us) (scheduleIfCurrent m cl e)" "pres (watched us) (connectFailedClosed m tok e)"
  "pres (watched us) (handleRefreshError gen)" "pres (watched us) (disconnect_refresh gen c r)"
  by (auto simp: dialed_def connectFailed_def connectOk_def connectingReported_def scheduleIfCurrent_def
      connectFailedClosed_def handleRefreshError_def disconnect_refresh_def intro!: steady_intro)

lemma watched_refreshReply [steady_intro]: "pres (watched us) (refreshReply h gen x)"
  by (auto simp: refreshReply_def intro!: steady_intro)

interpretation watched: steady_turns "watched us" for us
  by unfold_locales (simp_all add: watched_new watched_moves watched_transitions watched_attempts watched_refreshReply)

section \<open>Taking a request\<close>

lemma watched_popRequest: "pres (watched us) (popRequest i)"
proof (rule presI)
  fix w assume w: "watched us w"
  have "w_threads (after (popRequest i) w) = w_threads w" by (simp add: popRequest_def modc_def split_beta)
  then have "support us (after (popRequest i) w) = support us w" by (simp add: support_def tasks_of_def)
  moreover have "gm_get (c_requests (w_cl w)) j \<noteq> None" if "gm_get (c_requests (w_cl (after (popRequest i) w))) j = Some q" for j q
    using that pop_requests(1)[of j i w] popped_request[of i w] by (cases "j = i") auto
  ultimately show "watched us (after (popRequest i) w)" by (intro watched_frame[OF w]) auto
qed

lemma watched_reader [steady_intro]: "pres (watched us) (reader rd t ch)"
  by (auto simp: reader_def handle_def handleReply_def intro!: steady_intro watched_popRequest split: read_result.split)

lemma watched_more: "watched us w \<Longrightarrow> watched (ts @ us) w"
  by (erule watched_frame) (auto simp: support_def)

lemma watched_drop: "watched (t # us) w \<Longrightarrow> (\<And>i. Inr i \<notin> supports t) \<Longrightarrow> watched us w"
  by (auto simp: watched_def support_def)

text \<open>Only the goroutine that waits for a reply matters, and it takes the request when it gives up.\<close>

lemma watched_awaitReplyOn:
  assumes w: "watched (TCall (AwaitReplyOn i ch) # us) w"
  shows "watched (outcome (awaitReplyOn b i ch) w @ us) (after (awaitReplyOn b i ch) w)"
proof -
  let ?w = "after (popRequest i) w"
  have "watched (TCall (AwaitReplyOn i ch) # us) ?w" by (rule presD[OF watched_popRequest w])
  then have "watched us ?w" using popped_request[of i w] unfolding watched_def support_def by fastforce
  then have "watched (outcome (popAndFail i e) w @ us) (after (popAndFail i e) w)" for e
    using watched_more[of us ?w "[TCall (RunCallback (rq_cb q) (Inl e))]" for q]
    by (auto simp: popAndFail_def split_beta split: option.split)
  then show ?thesis using w by (auto simp: awaitReplyOn_def)
qed

lemma supports_request: "Inr i \<in> supports t \<longleftrightarrow> t = TCall (AwaitReply i) \<or> (\<exists>ch. t = TCall (AwaitReplyOn i ch))"
  by (auto simp: supports_def split: task.split call_task.split client_task.split)

lemma watched_run_task:
  assumes w: "watched (t # us) w"
  shows "watched (outcome (run_task a h t) w @ us) (after (run_task a h t) w)"
proof -
  consider i where "t = TCall (AwaitReply i)" | i ch where "t = TCall (AwaitReplyOn i ch)"
    | "\<And>i. Inr i \<notin> supports t"
    using supports_request[of _ t] by blast
  then show ?thesis
  proof cases
    case 1
    have "watched (TCall (AwaitReplyOn i ch) # us) w" for ch using w by (simp add: 1 watched_def support_def)
    then show ?thesis by (simp add: 1 run_task_def run_call_def awaitReply_def)
  next
    case 2
    then show ?thesis using w watched_awaitReplyOn by (simp add: run_task_def run_call_def)
  next
    case 3
    have "pres (watched us) (run_task a h t)"
    proof (cases "special t")
      case True
      have "t \<noteq> TCall (AwaitReplyOn i ch)" for i ch using 3[of i] by auto
      with True show ?thesis
        by (auto simp: special_def run_task_def run_connect_def run_client_def run_call_def run_sub_def subscribeAgain_def
            intro!: steady_intro split: task.splits connect_task.splits client_task.splits call_task.splits sub_task.splits)
    qed (rule watched.steady_ordinary)
    from presD[OF this watched_drop[OF w 3]] show ?thesis by (rule watched_more)
  qed
qed

section \<open>Every state\<close>

lemma watched_hand_over:
  "watched us w \<Longrightarrow> wview w' = wview w \<Longrightarrow> set us \<union> tasks_of w \<subseteq> set us' \<union> tasks_of w' \<Longrightarrow> watched us' w'"
  by (erule watched_frame) (auto simp: wview_def support_def)

lemma watched_fire: "pres (watched us) (fire_timer n)"
  by (auto simp: pres_def fire_timer_def spawn_def tasks_of_def split: option.split intro: watched_same)

lemma watched_init: "client_init w \<Longrightarrow> watched us w"
  by (auto simp: client_init_def initial_world_def newClient_def Let_def watched_def gm_get_def)

interpretation watching: follows watched "\<lambda>_ _. True"
  by unfold_locales
    (simp_all add: watched_hand_over watched_run_task watched_init watched_fire watched.steady_api_step
      watched.steady_dispatcher)

lemma request_watched:
  assumes "reachable w" "gm_get (c_requests (w_cl w)) i = Some q"
  shows "\<exists>th \<in> set (w_threads w). \<exists>t \<in> set (snd th). Inr i \<in> supports t"
  using watching.all.invariant[OF assms(1)] assms(2) by (auto simp: watched_def support_def tasks_of_def)

end
