(* ===== verification/Underway.thy ===== *)
theory Underway
  imports Watched Tokens Lifecycle Sessions
begin

text \<open>
  A subscription that is subscribing while the client is connected is never stuck: a goroutine goes on
  with its subscribe, its subscribe command waits for the reply, or the timer of the next try is armed.
\<close>

section \<open>What takes a subscribe further\<close>

text \<open>
  \<open>serves s n t\<close>: task \<open>t\<close> goes on with a subscribe of \<open>s\<close>, while \<open>n\<close> is the number of the connect
  attempt. The goroutine that handles a connect reply subscribes all registered subscriptions at its
  end, and one that is about to end the connection serves every subscription, which then waits for the
  next connection.
\<close>

definition serves_sub :: "sid \<Rightarrow> sub_task \<Rightarrow> bool" where
  "serves_sub s t = (case t of
     SubscribeConnected s' k \<Rightarrow> s' = s | Resubscribe s' \<Rightarrow> s' = s | GetState s' \<Rightarrow> s' = s
   | CallGetState s' a i \<Rightarrow> s' = s | GetStateFailed s' a \<Rightarrow> s' = s | ContinueResubscribe s' b \<Rightarrow> s' = s
   | CallGetSubToken s' a i \<Rightarrow> s' = s | SendSubscribe s' a i tok \<Rightarrow> s' = s
   | SubscribeError s' e a g \<Rightarrow> s' = s | SubscribeUnrecoverable s' a g \<Rightarrow> s' = s
   | SubscribeErrorReported s' e a g \<Rightarrow> s' = s | MoveToSubscribed s' res g a \<Rightarrow> s' = s
   | DeltaFailed s' off e \<Rightarrow> s' = s | _ \<Rightarrow> False)"

definition carrying :: "sid \<Rightarrow> callback \<Rightarrow> bool" where
  "carrying s cb = (case cb of CbSubscribe s' g a \<Rightarrow> s' = s | _ \<Rightarrow> False)"

definition serves :: "sid \<Rightarrow> nat \<Rightarrow> task \<Rightarrow> bool" where
  "serves s n t = (case t of
     TSub st \<Rightarrow> serves_sub s st
   | TCall ct \<Rightarrow> (case ct of RunCallback cb r \<Rightarrow> carrying s cb | _ \<Rightarrow> False)
   | TConnect ct \<Rightarrow> (case ct of
         ConnectSubs m tr ch res rest \<Rightarrow> m = n | ConnectUnsubs m tr ch res \<Rightarrow> m = n
       | ConnectDone m tr ch res \<Rightarrow> m = n | _ \<Rightarrow> False)
   | TClient clt \<Rightarrow> (case clt of
         MoveToDisconnected c r \<Rightarrow> True | MoveToDisconnectedFrom tr c r \<Rightarrow> tr = None
       | MoveToConnectingFrom tr c r \<Rightarrow> tr = None | HandleTransportDisconnect tr d \<Rightarrow> tr = None | _ \<Rightarrow> False)
   | _ \<Rightarrow> False)"

definition served :: "sid \<Rightarrow> task list \<Rightarrow> world \<Rightarrow> bool" where
  "served s us w \<longleftrightarrow> (\<exists>t \<in> set us \<union> tasks_of w. serves s (c_attempt (w_cl w)) t)"

definition requested :: "sid \<Rightarrow> world \<Rightarrow> bool" where
  "requested s w \<longleftrightarrow> (\<exists>i q. gm_get (c_requests (w_cl w)) i = Some q \<and> carrying s (rq_cb q))
     \<or> (\<exists>cb \<in> set (w_lost w). carrying s cb)"

definition resub_armed :: "sid \<Rightarrow> world \<Rightarrow> bool" where
  "resub_armed s w \<longleftrightarrow> (\<exists>m d. s_resubscribe_timer (sub_at w s) = Some m \<and> gm_get (w_timers w) m = Some (TmResubscribe s, d))"

text \<open>A registered subscription of a connected client that is subscribing.\<close>

definition wanting :: "sid \<Rightarrow> world \<Rightarrow> bool" where
  "wanting s w \<longleftrightarrow> c_state (w_cl w) = StateConnected \<and> s \<in> set (gm_vals (c_subs (w_cl w)))
     \<and> s_state (sub_at w s) = SubStateSubscribing"

definition underway :: "sid \<Rightarrow> task list \<Rightarrow> world \<Rightarrow> bool" where
  "underway s us w \<longleftrightarrow> typed w \<and> (wanting s w \<longrightarrow> served s us w \<or> requested s w \<or> resub_armed s w)"

lemma serves_simps [simp]:
  "serves s n (TSub st) = serves_sub s st" "serves s n (TCall (RunCallback cb x)) = carrying s cb"
  "serves s n (TConnect (ConnectSubs m tr ch res rest)) \<longleftrightarrow> m = n"
  "serves s n (TConnect (ConnectUnsubs m tr ch res)) \<longleftrightarrow> m = n"
  "serves s n (TConnect (ConnectDone m tr ch res)) \<longleftrightarrow> m = n"
  "serves s n (TClient (MoveToDisconnected c r))" "serves s n (TClient (MoveToDisconnectedFrom tr' c r)) \<longleftrightarrow> tr' = None"
  "serves s n (TClient (MoveToConnectingFrom tr' c r)) \<longleftrightarrow> tr' = None"
  "serves s n (TClient (HandleTransportDisconnect tr' d)) \<longleftrightarrow> tr' = None"
  by (simp_all add: serves_def)

section \<open>Frames\<close>

lemma underway_typed: "underway s us w \<Longrightarrow> typed w"
  by (simp add: underway_def)

lemma underway_off: "typed w \<Longrightarrow> \<not> wanting s w \<Longrightarrow> underway s us w"
  by (simp add: underway_def)

lemma underway_by_task: "typed w \<Longrightarrow> t \<in> set us \<union> tasks_of w \<Longrightarrow> serves s (c_attempt (w_cl w)) t \<Longrightarrow> underway s us w"
  by (auto simp: underway_def served_def)

lemma underway_armed: "typed w \<Longrightarrow> resub_armed s w \<Longrightarrow> underway s us w"
  by (simp add: underway_def)

lemma requested_keeps: "keeps_requests w w' \<Longrightarrow> requested s w \<Longrightarrow> requested s w'"
  unfolding requested_def keeps_requests_def by (meson subsetD)

lemma underway_frame:
  assumes "underway s us w" "typed w'" "wanting s w' \<Longrightarrow> wanting s w \<and> c_attempt (w_cl w') = c_attempt (w_cl w)"
    "set us \<union> tasks_of w \<subseteq> set us' \<union> tasks_of w'" "requested s w \<Longrightarrow> requested s w'"
    "resub_armed s w \<Longrightarrow> resub_armed s w'"
  shows "underway s us' w'"
  unfolding underway_def
proof (intro conjI impI)
  assume w': "wanting s w'"
  then consider "served s us w" | "requested s w" | "resub_armed s w" using assms(1,3) by (auto simp: underway_def)
  then show "served s us' w' \<or> requested s w' \<or> resub_armed s w'"
  proof cases
    case 1
    then have "served s us' w'" using assms(3)[OF w'] assms(4) unfolding served_def by auto
    then show ?thesis by blast
  qed (use assms in auto)
qed (rule assms(2))

lemma wanting_same:
  "c_state (w_cl w') = c_state (w_cl w) \<Longrightarrow> c_subs (w_cl w') = c_subs (w_cl w) \<Longrightarrow> sub_at w' s = sub_at w s
    \<Longrightarrow> wanting s w' = wanting s w"
  by (simp add: wanting_def)

lemma requested_same: "c_requests (w_cl w') = c_requests (w_cl w) \<Longrightarrow> w_lost w' = w_lost w \<Longrightarrow> requested s w' = requested s w"
  by (simp add: requested_def)

lemma armed_same:
  "w_timers w' = w_timers w \<Longrightarrow> s_resubscribe_timer (sub_at w' s) = s_resubscribe_timer (sub_at w s)
    \<Longrightarrow> resub_armed s w' = resub_armed s w"
  by (simp add: resub_armed_def)

text \<open>What most effects leave alone.\<close>

lemma underway_same:
  assumes "underway s us w" "typed w'" "c_state (w_cl w') = c_state (w_cl w)" "c_attempt (w_cl w') = c_attempt (w_cl w)"
    "c_subs (w_cl w') = c_subs (w_cl w)" "sub_at w' s = sub_at w s" "w_timers w' = w_timers w"
    "c_requests (w_cl w') = c_requests (w_cl w)" "w_lost w' = w_lost w" "tasks_of w \<subseteq> tasks_of w'"
  shows "underway s us w'"
  by (rule underway_frame[OF assms(1,2)]) (use assms in \<open>auto simp: wanting_def requested_def resub_armed_def\<close>)

lemma underway_modc:
  assumes "\<And>c. c_state (f c) = c_state c" "\<And>c. c_attempt (f c) = c_attempt c" "\<And>c. c_requests (f c) = c_requests c"
    "\<And>c. set (gm_vals (c_subs (f c))) \<subseteq> set (gm_vals (c_subs c))"
    "\<And>c. c_reconnect_timer (f c) = c_reconnect_timer c \<or> c_reconnect_timer (f c) = None"
    "\<And>c. c_refresh_timer (f c) = c_refresh_timer c \<or> c_refresh_timer (f c) = None"
  shows "pres (underway s us) (modc f)"
proof (rule presI)
  fix w assume w: "underway s us w"
  have "typed (after (modc f) w)" by (rule presD[OF typed_modc]) (use assms w in \<open>simp_all add: underway_def\<close>)
  then show "underway s us (after (modc f) w)"
    by (rule underway_frame[OF w])
       (use assms(4)[of "w_cl w"] in \<open>auto simp: assms(1-3) modc_def wanting_def requested_def resub_armed_def sub_at_def tasks_of_def\<close>)
qed

lemma underway_mods:
  assumes "\<And>x. s_resubscribe_timer (f x) = s_resubscribe_timer x \<or> s' \<noteq> s \<and> s_resubscribe_timer (f x) = None"
    "\<And>x. s_refresh_timer (f x) = s_refresh_timer x \<or> s_refresh_timer (f x) = None"
    "\<And>x. s' = s \<Longrightarrow> s_state (f x) = SubStateSubscribing \<Longrightarrow> s_state x = SubStateSubscribing"
  shows "pres (underway s us) (mods s' f)"
proof (rule presI)
  fix w assume w: "underway s us w"
  have "typed (after (mods s' f) w)" 
    by (rule presD[where I = typed, OF _ underway_typed[OF w]], rule typed_mods) (metis assms(1), metis assms(2))
  moreover have at: "sub_at (after (mods s' f) w) s = (if s' = s then f (sub_at w s) else sub_at w s)"
    and rest: "w_cl (after (mods s' f) w) = w_cl w" "w_timers (after (mods s' f) w) = w_timers w"
      "w_lost (after (mods s' f) w) = w_lost w" "w_threads (after (mods s' f) w) = w_threads w"
    by (simp_all add: mods_def)
  moreover have "wanting s w" if "wanting s (after (mods s' f) w)"
    using that assms(3)[of "sub_at w s"] unfolding wanting_def at rest by (simp split: if_splits)
  moreover have "s_resubscribe_timer (sub_at (after (mods s' f) w) s) = s_resubscribe_timer (sub_at w s)"
    unfolding at using assms(1)[of "sub_at w s"] by auto
  ultimately show "underway s us (after (mods s' f) w)"
    by (intro underway_frame[OF w]) (simp_all add: requested_def resub_armed_def tasks_of_def)
qed

text \<open>Timers: stopping one that is not the subscription's own.\<close>

lemma underway_stop:
  assumes "underway s us w" "names w t P" "\<not> P (TmResubscribe s)"
  shows "underway s us (after (stop_timer t) w)"
proof -
  have ty: "typed (after (stop_timer t) w)" using assms(1) presD[OF typed_stop] by (simp add: underway_def)
  have armed: "resub_armed s (after (stop_timer t) w)" if a: "resub_armed s w"
  proof -
    obtain m d where m: "s_resubscribe_timer (sub_at w s) = Some m" "gm_get (w_timers w) m = Some (TmResubscribe s, d)"
      using a by (auto simp: resub_armed_def)
    then have "t \<noteq> Some m" using assms(2,3) by (auto simp: names_def)
    then show ?thesis using m by (auto simp: resub_armed_def stop_timer_def split: option.split)
  qed
  show ?thesis
    by (rule underway_frame[OF assms(1) ty _ _ _ armed])
       (auto simp: wanting_def requested_def stop_timer_def tasks_of_def split: option.splits)
qed

lemma underway_stops:
  "pres (underway s us) (getc c_refresh_timer \<bind> stop_timer)" "pres (underway s us) (getc c_reconnect_timer \<bind> stop_timer)"
  "pres (underway s us) (gets_of s' s_refresh_timer \<bind> stop_timer)"
  "s' \<noteq> s \<Longrightarrow> pres (underway s us) (gets_of s' s_resubscribe_timer \<bind> stop_timer)"
proof -
  have own: "underway s us w \<Longrightarrow> names w (c_refresh_timer (w_cl w)) refresh_timer"
    "underway s us w \<Longrightarrow> names w (c_reconnect_timer (w_cl w)) (\<lambda>tm. tm = TmReconnect)"
    "underway s us w \<Longrightarrow> names w (s_refresh_timer (sub_at w s')) (sub_refresh_timer s')"
    "underway s us w \<Longrightarrow> names w (s_resubscribe_timer (sub_at w s')) (\<lambda>tm. tm = TmResubscribe s')" for w
    by (simp_all add: underway_def typed_def)
  have other: "\<not> refresh_timer (TmResubscribe s)" "\<not> TmResubscribe s = TmReconnect" "\<not> sub_refresh_timer s' (TmResubscribe s)"
    by (simp_all add: refresh_timer_def sub_refresh_timer_def)
  show "pres (underway s us) (getc c_refresh_timer \<bind> stop_timer)" "pres (underway s us) (getc c_reconnect_timer \<bind> stop_timer)"
    "pres (underway s us) (gets_of s' s_refresh_timer \<bind> stop_timer)"
    using underway_stop[OF _ own(1) other(1)] underway_stop[OF _ own(2) other(2)] underway_stop[OF _ own(3) other(3)]
    by (simp_all add: pres_def)
  show "s' \<noteq> s \<Longrightarrow> pres (underway s us) (gets_of s' s_resubscribe_timer \<bind> stop_timer)"
    using underway_stop[OF _ own(4)] by (simp add: pres_def)
qed

lemma underway_stops_then:
  assumes "\<And>u. pres (underway s us) (k u)"
  shows "pres (underway s us) (getc c_refresh_timer \<bind> (\<lambda>t. stop_timer t \<bind> k))"
    "pres (underway s us) (getc c_reconnect_timer \<bind> (\<lambda>t. stop_timer t \<bind> k))"
    "pres (underway s us) (gets_of s' s_refresh_timer \<bind> (\<lambda>t. stop_timer t \<bind> k))"
    "s' \<noteq> s \<Longrightarrow> pres (underway s us) (gets_of s' s_resubscribe_timer \<bind> (\<lambda>t. stop_timer t \<bind> k))"
  unfolding stop_then by (intro pres_bind underway_stops assms; assumption)+

text \<open>Arming another timer, or the subscription's own.\<close>

lemma underway_arm:
  assumes "pres typed (do { n \<leftarrow> after_func d tm; f n })"
    and "\<And>n w. (wanting s (after (f n) w) \<longrightarrow> wanting s w) \<and> c_attempt (w_cl (after (f n) w)) = c_attempt (w_cl w)
      \<and> w_threads (after (f n) w) = w_threads w \<and> w_timers (after (f n) w) = w_timers w
      \<and> c_requests (w_cl (after (f n) w)) = c_requests (w_cl w) \<and> w_lost (after (f n) w) = w_lost w
      \<and> s_resubscribe_timer (sub_at (after (f n) w) s) = s_resubscribe_timer (sub_at w s)"
  shows "pres (underway s us) (do { n \<leftarrow> after_func d tm; (f n :: unit op) })"
proof (rule presI)
  fix w assume w: "underway s us w"
  obtain w' where w': "w' = after (f (w_next w)) (with_timer (tm, d) w)" by blast
  have run: "after (do { n \<leftarrow> after_func d tm; f n }) w = w'" by (simp add: after_func_run w')
  note f = assms(2)[of "w_next w" "with_timer (tm, d) w", folded w']
  have ty: "typed w" using w by (rule underway_typed)
  have "gm_get (w_timers w) m = Some x \<Longrightarrow> m \<noteq> w_next w" for m x
    using ty by (auto simp: typed_def gm_keys_get)
  then have "resub_armed s w \<Longrightarrow> resub_armed s w'"
    using f unfolding resub_armed_def by (auto simp: with_timer_def)
  moreover have "typed w'" using presD[OF assms(1) ty] unfolding run .
  moreover have "set us \<union> tasks_of w \<subseteq> set us \<union> tasks_of w'" "requested s w \<Longrightarrow> requested s w'"
    using f by (simp_all add: tasks_of_def with_timer_def requested_def)
  moreover have "wanting s w' \<Longrightarrow> wanting s w \<and> c_attempt (w_cl w') = c_attempt (w_cl w)"
    using f by (simp add: wanting_def)
  ultimately show "underway s us (after (do { n \<leftarrow> after_func d tm; f n }) w)"
    unfolding run by (intro underway_frame[OF w])
qed

lemma resubscribe_arms: "resub_armed s (after (scheduleResubscribe s) w)"
  by (simp add: scheduleResubscribe_def after_func_run mods_def split_beta resub_armed_def with_timer_def)

lemma underway_scheduled: "typed w \<Longrightarrow> underway s us (after (scheduleResubscribe s) w)"
  by (rule underway_armed[OF presD[OF typed_sub_timers(2)] resubscribe_arms])

lemma underway_sub_timers:
  "s' \<noteq> s \<Longrightarrow> pres (underway s us) (stop_sub_timers s')" "pres (underway s us) (scheduleResubscribe s')"
  "pres (underway s us) (arm_sub_refresh s' ttl)"
proof -
  show "pres (underway s us) (stop_sub_timers s')" if "s' \<noteq> s"
    unfolding stop_sub_timers_def by (intro underway_stops_then underway_stops that)
  have m: "(wanting s (after (mods s' g) w) \<longrightarrow> wanting s w) \<and> c_attempt (w_cl (after (mods s' g) w)) = c_attempt (w_cl w)
      \<and> w_threads (after (mods s' g) w) = w_threads w \<and> w_timers (after (mods s' g) w) = w_timers w
      \<and> c_requests (w_cl (after (mods s' g) w)) = c_requests (w_cl w) \<and> w_lost (after (mods s' g) w) = w_lost w
      \<and> s_resubscribe_timer (sub_at (after (mods s' g) w) s) = s_resubscribe_timer (sub_at w s)"
    if "\<And>x. s_state (g x) = s_state x \<and> (s' = s \<longrightarrow> s_resubscribe_timer (g x) = s_resubscribe_timer x)" for g w
    using that by (auto simp: mods_def wanting_def)
  show "pres (underway s us) (scheduleResubscribe s')"
  proof (cases "s' = s")
    case True
    then show ?thesis using underway_scheduled underway_typed by (auto simp: pres_def)
  next
    case False
    then show ?thesis
      unfolding scheduleResubscribe_def
      by (intro underway_stops_then pres_bind[OF pres_gets] pres_bind[OF underway_mods] underway_arm typed_arm_sub m;
          simp add: sub_refresh_timer_def)
  qed
  have arm: "pres (underway s us) (gets_of s' s_session \<bind> (\<lambda>session.
      after_func (sub_refresh_delay ttl) (TmSubRefresh s' session) \<bind> (\<lambda>n. mods s' (\<lambda>x. x\<lparr>s_refresh_timer := Some n\<rparr>))))"
    by (intro pres_bind[OF pres_gets] underway_arm typed_arm_sub m; simp add: sub_refresh_timer_def)
  show "pres (underway s us) (arm_sub_refresh s' ttl)"
    unfolding arm_sub_refresh_def by (intro pres_bind[OF pres_gets] pres_if pres_return underway_stops_then arm)
qed

lemma underway_refresh: "pres (underway s us) (scheduleRefreshLocked d)"
proof -
  have m: "(wanting s (after (modc g) w) \<longrightarrow> wanting s w) \<and> c_attempt (w_cl (after (modc g) w)) = c_attempt (w_cl w)
      \<and> w_threads (after (modc g) w) = w_threads w \<and> w_timers (after (modc g) w) = w_timers w
      \<and> c_requests (w_cl (after (modc g) w)) = c_requests (w_cl w) \<and> w_lost (after (modc g) w) = w_lost w
      \<and> s_resubscribe_timer (sub_at (after (modc g) w) s) = s_resubscribe_timer (sub_at w s)"
    if "\<And>c. c_requests (g c) = c_requests c \<and> c_state (g c) = c_state c \<and> c_attempt (g c) = c_attempt c
        \<and> c_subs (g c) = c_subs c" for g w
    using that by (simp add: modc_def wanting_def)
  show ?thesis
    unfolding scheduleRefreshLocked_def
    by (intro underway_stops_then pres_bind[OF pres_gets] underway_arm typed_arm_client m; simp add: refresh_timer_def)
qed

section \<open>Sending\<close>

definition uview :: "world \<Rightarrow> cstate \<times> nat \<times> (channel, sid) gomap \<times> (sid, sub) gomap \<times> (nat, timer \<times> duration) gomap" where
  "uview w = (c_state (w_cl w), c_attempt (w_cl w), c_subs (w_cl w), w_heap w, w_timers w)"

lemma uview_basic [keeps_intro]:
  "keeps uview (popRequest i)" "keeps uview (addRequest i r cb)" "keeps uview (sendOn t cmd)"
  "keeps uview (spawn ts)" "keeps uview (onConnect k oper)"
  by (simp_all add: keeps_def uview_def popRequest_def addRequest_def sendOn_def onConnect_def nextFutureID_def
      spawn_def modc_def split_beta split: option.split cstate.split)

lemma uview_sends [keeps_intro]: "keeps uview (send cmd)" "keeps uview (sendAsyncOn t cmd cb)"
proof -
  show send: "keeps uview (send cmd)" for cmd by (auto simp: send_def intro!: keeps_intro)
  show "keeps uview (sendAsyncOn t cmd cb)" by (auto simp: sendAsyncOn_def intro!: keeps_intro send)
qed

lemma uview_wanting: "uview w' = uview w \<Longrightarrow> wanting s w' = wanting s w \<and> resub_armed s w' = resub_armed s w
    \<and> c_attempt (w_cl w') = c_attempt (w_cl w)"
  by (simp add: uview_def wanting_def resub_armed_def sub_at_def)

lemma underway_sendAsyncOn: "pres (underway s us) (sendAsyncOn t cmd cb)"
proof (rule presI)
  fix w assume w: "underway s us w"
  let ?w = "after (sendAsyncOn t cmd cb) w"
  note eff = sendAsyncOn_effect[OF refl, where t = t and cmd = cmd and cb = cb and w = w]
  have ty: "typed ?w" by (rule presD[OF typed_tview[OF tview_sends(2)] underway_typed[OF w]])
  note view = uview_wanting[OF keepsD[OF uview_sends(2)], of s t cmd cb w]
  show "underway s us ?w"
    by (rule underway_frame[OF w ty]) (use view eff(4,5) requested_keeps in auto)
qed

lemma underway_onConnect: "pres (underway s us) (onConnect k oper)"
proof (rule presI)
  fix w assume w: "underway s us w"
  have ty: "typed (after (onConnect k oper) w)" by (rule presD[OF typed_tview[OF tview_ops(4)] underway_typed[OF w]])
  note view = uview_wanting[OF keepsD[OF uview_basic(5)], of s k oper w]
  show "underway s us (after (onConnect k oper) w)"
    by (rule underway_frame[OF w ty])
       (use view in \<open>auto simp: onConnect_def nextFutureID_def modc_def spawn_def split_beta requested_def tasks_of_def
          split: cstate.splits\<close>)
qed

interpretation underway: steady_core "underway s us" for s us
proof
  show "underway s us (w\<lparr>w_cl := c\<rparr>)" if w: "underway s us w" and c: "cview c = cview (w_cl w)" for s us w c
  proof (rule underway_same[OF w])
    show "typed (w\<lparr>w_cl := c\<rparr>)" using typed.I_client w c by (simp add: underway_def)
  qed (use c in \<open>simp_all add: cview_def tasks_of_def\<close>)
  show "underway s us (w\<lparr>w_heap := gm_put s' x (w_heap w)\<rparr>)"
    if w: "underway s us w" and x: "sfull x = sfull (sub_at w s')" for s us w s' x
  proof (rule underway_frame[OF w])
    show "typed (w\<lparr>w_heap := gm_put s' x (w_heap w)\<rparr>)" using typed.I_sub w x by (simp add: underway_def)
    have "sub_at (w\<lparr>w_heap := gm_put s' x (w_heap w)\<rparr>) s = (if s' = s then x else sub_at w s)" by simp
    then show "resub_armed s w \<Longrightarrow> resub_armed s (w\<lparr>w_heap := gm_put s' x (w_heap w)\<rparr>)"
      "wanting s (w\<lparr>w_heap := gm_put s' x (w_heap w)\<rparr>) \<Longrightarrow> wanting s w
        \<and> c_attempt (w_cl (w\<lparr>w_heap := gm_put s' x (w_heap w)\<rparr>)) = c_attempt (w_cl w)"
      using x by (auto simp: resub_armed_def wanting_def sfull_def sview_def split: if_splits)
  qed (simp_all add: tasks_of_def requested_def)
  show "underway s us w'" if w: "underway s us w" and g: "grows w w'" for s us w w'
  proof (rule underway_same[OF w])
    show "typed w'" using typed.I_rest[OF _ g] w by (simp add: underway_def)
  qed (use g in \<open>simp_all add: grow_defs sub_at_def\<close>)
  show "underway s us (w\<lparr>w_wire := w_wire w @ [(t, cmd)]\<rparr>)" if w: "underway s us w" "c_transport (w_cl w) = Some t" for s us w t cmd
    by (rule underway_same[OF w(1)]) (use w typed.I_write in \<open>simp_all add: underway_def tasks_of_def sub_at_def\<close>)
  show "underway s us (w\<lparr>w_cl := (w_cl w)\<lparr>c_futures := f\<rparr>\<rparr>)" if w: "underway s us w" for s us w f
    by (rule underway_same[OF w], rule typed_frame[of w]) (use w in \<open>simp_all add: underway_def tasks_of_def\<close>)
  then show "underway s us (w\<lparr>w_cl := (w_cl w)\<lparr>c_futures := []\<rparr>\<rparr>)" if w: "underway s us w" for s us w using that .
  show "pres (underway s us) (sendAsync cmd cb)" for s us cmd cb unfolding sendAsync_def by (rule underway_sendAsyncOn)
qed (simp_all add: underway_sub_timers underway_onConnect)

declare underway.steady_modc [steady_intro del] underway.steady_mods [steady_intro del]

lemmas underway_intro [steady_intro] = underway_modc underway_mods underway_stops_then underway_stops underway_refresh
  underway_sub_timers(1) underway_sendAsyncOn

section \<open>Moves of subscriptions and the end of a connection\<close>

lemma underway_new: "\<not> sub_exists w (w_next_sid w) \<Longrightarrow> underway s us w \<Longrightarrow> underway s us (after (NewSubscription ch cfg) w)"
proof -
  assume new: "\<not> sub_exists w (w_next_sid w)" and w: "underway s us w"
  let ?w = "after (NewSubscription ch cfg) w" and ?n = "w_next_sid w"
  have ty: "typed ?w" by (rule typed_new[OF new underway_typed[OF w]])
  have at: "sub_at (w\<lparr>w_next_sid := Suc ?n, w_heap := w_heap w @ [(?n, newSubscription ch cfg)]\<rparr>) s
      = (if s = ?n then newSubscription ch cfg else sub_at w s)"
    using new unfolding sub_at_appended by simp
  have none: "sub_at w ?n = no_sub" using new by (simp add: sub_at_def sub_exists_def split: option.split)
  have "wanting s ?w \<Longrightarrow> wanting s w" "resub_armed s w \<Longrightarrow> resub_armed s ?w"
    using at none
    by (auto simp: NewSubscription_def modc_def split_beta wanting_def resub_armed_def no_sub_def dest!: put_vals split: if_splits)
  then show ?thesis
    by (intro underway_frame[OF w ty])
       (auto simp: NewSubscription_def modc_def split_beta tasks_of_def requested_def)
qed

text \<open>Moves of another subscription, and the end of this one.\<close>

lemma underway_moves1 [steady_intro]:
  "pres (underway s us) (updateSubscriptionPushID s' x y)" "pres (underway s us) (invalidateState s')"
  by (auto simp: updateSubscriptionPushID_def invalidateState_def intro!: steady_intro split: if_splits)

lemma underway_moves2 [steady_intro]:
  "s' \<noteq> s \<Longrightarrow> pres (underway s us) (moveToSubscribingLocked s' c r)"
  "s' \<noteq> s \<Longrightarrow> pres (underway s us) (subscribeStart s' k)"
  "s' \<noteq> s \<Longrightarrow> pres (underway s us) (enterSubscribed h s' res pubs ds)"
  by (auto simp: moveToSubscribingLocked_def subscribeStart_def enterSubscribed_def intro!: steady_intro split: if_splits)

lemma underway_moves3 [steady_intro]: "s' \<noteq> s \<Longrightarrow> pres (underway s us) (moveToSubscribed h s' res g a)"
  by (auto simp: moveToSubscribed_def intro!: steady_intro)

lemma underway_unsubscribed [steady_intro]: "pres (underway s us) (moveToUnsubscribedLocked s' c r e)"
proof (cases "s' = s")
  case True
  have "\<not> wanting s (after (moveToUnsubscribedLocked s c r e) w)" for w
    by (simp add: wanting_def unsubscribed_sub_at ended_def)
  then show ?thesis
    using True presD[OF typed_moves(2)] underway_typed by (auto simp: pres_def intro: underway_off)
next
  case False
  then show ?thesis by (auto simp: moveToUnsubscribedLocked_def intro!: steady_intro)
qed

lemma underway_removed [steady_intro]: "pres (underway s us) (removeEntry s' k)"
proof -
  have "pres (underway s us) (modc (\<lambda>c. c\<lparr>c_subs := gm_del ch (c_subs c)\<rparr>))" for ch
    by (rule underway_modc) (auto dest: del_vals)
  then show ?thesis
    unfolding removeEntry_def
    by (intro pres_bind pres_gets pres_when underway.steady_effects underway.steady_sub_api1)
qed

text \<open>A client that is not connected has nothing to show.\<close>

definition down :: "world \<Rightarrow> bool" where
  "down w \<longleftrightarrow> c_state (w_cl w) \<noteq> StateConnected"

lemma underway_down: "typed w \<Longrightarrow> down w \<Longrightarrow> underway s us w"
  by (simp add: underway_def wanting_def down_def)

lemma down_conn: "keeps conn m \<Longrightarrow> pres down m"
  by (rule pres_keeps[where f = conn and J = "\<lambda>c. fst c \<noteq> StateConnected"]) (simp_all add: down_def conn_def)

lemma down_does:
  "down (after (disconnect_now c r) w)" "down (after (reconnect_now h c r) w)" "down (after close_now w)"
  using does_disconnect[of c r] does_reconnect[of h c r] does_close
  by (simp_all add: conn_does_def conn_def down_def split_beta)

lemma underway_disconnect [steady_intro]: "pres (underway s us) (moveToDisconnectedIf current c r)"
proof (rule presI)
  fix w assume w: "underway s us w"
  have "typed (after (moveToDisconnectedIf current c r) w)" by (rule presD[OF typed_transitions(1) underway_typed[OF w]])
  moreover have "after (moveToDisconnectedIf current c r) w = w \<or> down (after (moveToDisconnectedIf current c r) w)"
    using down_does(1) by (simp add: moveToDisconnectedIf_def split_beta)
  ultimately show "underway s us (after (moveToDisconnectedIf current c r) w)" using w underway_down by metis
qed

lemma underway_close [steady_intro]: "pres (underway s us) (closeCall k)"
proof (rule presI)
  fix w assume w: "underway s us w"
  have ty: "typed (after (closeCall k) w)" by (rule presD[OF typed_transitions(3) underway_typed[OF w]])
  have "down (after (closeCall k) w)"
    using down_does(3)[of w] by (simp add: closeCall_def return_to_def split_beta down_def)
  then show "underway s us (after (closeCall k) w)" by (rule underway_down[OF ty])
qed

lemma underway_refreshing [steady_intro]:
  "pres (underway s us) (handleRefreshError gen)" "pres (underway s us) (disconnect_refresh gen c r)"
  by (auto simp: handleRefreshError_def disconnect_refresh_def intro!: steady_intro)

lemma underway_refreshReply [steady_intro]: "pres (underway s us) (refreshReply h gen x)"
  by (auto simp: refreshReply_def intro!: steady_intro)

interpretation underway: steady_turns "underway s us" for s us
  by unfold_locales
    (simp_all add: underway_new underway_unsubscribed underway_moves1 underway_removed underway_disconnect
      underway_close underway_refreshing underway_refreshReply)

section \<open>A subscribe that goes on\<close>

text \<open>
  \<open>onward s m w\<close>: run in \<open>w\<close>, \<open>m\<close> leaves a subscription that is not subscribing (or whose client is not
  connected), or something that goes on with its subscribe; or a nil pointer was dereferenced.
\<close>

definition onward :: "sid \<Rightarrow> task list op \<Rightarrow> world \<Rightarrow> bool" where
  "onward s m w \<longleftrightarrow> w_panic (after m w) \<or> (wanting s (after m w)
     \<longrightarrow> served s (outcome m w) (after m w) \<or> requested s (after m w) \<or> resub_armed s (after m w))"

definition linked :: "world \<Rightarrow> bool" where
  "linked w \<longleftrightarrow> (c_connected (w_cl w) \<longleftrightarrow> c_state (w_cl w) = StateConnected)"

lemma spawned [simp]: "tasks_of (after (spawn ts) w) = set ts \<union> tasks_of w"
  by (auto simp: spawn_def tasks_of_def)

lemma onward_task: "t \<in> set (outcome m w) \<union> tasks_of (after m w) \<Longrightarrow> serves s (c_attempt (w_cl (after m w))) t \<Longrightarrow> onward s m w"
  by (auto simp: onward_def served_def)

lemma onward_return [simp]: "onward s (ret ts) w \<longleftrightarrow> w_panic w
    \<or> (wanting s w \<longrightarrow> served s ts w \<or> requested s w \<or> resub_armed s w)"
  by (simp add: onward_def)

lemma onward_bind [simp]: "onward s (State_Monad.bind m f) w \<longleftrightarrow> onward s (f (outcome m w)) (after m w)"
  by (simp add: onward_def split_beta)

lemma onward_if [simp]: "onward s (if b then m else n) w \<longleftrightarrow> (if b then onward s m w else onward s n w)"
  by simp

lemma served_here [simp]:
  "\<exists>t \<in> set ts. serves s (c_attempt (w_cl w)) t \<Longrightarrow> served s ts w"
  by (auto simp: served_def)

lemma not_wanting: "s_state (sub_at w s) \<noteq> SubStateSubscribing \<Longrightarrow> \<not> wanting s w"
  by (simp add: wanting_def)

lemma end_inflight_state [simp]: "s_state (sub_at (after (end_inflight s') w) s) = s_state (sub_at w s)"
  by (simp add: end_inflight_def mods_def)

lemma armed_here [simp]: "resub_armed s (after (scheduleResubscribe s) w)"
  by (rule resubscribe_arms)

lemmas onward_simps = not_wanting serves_sub_def

lemma onward_gotState: "onward s (gotState x s a i) w"
  by (auto simp: gotState_def onward_simps split: sum.split)

lemma onward_locks:
  "\<not> fst (outcome (lockCurrentAttempt s a) w) \<Longrightarrow> wanting s w \<Longrightarrow> served s (snd (outcome (lockCurrentAttempt s a) w)) w"
  "\<not> fst (outcome (lockCurrentSubscribe s a g) w) \<Longrightarrow> wanting s w \<Longrightarrow> served s (snd (outcome (lockCurrentSubscribe s a g) w)) w"
  "after (lockCurrentAttempt s a) w = w" "after (lockCurrentSubscribe s a g) w = w"
  by (auto simp: lockCurrentAttempt_def lockCurrentSubscribe_def onward_simps split: if_splits)

lemma onward_getStateFailed: "onward s (getStateFailed s a) w"
  using onward_locks(1)[of s a w] by (auto simp: getStateFailed_def split_beta onward_locks)

lemma unsubscribed_here [simp]: "\<not> wanting s (after (moveToUnsubscribedLocked s c r e) w)"
  by (simp add: wanting_def unsubscribed_sub_at ended_def)

lemma onward_gotSubToken: "onward s (gotSubToken x s a i) w"
  by (auto simp: gotSubToken_def onward_simps split: sum.split)

lemma onward_subscribeUnrecoverable: "onward s (subscribeUnrecoverable s a g) w"
  using onward_locks(2)[of s a g w] by (auto simp: subscribeUnrecoverable_def split_beta onward_locks)

lemma onward_subscribeErrorReported: "onward s (subscribeErrorReported s e a g) w"
  using onward_locks(2)[of s a g w]
  by (auto simp: subscribeErrorReported_def split_beta onward_locks split: option.split)

lemma onward_subscribeError: "onward s (subscribeError s e a g) w"
  using onward_locks(2)[of s a g w]
  by (auto simp: subscribeError_def split_beta onward_locks onward_simps served_def split: option.split)

lemma served_spawned [simp]: "\<exists>t \<in> set us. serves s (c_attempt (w_cl w)) t \<Longrightarrow> served s ts (after (spawn us) w)"
  by (auto simp: served_def) (auto simp: spawn_def)

lemma onward_steps:
  "onward s (getState s) w" "onward s (continueResubscribe s b) w"
  "onward s (subscribeConnected s k) w" "onward s (deltaFailed h s off e) w"
  by (auto simp: getState_def continueResubscribe_def subscribeConnected_def deltaFailed_def onward_simps wanting_def
      return_to_def split: option.split)

lemma onward_resubscribe:
  "linked w \<Longrightarrow> \<not> s_inflight (sub_at w s) \<Longrightarrow> onward s (resubscribe s) w"
  by (auto simp: resubscribe_def onward_simps linked_def) (auto simp: wanting_def)

lemma sent_requested:
  assumes "outcome (sendSubscribe params (CbSubscribe s g a)) w = None"
  shows "requested s (after (sendSubscribe params (CbSubscribe s g a)) w)"
proof -
  obtain i w1 where i: "run_state nextCmdID w = (i, w1)" by fastforce
  let ?cmd = "(new_command i)\<lparr>cmd_subscribe := Some params\<rparr>"
  obtain w2 where w2: "w2 = after (sendAsyncOn None ?cmd (CbSubscribe s g a)) w1" by blast
  have run: "run_state (sendSubscribe params (CbSubscribe s g a)) w = (outcome (sendAsyncOn None ?cmd (CbSubscribe s g a)) w1, w2)"
    using i by (simp add: sendSubscribe_def sendAsync_def w2)
  show ?thesis
    using sendAsyncOn_effect(6)[OF w2] assms run by (force simp: requested_def carrying_def)
qed

lemma onward_sendSubscribeNow: "linked w \<Longrightarrow> onward s (do { sendSubscribeNow s a i tok; ret [] }) w"
proof -
  assume link: "linked w"
  have "\<not> wanting s (after (end_inflight s) w)" if "\<not> c_connected (w_cl w)"
    using that link by (simp add: linked_def wanting_def end_inflight_def mods_def)
  then show ?thesis
    using sent_requested by (auto simp: sendSubscribeNow_def split_beta onward_simps split: option.split)
qed

definition state_of :: "sid \<Rightarrow> world \<Rightarrow> sstate" where
  "state_of s w = s_state (sub_at w s)"

lemma state_heap: "keeps w_heap m \<Longrightarrow> keeps (state_of s) m"
  by (simp add: keeps_def state_of_def sub_at_def)

lemma state_effects [keeps_intro]:
  "(\<And>x. s_state (f x) = s_state x) \<Longrightarrow> keeps (state_of s) (mods s' f)"
  "keeps (state_of s) (modc g)" "keeps (state_of s) (stop_timer t)" "keeps (state_of s) (after_func d tm)"
  "keeps (state_of s) (spawn ts)" "keeps (state_of s) (queue_if b j)"
proof -
  show "(\<And>x. s_state (f x) = s_state x) \<Longrightarrow> keeps (state_of s) (mods s' f)"
    by (simp add: keeps_def mods_def state_of_def)
qed (rule state_heap[OF held_heap], rule held_effects held_queue)+

lemma state_resolved [keeps_intro]: "keeps (state_of s) (resolveSubFutures s' e)"
  unfolding resolveSubFutures_def by (auto intro!: keeps_intro)

lemma subscribed_here: "\<not> wanting s (after (enterSubscribed h s res pubs ds) w)"
proof -
  define rest where "rest = do {
     session \<leftarrow> gets_of s s_session;
     when_do (sr_expires res) (arm_sub_refresh s (sr_ttl res));
     when_do (sr_recoverable res) (mods s (\<lambda>x. x\<lparr>s_recover := True\<rparr>));
     mods s (\<lambda>x. x\<lparr>s_resubscribe_attempts := 0\<rparr>);
     t \<leftarrow> gets_of s s_resubscribe_timer;
     stop_timer t;
     resolveSubFutures s None;
     mods s (\<lambda>x. if sr_epoch res \<noteq> [] \<or> s_epoch x = []
                 then x\<lparr>s_offset := sr_offset res, s_epoch := sr_epoch res\<rparr> else x);
     oldPushID \<leftarrow> gets_of s s_push_id;
     mods s (\<lambda>x. x\<lparr>s_push_id := sr_id res\<rparr>);
     updateSubscriptionPushID s oldPushID (sr_id res);
     ev \<leftarrow> gets_of s s_events;
     d1 \<leftarrow> queue_if (ev SHSubscribed) (JEvents [subscribed_event s res]);
     d2 \<leftarrow> queue_if (pubs \<noteq> []) (JSubPubs s session (zip pubs (map2 pub_event pubs ds)));
     ret (waitEvent h (case d2 of None \<Rightarrow> d1 | Some n \<Rightarrow> Some n)) }"
  let ?m = "mods s (\<lambda>x. x\<lparr>s_state := SubStateSubscribed, s_session := Suc (s_session x)\<rparr>)"
  have "enterSubscribed h s res pubs ds = do { ?m; rest }" unfolding enterSubscribed_def rest_def by (rule refl)
  moreover have "keeps (state_of s) rest"
    unfolding rest_def by (auto simp: arm_sub_refresh_def updateSubscriptionPushID_def intro!: keeps_intro)
  ultimately have "state_of s (after (enterSubscribed h s res pubs ds) w) = state_of s (after ?m w)"
    by (simp add: keepsD split_beta)
  then show ?thesis by (simp add: wanting_def state_of_def mods_def)
qed

lemma onward_moveToSubscribed: "onward s (moveToSubscribed h s res g a) w"
  using subscribed_here
  by (auto simp: moveToSubscribed_def onward_simps panic_def split_beta onward_def split: option.split sum.split)

lemma onward_runCallback: "onward s (runCallback (CbSubscribe s g a) x) w"
  by (auto simp: runCallback_def onward_simps panic_def split: option.split sum.split)

text \<open>The goroutine of the connect reply, and the end of a connection.\<close>

lemma attempt_after: "keeps conn m \<Longrightarrow> c_attempt (w_cl (after m w)) = c_attempt (w_cl w) \<and> c_state (w_cl (after m w)) = c_state (w_cl w)"
  by (auto simp: keeps_def conn_def)

lemma connected_run: "outcome (isConnectedAttemptLocked n) w \<longleftrightarrow> c_state (w_cl w) = StateConnected \<and> c_attempt (w_cl w) = n"
  "after (isConnectedAttemptLocked n) w = w"
  by (simp_all add: isConnectedAttemptLocked_def)

lemma onward_off: "down w' \<Longrightarrow> after m w = w' \<Longrightarrow> onward s m w"
  by (simp add: onward_def wanting_def down_def)

lemma onward_connectSubs: "c_attempt (w_cl w) = n \<Longrightarrow> onward s (connectSubs h n tr ch res rest) w"
proof -
  assume n: "c_attempt (w_cl w) = n"
  have at: "c_attempt (w_cl (after (connectSubs h n tr ch res rest) w)) = n"
    using attempt_after[of "connectSubs h n tr ch res rest" w] n by (simp add: keeps_intro)
  have "w_panic (after (connectSubs h n tr ch res rest) w)
    \<or> (\<exists>t \<in> set (outcome (connectSubs h n tr ch res rest) w). serves s n t)"
    by (auto simp: connectSubs_def split_beta panic_def split: list.split option.split)
  then show ?thesis
  proof (elim disjE bexE)
    fix t assume "t \<in> set (outcome (connectSubs h n tr ch res rest) w)" "serves s n t"
    then show ?thesis using at by (intro onward_task[of t]) simp_all
  qed (simp add: onward_def)
qed

lemma onward_connectUnsubs: "c_attempt (w_cl w) = n \<Longrightarrow> onward s (connectUnsubs h n tr ch res) w"
proof (cases "outcome (isConnectedAttemptLocked n) w")
  case True
  assume n: "c_attempt (w_cl w) = n"
  have at: "c_attempt (w_cl (after (connectUnsubs h n tr ch res) w)) = n"
    using attempt_after[of "connectUnsubs h n tr ch res" w] n by (simp add: keeps_intro)
  have "\<exists>t \<in> set (outcome (connectUnsubs h n tr ch res) w). serves s n t"
    using True by (auto simp: connectUnsubs_def split_beta connected_run)
  then show ?thesis using at by (auto simp: onward_def)
next
  case False
  assume "c_attempt (w_cl w) = n"
  then show ?thesis using False by (intro onward_off[of w]) (auto simp: connectUnsubs_def split_beta connected_run down_def)
qed

lemma onward_connectDone: "c_attempt (w_cl w) = n \<Longrightarrow> onward s (connectDone n tr ch res) w"
proof -
  assume n: "c_attempt (w_cl w) = n"
  let ?w = "after (connectDone n tr ch res) w"
  have kept: "c_state (w_cl ?w) = c_state (w_cl w)"
    using attempt_after[of "connectDone n tr ch res" w] by (simp add: keeps_intro)
  have "TSub (Resubscribe s) \<in> set (outcome (connectDone n tr ch res) w)" if "wanting s ?w"
    using that kept n
    by (auto simp: connectDone_def split_beta isConnectedAttemptLocked_def wanting_def modc_def spawn_def split: if_splits)
  then show ?thesis by (force simp: onward_def served_def serves_sub_def)
qed

lemma onward_endings:
  "onward s (do { _ \<leftarrow> moveToDisconnected c r; ret [] }) w"
  "onward s (do { _ \<leftarrow> moveToDisconnectedFrom None c r; ret [] }) w"
  "onward s (moveToConnectingFrom h None c r) w" "onward s (handleTransportDisconnect None d) w"
proof -
  have end_it: "down (after (moveToDisconnectedIf (\<lambda>_. True) c r) w)"
    using down_does(1) by (auto simp: moveToDisconnectedIf_def split_beta down_def)
  show "onward s (do { _ \<leftarrow> moveToDisconnected c r; ret [] }) w"
    "onward s (do { _ \<leftarrow> moveToDisconnectedFrom None c r; ret [] }) w"
    by (rule onward_off[OF end_it]; simp add: moveToDisconnected_def moveToDisconnectedFrom_def split_beta)+
  have "down (after (moveToConnectingFrom h None c r) w)"
    using down_does(2) by (auto simp: moveToConnectingFrom_def split_beta split: cstate.split) (auto simp: down_def)
  then show "onward s (moveToConnectingFrom h None c r) w" by (rule onward_off) (rule refl)
  show "onward s (handleTransportDisconnect None d) w"
    by (simp add: handleTransportDisconnect_def Let_def)
qed

section \<open>Operations of the connection\<close>

named_theorems down_intro \<open>rules for operations that do not connect the client\<close>

lemmas [down_intro] = steady_rules

lemma down_effects [down_intro]:
  "pres down fresh" "pres down (spawn ts)" "pres down (return_to k e)" "pres down (close_transport t)"
  "pres down (queue_if b j)" "pres down (handleError h e')" "pres down (sendConnect t cb)"
  "pres down scheduleReconnectLocked" "pres down drop_transport"
proof -
  show "pres down drop_transport"
    using does_drop_transport by (simp add: pres_def conn_does_def conn_def down_def split_beta)
qed (rule down_conn, rule keeps_intro)+

lemma down_changes [down_intro]:
  "(\<And>c. c_state (f c) = c_state c) \<Longrightarrow> pres down (modc f)"
  "st \<noteq> StateConnected \<Longrightarrow> pres down (setStateLocked st)" "pres down (setTransportLocked t)"
  by (simp_all add: pres_def modc_def setStateLocked_def setTransportLocked_def down_def)

lemma down_moves [down_intro]:
  "pres down (moveToDisconnectedIf current c r)" "pres down (reconnect_now h c r)" "pres down (retry_connecting t)"
proof -
  show "pres down (reconnect_now h c r)" using down_does(2) by (simp add: pres_def)
  show "pres down (moveToDisconnectedIf current c r)" using down_does(1) by (simp add: pres_def moveToDisconnectedIf_def split_beta)
  show "pres down (retry_connecting t)"
    using does_retry[of t] by (simp add: pres_def conn_does_def conn_def down_def split_beta)
qed

lemma down_connecting:
  "pres down (startConnecting h k)" "pres down (startReconnectingIf ex k)" "pres down (scheduleIfCurrent n k e)"
  "pres down (dialed h n tr k)" "pres down (connectFailed n tr tok e)" "pres down (connectFailedClosed n tok e)"
  "pres down (connectingReported n)" "pres down (moveToConnectingFrom h t c r)"
  by (auto simp: startConnecting_def startReconnectingIf_def scheduleIfCurrent_def dialed_def connectFailed_def
      connectFailedClosed_def connectingReported_def moveToConnectingFrom_def isCurrentAttemptLocked_def intro!: down_intro)

text \<open>While the client is connected these operations do nothing of interest.\<close>

lemma idle_connecting:
  assumes "c_state (w_cl w) = StateConnected" "underway s us w"
  shows "underway s us (after (startConnecting h k) w)" "underway s us (after (startReconnectingIf ex k) w)"
    "underway s us (after (scheduleIfCurrent n k e) w)" "underway s us (after (dialed h n tr k) w)"
    "underway s us (after (connectFailed n tr tok e) w)" "underway s us (after (connectFailedClosed n tok e) w)"
    "underway s us (after (connectingReported n) w)" "underway s us (after (connectOk h n tr ch res) w)"
proof -
  have ret: "underway s us v \<Longrightarrow> underway s us (after (return_to k e) v)" "underway s us v \<Longrightarrow> underway s us (after (close_transport tr) v)"
    for k e v tr by (rule presD[OF underway.steady_effects(7)] presD[OF underway.steady_effects(6)]; assumption)+
  have round: "underway s us (after (modc (\<lambda>c. c\<lparr>c_round := Suc (c_round c)\<rparr>)) w)"
    "underway s us (after (modc (\<lambda>c. c\<lparr>c_refresh_required := True\<rparr>)) w)"
    by (rule presD[OF underway_modc assms(2)]; simp)+
  have off: "\<not> outcome (isCurrentAttemptLocked n) v" if "c_state (w_cl v) = StateConnected" for v
    using that by (simp add: current_run)
  show "underway s us (after (startConnecting h k) w)" "underway s us (after (startReconnectingIf ex k) w)"
    using assms ret round by (simp_all add: startConnecting_def startReconnectingIf_def split_beta modc_def)
  show "underway s us (after (scheduleIfCurrent n k e) w)" "underway s us (after (dialed h n tr k) w)"
    "underway s us (after (connectFailed n tr tok e) w)" "underway s us (after (connectingReported n) w)"
    "underway s us (after (connectOk h n tr ch res) w)"
    using assms ret by (simp_all add: scheduleIfCurrent_def dialed_def connectFailed_def connectingReported_def
        connectOk_def split_beta current_run)
  show "underway s us (after (connectFailedClosed n tok e) w)"
    using assms round by (auto simp: connectFailedClosed_def split_beta current_run moveToDisconnectedIf_def modc_def
        split: option.split)
qed

section \<open>Every task\<close>

text \<open>What is known otherwise: when the flag \<open>inflight\<close> is set, something carries the subscribe.\<close>

definition carried :: "sid \<Rightarrow> task list \<Rightarrow> world \<Rightarrow> bool" where
  "carried s us w \<longleftrightarrow> linked w \<and> (s_inflight (sub_at w s) \<longrightarrow>
     (\<exists>t \<in> set us \<union> tasks_of w. tok_task (Carrier s) t \<noteq> 0) \<or> requested s w)"

lemma carrier_serves: "tok_task (Carrier s) t \<noteq> 0 \<Longrightarrow> serves s n t"
  by (auto simp: tok_task_def tok_sub_def tok_call_def tok_caller_def tok_cb_def serves_def serves_sub_def carrying_def
      split: task.splits connect_task.splits client_task.splits call_task.splits sub_task.splits callback.splits
        option.splits if_splits)

lemma typed_run_task: "pres typed (run_task a h t)"
proof (cases "\<exists>s res g b. t = TSub (MoveToSubscribed s res g b)")
  case True
  then show ?thesis by (auto simp: run_task_def run_sub_def typed_subscribed)
next
  case False
  then show ?thesis using typed.steady_ordinary typed.steady_special by blast
qed

lemma onward_underway:
  "typed w \<Longrightarrow> pres typed m \<Longrightarrow> onward s m w \<Longrightarrow> underway s (outcome m w @ us) (after m w) \<or> w_panic (after m w)"
  by (auto simp: onward_def underway_def served_def dest: presD)

lemma underway_more: "underway s us w \<Longrightarrow> underway s (ts @ us) w"
  by (auto simp: underway_def served_def)

lemma underway_drop: "underway s (t # us) w \<Longrightarrow> \<not> serves s (c_attempt (w_cl w)) t \<Longrightarrow> underway s us w"
  by (auto simp: underway_def served_def)

text \<open>A task that serves the subscription goes on with it.\<close>

lemma onward_connect: "serves s (c_attempt (w_cl w)) (TConnect t) \<Longrightarrow> onward s (run_connect a h t) w"
  by (cases t) (auto simp: serves_def run_connect_def onward_connectSubs onward_connectUnsubs onward_connectDone)

lemma onward_client: "serves s (c_attempt (w_cl w)) (TClient t) \<Longrightarrow> onward s (run_client a h t) w"
  using onward_endings by (cases t) (auto simp: serves_def run_client_def)

lemma onward_call: "serves s (c_attempt (w_cl w)) (TCall t) \<Longrightarrow> onward s (run_call a t) w"
  by (cases t) (auto simp: serves_def run_call_def carrying_def onward_runCallback split: callback.splits)

lemma onward_sub:
  "serves_sub s t \<Longrightarrow> linked w \<Longrightarrow> (t = Resubscribe s \<Longrightarrow> \<not> s_inflight (sub_at w s)) \<Longrightarrow> onward s (run_sub a h t) w"
  using onward_sendSubscribeNow
  by (cases t) (auto simp: serves_sub_def run_sub_def onward_steps onward_gotState onward_getStateFailed onward_gotSubToken
      onward_resubscribe onward_subscribeError onward_subscribeUnrecoverable onward_subscribeErrorReported
      onward_moveToSubscribed simp del: onward_bind)

lemma serving_goes_on:
  assumes "underway s (t # us) w" "carried s (t # us) w" "serves s (c_attempt (w_cl w)) t"
  shows "underway s (outcome (run_task a h t) w @ us) (after (run_task a h t) w) \<or> w_panic (after (run_task a h t) w)"
proof (cases "t = TSub (Resubscribe s) \<and> s_inflight (sub_at w s)")
  case True
  then have "run_state (run_task a h t) w = ([], w)" by (auto simp: run_task_def run_sub_def resubscribe_def)
  moreover have "tok_task (Carrier s) t = 0" using True by simp
  then have "served s us w \<or> requested s w"
    using True assms(2) carrier_serves by (auto simp: carried_def served_def)
  then have "underway s us w" using underway_typed[OF assms(1)] by (auto simp: underway_def)
  ultimately show ?thesis by simp
next
  case False
  have "onward s (run_task a h t) w"
    using assms(2,3) False onward_connect onward_client onward_call onward_sub
    by (cases t) (auto simp: run_task_def carried_def serves_def)
  then show ?thesis using onward_underway[OF underway_typed[OF assms(1)] typed_run_task] by blast
qed

text \<open>A request that is taken has its callback run.\<close>

lemma underway_popRequest:
  assumes w: "underway s us w"
  shows "underway s ((case outcome (popRequest i) w of None \<Rightarrow> [] | Some q \<Rightarrow> [TCall (RunCallback (rq_cb q) x)]) @ us)
    (after (popRequest i) w)"
proof -
  let ?w = "after (popRequest i) w"
  let ?ts = "case outcome (popRequest i) w of None \<Rightarrow> [] | Some q \<Rightarrow> [TCall (RunCallback (rq_cb q) x)]"
  have ty: "typed ?w" by (rule presD[OF typed_tview[OF tview_ops(1)] underway_typed[OF w]])
  note view = uview_wanting[OF keepsD[OF uview_basic(1)], of s i w]
  have kept: "w_threads ?w = w_threads w" "w_lost ?w = w_lost w"
    using keepsD[OF request_frame(2), of i w] by simp_all
  have "served s (?ts @ us) ?w \<or> requested s ?w" if r: "requested s w"
    using r unfolding requested_def
  proof (elim disjE exE conjE)
    fix j q assume q: "gm_get (c_requests (w_cl w)) j = Some q" "carrying s (rq_cb q)"
    show "served s (?ts @ us) ?w \<or> (\<exists>i q. gm_get (c_requests (w_cl ?w)) i = Some q \<and> carrying s (rq_cb q))
      \<or> (\<exists>cb \<in> set (w_lost ?w). carrying s cb)"
      using q pop_requests(2)[of i w] pop_requests(1)[of j i w] by (cases "j = i") (auto simp: served_def)
  qed (use kept in auto)
  then show ?thesis using w ty view kept by (auto simp: underway_def served_def tasks_of_def)
qed

lemma underway_awaitReplyOn:
  assumes w: "underway s us w"
  shows "underway s (outcome (awaitReplyOn b i ch) w @ us) (after (awaitReplyOn b i ch) w)"
proof -
  have pop: "underway s (outcome (popAndFail i e) w @ us) (after (popAndFail i e) w)" for e
    using underway_popRequest[OF w, where i = i and x = "Inl e"] by (cases "outcome (popRequest i) w") (simp_all add: popAndFail_def split_beta)
  have "underway s (TCall (AwaitReplyOn i ch) # us) w" using underway_more[OF w, of "[TCall (AwaitReplyOn i ch)]"] by simp
  then show ?thesis using pop by (auto simp: awaitReplyOn_def)
qed

lemma underway_handleReply:
  assumes w: "underway s us w"
  shows "underway s (outcome (handleReply t reply) w @ us) (after (handleReply t reply) w)"
proof -
  note pop = underway_popRequest[OF w, where i = "r_id reply"]
  show ?thesis
    using pop[of "Inr reply"] underway_more[OF pop[of "Inl (Sentinel ErrClientDisconnected)"],
        of "[TClient (MoveToDisconnectedFrom (Some t) disconnectBadProtocol ''malformed reply'')]"]
    by (cases "outcome (popRequest (r_id reply)) w") (auto simp: handleReply_def split_beta)
qed

lemma underway_reader:
  assumes w: "underway s us w"
  shows "underway s (outcome (reader rd t ch) w @ us) (after (reader rd t ch) w)"
proof (cases rd)
  case (GotEOF d)
  have "pres (underway s us) (do { spawn [TClient (HandleTransportDisconnect (Some t) d)]; close_chan ch; ret [] :: task list op })"
    by (auto intro!: steady_intro)
  from presD[OF this w] show ?thesis using GotEOF by (simp add: reader_def split_beta)
next
  case (GotReply reply)
  have "underway s (outcome (handle t reply) w @ us) (after (handle t reply) w)"
  proof (cases "r_id reply > 0")
    case True
    then show ?thesis using underway_handleReply[OF w] by (simp add: handle_def)
  next
    case False
    then have "pres (underway s us) (handle t reply)"
      unfolding handle_def by (auto intro!: steady_intro underway.steady_handlePing)
    from presD[OF this w] show ?thesis by (rule underway_more)
  qed
  then have "underway s ((outcome (handle t reply) w @ [TClient (Reader t ch)]) @ us) (after (handle t reply) w)"
    by (auto simp: underway_def served_def)
  then show ?thesis using GotReply by (simp add: reader_def split_beta)
qed

text \<open>A task that does not serve the subscription takes nothing away from it.\<close>

lemma down_or_idle:
  assumes "underway s us w" "pres down m" "pres typed m"
    and "c_state (w_cl w) = StateConnected \<Longrightarrow> underway s us (after m w)"
  shows "underway s us (after m w)"
  using assms underway_down[OF presD[OF assms(3) underway_typed[OF assms(1)]] presD[OF assms(2), of w]]
  by (cases "c_state (w_cl w) = StateConnected") (auto simp: down_def)

lemma underway_connecting:
  assumes w: "underway s us w"
  shows "underway s us (after (startConnecting h k) w)" "underway s us (after (startReconnectingIf ex k) w)"
    "underway s us (after (scheduleIfCurrent n k e) w)" "underway s us (after (dialed h n tr k) w)"
    "underway s us (after (connectFailed n tr tok e) w)" "underway s us (after (connectFailedClosed n tok e) w)"
    "underway s us (after (connectingReported n) w)"
  by (rule down_or_idle[OF w], rule down_connecting, (rule typed_transitions typed_attempts),
      erule idle_connecting[OF _ w])+

lemma underway_moveToConnectingFrom:
  assumes w: "underway s us w"
  shows "underway s us (after (moveToConnectingFrom h t c r) w)"
proof -
  have "after (moveToConnectingFrom h t c r) w = w \<or> down (after (moveToConnectingFrom h t c r) w)"
    using down_does(2)[of h c r w] presD[OF down_moves(3), of w]
    by (auto simp: moveToConnectingFrom_def split_beta down_def split: option.split cstate.split)
  then show ?thesis
    using w underway_down[OF presD[OF typed_transitions(2) underway_typed[OF w]]] by metis
qed

lemma underway_connectOk:
  assumes w: "underway s us w"
  shows "underway s (outcome (connectOk h n tr ch res) w @ us) (after (connectOk h n tr ch res) w)"
proof (cases "outcome (isCurrentAttemptLocked n) w")
  case True
  have ty: "typed (after (connectOk h n tr ch res) w)" by (rule presD[OF typed_attempts(3) underway_typed[OF w]])
  define rest where "rest = do {
         when_do (cr_expires res) (scheduleRefreshLocked (ttl_duration (cr_ttl res)));
         resolveConnectFutures None;
         ev \<leftarrow> getc c_events;
         d \<leftarrow> queue_if (ev HConnected) (JEvents [EvConnected (cr_client res) (cr_version res) (cr_data res)]);
         ret (waitEvent h d @ [TConnect (ConnectSubs n tr ch res (cr_subs res))]) }"
  let ?v = "after (setStateLocked StateConnected) w"
  have run: "run_state (connectOk h n tr ch res) w = run_state rest ?v"
    using True by (simp add: connectOk_def split_beta current_run rest_def)
  have "keeps conn rest" unfolding rest_def by (auto intro!: keeps_intro)
  then have "c_attempt (w_cl (after rest ?v)) = n"
    using True attempt_after[of rest ?v] by (simp add: setStateLocked_def modc_def current_run)
  moreover have "TConnect (ConnectSubs n tr ch res (cr_subs res)) \<in> set (outcome rest ?v)"
    by (simp add: rest_def split_beta)
  ultimately show ?thesis using ty unfolding run by (intro underway_by_task) auto
next
  case False
  then show ?thesis
    using presD[OF underway.steady_effects(6) w] by (simp add: connectOk_def split_beta current_run)
qed

lemma underway_subscribeStart:
  assumes w: "underway s us w"
  shows "underway s (outcome (subscribeStart s' k) w @ us) (after (subscribeStart s' k) w)"
proof (cases "s' = s \<and> s_state (sub_at w s) = SubStateUnsubscribed")
  case True
  have "typed (after (subscribeStart s' k) w)" by (rule presD[OF typed_moves(4) underway_typed[OF w]])
  moreover have "TSub (SubscribeConnected s k) \<in> set (outcome (subscribeStart s' k) w)"
    using True by (simp add: subscribeStart_def split_beta)
  ultimately show ?thesis by (intro underway_by_task) (auto simp: serves_sub_def)
next
  case False
  have "underway s us (after (subscribeStart s' k) w)"
  proof (cases "s' = s")
    case True
    then have "s_state (sub_at w s) = SubStateSubscribed \<or> s_state (sub_at w s) = SubStateSubscribing"
      using False by (cases "s_state (sub_at w s)") auto
    then show ?thesis
      using True presD[OF underway.steady_effects(7) w] by (auto simp: subscribeStart_def split_beta)
  qed (rule presD[OF underway_moves2(2) w])
  then show ?thesis by (rule underway_more)
qed

lemma underway_subscribeAgain:
  assumes w: "underway s us w"
  shows "underway s (outcome (subscribeAgain s' c r) w @ us) (after (subscribeAgain s' c r) w)"
proof (cases "s' = s")
  case True
  have "typed (after (subscribeAgain s' c r) w)"
    using presD[OF typed_moves(3) underway_typed[OF w]] by (simp add: subscribeAgain_def split_beta)
  then show ?thesis using True by (intro underway_by_task) (auto simp: subscribeAgain_def serves_sub_def split_beta)
next
  case False
  have "underway s us (after (moveToSubscribingLocked s' c r) w)" by (rule presD[OF underway_moves2(1)[OF False] w])
  then show ?thesis using underway_more[of s us _ "[TSub (Resubscribe s')]"] by (simp add: subscribeAgain_def split_beta)
qed

lemma special_underway:
  assumes "special t" "\<not> serves s (c_attempt (w_cl w)) t" "underway s us w"
  shows "underway s (outcome (run_task a h t) w @ us) (after (run_task a h t) w)"
proof -
  note more = underway_more[of s us]
  have sub: "pres (underway s us) (moveToSubscribed h s' res g b)" if "s' \<noteq> s" for s' res g b
    by (rule underway_moves3[OF that])
  show ?thesis
    using assms(1,2) underway_connecting[OF assms(3)] underway_moveToConnectingFrom[OF assms(3)] underway_connectOk[OF assms(3)]
      underway_subscribeStart[OF assms(3)] underway_subscribeAgain[OF assms(3)] underway_reader[OF assms(3)]
      underway_awaitReplyOn[OF assms(3)] presD[OF sub assms(3)]
    unfolding special_def
    by (auto simp: run_task_def run_connect_def run_client_def run_call_def run_sub_def split_beta serves_sub_def intro: more
        split: task.splits connect_task.splits client_task.splits call_task.splits sub_task.splits)
qed

lemma underway_run_task:
  assumes "underway s (t # us) w" "carried s (t # us) w"
  shows "underway s (outcome (run_task a h t) w @ us) (after (run_task a h t) w) \<or> w_panic (after (run_task a h t) w)"
proof (cases "serves s (c_attempt (w_cl w)) t")
  case True
  then show ?thesis by (rule serving_goes_on[OF assms])
next
  case False
  have w: "underway s us w" by (rule underway_drop[OF assms(1) False])
  show ?thesis
  proof (cases "special t")
    case True
    then show ?thesis using special_underway[OF _ False w] by blast
  next
    case False
    then have "underway s us (after (run_task a h t) w)" using w by (intro presD[OF underway.steady_ordinary])
    then show ?thesis using underway_more by blast
  qed
qed

section \<open>Every state\<close>

lemma sum_nonzero: "sum_list (map f xs) \<noteq> (0 :: int) \<Longrightarrow> \<exists>x \<in> set xs. f x \<noteq> 0"
  by (induction xs) auto

lemma carried_reachable:
  assumes "reachable w"
  shows "carried s [] w"
proof -
  have link: "linked w" using conn_reachable[OF assms] by (simp add: linked_def conn_inv_def conn_def)
  have tidy: "gm_ok (c_requests (w_cl w))" and one: "token_count (Carrier s) w = 1"
    using tokens.invariant[OF assms] by (simp_all add: conserved_def tidy_def)
  have futs: "in_futures (Carrier s) f = 0" "in_answers (Carrier s) rs = 0" "in_answers (Carrier s) rt = 0"
    for f and rs :: "(call \<times> (err + call_result)) list" and rt :: "(call \<times> err option) list"
    by (simp_all add: in_futures_def in_answers_def tok_call_def)
  have "(\<exists>t \<in> tasks_of w. tok_task (Carrier s) t \<noteq> 0) \<or> requested s w" if "s_inflight (sub_at w s)"
  proof -
    have "in_threads (Carrier s) (w_threads w) + in_requests (Carrier s) (c_requests (w_cl w)) + in_lost (Carrier s) (w_lost w) = 1"
      using one that futs by (simp add: token_count_def at_rest_def in_subs_def)
    then consider "in_threads (Carrier s) (w_threads w) \<noteq> 0" | "in_requests (Carrier s) (c_requests (w_cl w)) \<noteq> 0"
      | "in_lost (Carrier s) (w_lost w) \<noteq> 0" by linarith
    then show ?thesis
    proof cases
      case 1
      then obtain th where "th \<in> set (w_threads w)" "toks (Carrier s) (snd th) \<noteq> 0"
        unfolding in_threads_def by (blast dest: sum_nonzero)
      moreover from this(2) obtain t where "t \<in> set (snd th)" "tok_task (Carrier s) t \<noteq> 0"
        unfolding toks_def by (blast dest: sum_nonzero)
      ultimately show ?thesis by (auto simp: tasks_of_def)
    next
      case 2
      then obtain i q where "(i, q) \<in> set (c_requests (w_cl w))" "tok_cb (Carrier s) (rq_cb q) \<noteq> 0"
        unfolding in_requests_def using sum_nonzero by fastforce
      then show ?thesis
        using gm_mem_get[OF tidy] carrier_serves[of s "TCall (RunCallback (rq_cb q) (Inl (Sentinel ErrTimeout)))"]
        by (auto simp: requested_def)
    next
      case 3
      then obtain cb where "cb \<in> set (w_lost w)" "tok_cb (Carrier s) cb \<noteq> 0"
        unfolding in_lost_def by (blast dest: sum_nonzero)
      then show ?thesis
        using carrier_serves[of s "TCall (RunCallback cb (Inl (Sentinel ErrTimeout)))"] by (auto simp: requested_def)
    qed
  qed
  then show ?thesis using link by (simp add: carried_def)
qed

lemma carried_taken:
  assumes "reachable w" "outcome (take_task i) w = Some (h, t, ts)"
  shows "carried s (t # ts) (after (take_task i) w)"
  using carried_reachable[OF assms(1), of s] take_task_tasks(1,2)[OF assms(2)]
  by (auto simp: carried_def linked_def requested_def sub_at_def wview_def)

lemma underway_hand_over:
  assumes w: "underway s us w" and w': "wview w' = wview w" "w_next w' = w_next w" "w_results w' = w_results w"
    and ts: "set us \<union> tasks_of w \<subseteq> set us' \<union> tasks_of w'"
  shows "underway s us' w'"
proof -
  have "typed w'" using typed.loose_rest[of w w'] underway_typed[OF w] w' by simp
  then show ?thesis
    by (rule underway_frame[OF w])
       (use w' ts in \<open>auto simp: wview_def wanting_def requested_def resub_armed_def sub_at_def\<close>)
qed

lemma underway_fire: "pres (underway s us) (fire_timer n)"
proof (rule presI)
  fix w assume w: "underway s us w"
  show "underway s us (after (fire_timer n) w)"
  proof (cases "gm_get (w_timers w) n")
    case None
    then show ?thesis using w by (simp add: fire_timer_def)
  next
    case (Some x)
    obtain tm d where x: "gm_get (w_timers w) n = Some (tm, d)" using Some by (cases x) auto
    let ?w1 = "w\<lparr>w_timers := gm_del n (w_timers w)\<rparr>"
    let ?w' = "after (spawn [timer_task tm]) ?w1"
    have run: "after (fire_timer n) w = ?w'" using x by (simp add: fire_timer_def)
    have ty: "typed ?w'" unfolding run[symmetric] by (rule presD[OF typed_fire underway_typed[OF w]])
    show ?thesis
    proof (cases "tm = TmResubscribe s")
      case True
      then show ?thesis
        unfolding run by (intro underway_by_task[OF ty, of "TSub (Resubscribe s)"]) (simp_all add: timer_task_def serves_sub_def)
    next
      case False
      have "m \<noteq> n" if "gm_get (w_timers w) m = Some (TmResubscribe s, e)" for m e using x False that by auto
      then have "resub_armed s w \<Longrightarrow> resub_armed s ?w'"
        unfolding resub_armed_def by (auto simp: spawn_def)
      then show ?thesis
        unfolding run by (intro underway_frame[OF w ty]) (auto simp: spawn_def wanting_def requested_def tasks_of_def)
    qed
  qed
qed

lemma underway_init: "client_init w \<Longrightarrow> underway s [] w"
  using moving_init by (auto simp: underway_def moving_def wanting_def client_init_def initial_world_def newClient_def Let_def)

interpretation subscribing: follows "underway s" "carried s" for s
  by unfold_locales
    (simp_all add: underway_hand_over carried_taken underway_run_task underway_init underway.steady_api_step
      underway_fire underway.steady_dispatcher)

section \<open>Property\<close>

text \<open>
  C3: a subscription of a connected client never gets stuck on its way to being subscribed. In every
  reachable state in which the client is connected and a registered subscription is subscribing,
  whatever failed, was superseded or invalidated before, one of these holds: a goroutine is still to run
  a task that goes on with a subscribe of it (or that ends the connection); its subscribe command
  waits for the reply and a goroutine watches the timeout; or the timer of its next try is armed.
\<close>

theorem subscribing_makes_progress:
  assumes "reachable w" "c_state (w_cl w) = StateConnected" "gm_get (c_subs (w_cl w)) ch = Some s"
    "s_state (sub_at w s) = SubStateSubscribing" "w_lost w = []"
  shows "(\<exists>th \<in> set (w_threads w). \<exists>t \<in> set (snd th). serves s (c_attempt (w_cl w)) t)
    \<or> (\<exists>i q. gm_get (c_requests (w_cl w)) i = Some q \<and> carrying s (rq_cb q)
        \<and> (\<exists>th \<in> set (w_threads w). \<exists>t \<in> set (snd th). Inr i \<in> supports t))
    \<or> (\<exists>m d. s_resubscribe_timer (sub_at w s) = Some m \<and> gm_get (w_timers w) m = Some (TmResubscribe s, d))"
proof -
  have "wanting s w" using assms(2,4) gm_get_vals[OF assms(3)] by (simp add: wanting_def)
  then have "served s [] w \<or> requested s w \<or> resub_armed s w"
    using subscribing.all.invariant[OF assms(1), of s] by (simp add: underway_def)
  moreover have "\<exists>i q. gm_get (c_requests (w_cl w)) i = Some q \<and> carrying s (rq_cb q)
        \<and> (\<exists>th \<in> set (w_threads w). \<exists>t \<in> set (snd th). Inr i \<in> supports t)" if "requested s w"
    using that assms(5) request_watched[OF assms(1)] unfolding requested_def by fastforce
  ultimately show ?thesis by (auto simp: served_def tasks_of_def resub_armed_def)
qed

text \<open>Here the subscribe command is on its way: what the theorem finds is the pending request.\<close>

theorem subscribing_makes_progress_witness:
  "\<exists>i q. gm_get (c_requests (w_cl demo_in_flight)) i = Some q \<and> carrying 0 (rq_cb q)
     \<and> (\<exists>th \<in> set (w_threads demo_in_flight). \<exists>t \<in> set (snd th). Inr i \<in> supports t)"
proof -
  have at: "c_state (w_cl demo_in_flight) = StateConnected" "gm_get (c_subs (w_cl demo_in_flight)) ''ch'' = Some 0"
    "s_state (sub_at demo_in_flight 0) = SubStateSubscribing" "w_lost demo_in_flight = []"
    "s_resubscribe_timer (sub_at demo_in_flight 0) = None"
    using demo_in_flight by (simp_all add: gm_get_def)
  have none: "\<not> (\<exists>th \<in> set (w_threads demo_in_flight). \<exists>t \<in> set (snd th). serves 0 n t)" for n
    using demo_in_flight by (simp add: serves_def)
  show ?thesis
    using subscribing_makes_progress[OF reachable_demo(2) at(1-4)] none at(5) by fastforce
qed

end
