(* ===== verification/Unblocked.thy ===== *)
theory Unblocked
  imports Following Closed
begin

text \<open>
  Nothing waits for ever. A goroutine waits in three places: for an event handler, for the reader of
  the connection, and for the callback queue to be drained. This theory shows that each of these waits
  has something that ends it, and that the dispatcher goroutine, on which the event handlers run, is
  in none of them, whatever the handlers call: otherwise it would wait for itself. The wait of the
  caller of \<open>Publish\<close>, \<open>RPC\<close> and the like for the answer (\<open>await_call\<close>) is not one of the client's; that
  it must not happen inside a handler is what the \<^verbatim>\<open>README\<close> asks of the application.
\<close>

section \<open>Waits that will end\<close>

text \<open>The channel is closed already, or the reader that will close it is there; \<open>us\<close> are the tasks in hand.\<close>

definition has_reader :: "task list \<Rightarrow> world \<Rightarrow> nat \<Rightarrow> bool" where
  "has_reader us w n \<longleftrightarrow> n \<in> set (w_chans w) \<or> (\<exists>tr. TClient (Reader tr n) \<in> set us \<union> tasks_of w)"

definition ends :: "task list \<Rightarrow> world \<Rightarrow> task \<Rightarrow> bool" where
  "ends us w t = (case t of WaitEvent n \<Rightarrow> due w n | WaitChan n \<Rightarrow> has_reader us w n
     | WaitQueueClosed \<Rightarrow> q_closed (w_queue w) | _ \<Rightarrow> True)"

definition fine :: "task list \<Rightarrow> world \<Rightarrow> bool \<Rightarrow> task \<Rightarrow> bool" where
  "fine us w h t \<longleftrightarrow> (h \<longrightarrow> may_handle t) \<and> ends us w t"

text \<open>
  What every operation keeps: all that wait will go on, what is in \<open>A\<close> is due, the current disconnect
  channel has a reader, and what is left of a \<open>Close\<close> stays what it is. \<open>u\<close> is the goroutine that runs.
\<close>

definition kept :: "nat set \<Rightarrow> bool \<times> task list \<Rightarrow> task list \<Rightarrow> bool \<Rightarrow> world \<Rightarrow> bool" where
  "kept A u cs b w \<longleftrightarrow> disp_inv (w_queue w) \<and> (\<forall>n \<in> A. due w n)
     \<and> (\<forall>n. c_disconnected_ch (w_cl w) = Some n \<longrightarrow> has_reader (snd u) w n)
     \<and> (\<forall>th \<in> insert u (set (w_threads w)). list_all (fine (snd u) w (fst th)) (snd th))
     \<and> closers w = cs \<and> c_cb_queue (w_cl w) = b"

lemma ends_carries_on:
  "ends us w t \<Longrightarrow> carries_on w w' \<Longrightarrow> disp_inv (w_queue w) \<Longrightarrow> tasks_of w \<subseteq> tasks_of w' \<Longrightarrow> ends us w' t"
  unfolding ends_def has_reader_def carries_on_def by (auto split: task.splits)

lemma starts_fine: "starts h t \<Longrightarrow> fine us w h t"
  by (auto simp: starts_def fine_def ends_def waits_def split: task.splits)

lemma kept_carries_on:
  assumes w: "kept A u cs b w" and c: "carries_on w w'" "tasks_of w \<subseteq> tasks_of w'" "closers w' = closers w"
    and th: "\<And>th. th \<in> set (w_threads w') \<Longrightarrow> th \<in> set (w_threads w) \<or> list_all (starts (fst th)) (snd th)"
    and cl: "c_disconnected_ch (w_cl w') = c_disconnected_ch (w_cl w)" "c_cb_queue (w_cl w') = c_cb_queue (w_cl w)"
  shows "kept A u cs b w'"
proof -
  have "fine (snd u) w' h t" if "fine (snd u) w h t" for h t
    using that ends_carries_on[OF _ c(1) _ c(2)] w by (auto simp: fine_def kept_def)
  then have "list_all (fine (snd u) w' (fst th)) (snd th)" if "th \<in> insert u (set (w_threads w'))" for th
    using that th[of th] w starts_fine by (auto simp: kept_def list_all_iff)
  moreover have "has_reader (snd u) w' n" if "has_reader (snd u) w n" for n
    using that c(1,2) by (auto simp: has_reader_def carries_on_def)
  ultimately show ?thesis using w c cl by (auto simp: kept_def carries_on_def)
qed

lemma kept_calm: "kept A u cs b w \<Longrightarrow> calm w w' \<Longrightarrow> kept A u cs b w'"
  by (erule kept_carries_on) (auto simp: calm_def grows_def wview_def)

lemma kept_same:
  "kept A u cs b w \<Longrightarrow> w_threads w' = w_threads w \<Longrightarrow> w_queue w' = w_queue w
    \<Longrightarrow> set (w_ran w) \<subseteq> set (w_ran w') \<Longrightarrow> set (w_chans w) \<subseteq> set (w_chans w')
    \<Longrightarrow> c_disconnected_ch (w_cl w') = c_disconnected_ch (w_cl w) \<Longrightarrow> c_cb_queue (w_cl w') = c_cb_queue (w_cl w)
    \<Longrightarrow> kept A u cs b w'"
  by (erule kept_carries_on) (auto simp: tasks_of_def closers_def intro: carries_on_same)

lemma client_frames [simp]:
  "has_reader us (w\<lparr>w_cl := c\<rparr>) n = has_reader us w n" "due (w\<lparr>w_cl := c\<rparr>) n = due w n"
  "fine us (w\<lparr>w_cl := c\<rparr>) h t = fine us w h t" "closers (w\<lparr>w_cl := c\<rparr>) = closers w"
  by (simp_all add: has_reader_def tasks_of_def due_def fine_def ends_def closers_def split: task.split)

lemma client_frames_all [simp]: "fine us (w\<lparr>w_cl := c\<rparr>) = fine us w"
  by (simp add: fun_eq_iff)

section \<open>The primitives\<close>

lemma kept_modify:
  assumes "\<And>w. w_threads (f w) = w_threads w" "\<And>w. w_queue (f w) = w_queue w"
    "\<And>w. set (w_ran w) \<subseteq> set (w_ran (f w))" "\<And>w. set (w_chans w) \<subseteq> set (w_chans (f w))"
    "\<And>w. c_disconnected_ch (w_cl (f w)) = c_disconnected_ch (w_cl w)" "\<And>w. c_cb_queue (w_cl (f w)) = c_cb_queue (w_cl w)"
  shows "pres (kept A u cs b) (modify f)"
  unfolding pres_def by (intro allI impI, erule kept_same) (simp_all add: assms)

lemma kept_effects:
  "(\<And>c. c_disconnected_ch (f c) = c_disconnected_ch c) \<Longrightarrow> (\<And>c. c_cb_queue (f c) = c_cb_queue c)
    \<Longrightarrow> pres (kept A u cs b) (modc f)"
  "pres (kept A u cs b) (mods s g)" "pres (kept A u cs b) fresh"
  "pres (kept A u cs b) (stop_timer tm)" "pres (kept A u cs b) (after_func d k)"
proof -
  show "(\<And>c. c_disconnected_ch (f c) = c_disconnected_ch c) \<Longrightarrow> (\<And>c. c_cb_queue (f c) = c_cb_queue c)
      \<Longrightarrow> pres (kept A u cs b) (modc f)"
    unfolding modc_def by (rule kept_modify) simp_all
  show "pres (kept A u cs b) (mods s g)" unfolding mods_def by (rule kept_modify) simp_all
  show fresh: "pres (kept A u cs b) fresh"
    unfolding fresh_def by (intro pres_bind pres_gets pres_return kept_modify) simp_all
  show "pres (kept A u cs b) (stop_timer tm)"
    unfolding stop_timer_def by (intro pres_option pres_return kept_modify) simp_all
  show "pres (kept A u cs b) (after_func d k)"
    unfolding after_func_def by (intro pres_bind pres_return fresh kept_modify) simp_all
qed

lemma kept_spawn: "list_all (starts False) ts \<Longrightarrow> pres (kept A u cs b) (spawn ts)"
proof (rule presI)
  fix w assume ts: "list_all (starts False) ts" and w: "kept A u cs b w"
  from ts have "calm w (after (spawn ts) w)"
    by (intro calmI[where ths = "[(False, ts)]"]) (auto simp: spawn_def grow_defs)
  with w show "kept A u cs b (after (spawn ts) w)" by (rule kept_calm)
qed

lemma kept_requests:
  "pres (kept A u cs b) (addRequest i r cb)" "pres (kept A u cs b) (popRequest i)"
  "pres (kept A u cs b) (sendOn t cmd)"
  unfolding addRequest_def popRequest_def sendOn_def
  by (auto intro!: kept_modify kept_effects kept_spawn steady_rules)

lemma kept_sends:
  "pres (kept A u cs b) (sendAsyncOn t cmd cb)" "pres (kept A u cs b) (sendAsync cmd cb)"
  "pres (kept A u cs b) (onConnect k oper)"
proof -
  show on: "pres (kept A u cs b) (sendAsyncOn t cmd cb)" for t cmd cb
    unfolding sendAsyncOn_def send_def by (auto intro!: kept_requests kept_spawn steady_rules)
  show "pres (kept A u cs b) (sendAsync cmd cb)" unfolding sendAsync_def by (rule on)
  show "pres (kept A u cs b) (onConnect k oper)"
    unfolding onConnect_def nextFutureID_def by (auto intro!: kept_effects kept_spawn steady_rules)
qed

lemma kept_sub_timers:
  "pres (kept A u cs b) (stop_sub_timers s)" "pres (kept A u cs b) (scheduleResubscribe s)"
  "pres (kept A u cs b) (arm_sub_refresh s ttl)"
  unfolding stop_sub_timers_def scheduleResubscribe_def arm_sub_refresh_def
  by (auto intro!: kept_effects steady_rules)

interpretation kept: calm_core "kept A u cs b" for A u cs b
proof
  show "kept A u cs b w'" if "kept A u cs b w" "calm w w'" for A u cs b w w' using that by (rule kept_calm)
qed (auto simp: cfull_def kept_sends kept_sub_timers elim: kept_same)

declare kept.calm_modc [calm_intro del] kept.calm_mods [calm_intro del] kept.calm_effects [calm_intro del]

lemmas kept_intro [steady_intro] = kept_effects kept_spawn kept_requests kept_sends(1) kept_sub_timers(1)
  kept.calm_effects(3-)

section \<open>Transitions\<close>

lemma kept_new: "kept A u cs b w \<Longrightarrow> kept A u cs b (after (NewSubscription ch cfg) w)"
  by (erule kept_same) (auto simp: NewSubscription_def modc_def split_beta)

lemma kept_moves [steady_intro]:
  "pres (kept A u cs b) (updateSubscriptionPushID s x y)"
  "pres (kept A u cs b) (moveToUnsubscribedLocked s c r e)" "pres (kept A u cs b) (moveToSubscribingLocked s c r)"
  "pres (kept A u cs b) (subscribeStart s k)" "pres (kept A u cs b) (invalidateState s)"
  "pres (kept A u cs b) (enterSubscribed h s res pubs ds)" "pres (kept A u cs b) (removeEntry s k)"
  by (auto simp: updateSubscriptionPushID_def moveToUnsubscribedLocked_def moveToSubscribingLocked_def
      subscribeStart_def invalidateState_def enterSubscribed_def removeEntry_def intro!: steady_intro)

lemma kept_subscribed [steady_intro]: "pres (kept A u cs b) (moveToSubscribed h s res g a)"
  by (auto simp: moveToSubscribed_def intro!: steady_intro)

lemma kept_teardown [steady_intro]:
  "pres (kept A u cs b) clearConnectedState" "pres (kept A u cs b) drop_transport"
  "pres (kept A u cs b) (setStateLocked st)" "pres (kept A u cs b) (setTransportLocked t)"
  "pres (kept A u cs b) subs_to_subscribing" "pres (kept A u cs b) scheduleReconnectLocked"
  "pres (kept A u cs b) (scheduleRefreshLocked d)"
  by (auto simp: clearConnectedState_def drop_transport_def setStateLocked_def setTransportLocked_def
      subs_to_subscribing_def scheduleReconnectLocked_def scheduleRefreshLocked_def intro!: steady_intro)

lemma kept_client [steady_intro]:
  "pres (kept A u cs b) (disconnect_now c r)" "pres (kept A u cs b) (reconnect_now h c r)"
  "pres (kept A u cs b) (retry_connecting t)" "pres (kept A u cs b) close_now"
  by (auto simp: disconnect_now_def reconnect_now_def retry_connecting_def close_now_def intro!: steady_intro)

lemma kept_transitions [steady_intro]:
  "pres (kept A u cs b) (moveToDisconnectedIf current c r)" "pres (kept A u cs b) (moveToConnectingFrom h t c r)"
  "pres (kept A u cs b) (closeCall k)" "pres (kept A u cs b) (startConnecting h cl)"
  "pres (kept A u cs b) (startReconnectingIf ex cl)"
  by (auto simp: moveToDisconnectedIf_def moveToConnectingFrom_def closeCall_def startConnecting_def
      startReconnectingIf_def intro!: steady_intro)

lemma kept_sendConnect [steady_intro]: "pres (kept A u cs b) (sendConnect t cb)"
  unfolding sendConnect_def by (auto intro!: steady_intro)

lemma kept_attempts [steady_intro]:
  "pres (kept A u cs b) (connectFailed m tr tok e)"
  "pres (kept A u cs b) (connectOk h m tr dch cres)" "pres (kept A u cs b) (connectingReported m)"
  "pres (kept A u cs b) (scheduleIfCurrent m cl e)" "pres (kept A u cs b) (connectFailedClosed m tok e)"
  "pres (kept A u cs b) (handleRefreshError gen)" "pres (kept A u cs b) (disconnect_refresh gen c r)"
  by (auto simp: connectFailed_def connectOk_def connectingReported_def scheduleIfCurrent_def
      connectFailedClosed_def handleRefreshError_def disconnect_refresh_def intro!: steady_intro)

lemma kept_refreshReply [steady_intro]: "pres (kept A u cs b) (refreshReply h gen x)"
  by (auto simp: refreshReply_def intro!: steady_intro)

interpretation kept: calm_turns "kept A u cs b" for A u cs b
  by unfold_locales (simp_all add: kept_new kept_moves kept_transitions kept_attempts kept_refreshReply)

text \<open>A new disconnect channel gets its reader in the same lock hold.\<close>

lemma kept_new_reader:
  assumes "\<And>x. pres (kept A u cs b) (k x)"
  shows "pres (kept A u cs b) (do { modc (\<lambda>c. c\<lparr>c_disconnected_ch := Some ch\<rparr>); x \<leftarrow> spawn [TClient (Reader t ch)]; k x })"
proof (rule presI)
  fix w assume "kept A u cs b w"
  then have "kept A u cs b (after (spawn [TClient (Reader t ch)]) w)" (is "kept A u cs b ?w")
    by (rule presD[OF kept_spawn, rotated]) simp
  moreover have "has_reader (snd u) ?w ch" by (auto simp: has_reader_def tasks_of_def spawn_def)
  ultimately have "kept A u cs b (?w\<lparr>w_cl := (w_cl ?w)\<lparr>c_disconnected_ch := Some ch\<rparr>\<rparr>)"
    by (simp add: kept_def)
  moreover have "after (do { modc (\<lambda>c. c\<lparr>c_disconnected_ch := Some ch\<rparr>); spawn [TClient (Reader t ch)] }) w
      = ?w\<lparr>w_cl := (w_cl ?w)\<lparr>c_disconnected_ch := Some ch\<rparr>\<rparr>"
    by (simp add: modc_def spawn_def)
  ultimately have "kept A u cs b (after (do { modc (\<lambda>c. c\<lparr>c_disconnected_ch := Some ch\<rparr>); spawn [TClient (Reader t ch)] }) w)"
    by simp
  from presD[OF assms this] show "kept A u cs b (after (do { modc (\<lambda>c. c\<lparr>c_disconnected_ch := Some ch\<rparr>);
      x \<leftarrow> spawn [TClient (Reader t ch)]; k x }) w)"
    by (simp add: split_beta)
qed

lemma kept_dialed [steady_intro]: "pres (kept A u cs b) (dialed h m tr cl)"
  unfolding dialed_def by (auto intro!: kept_new_reader steady_intro)

lemma kept_reading [steady_intro]:
  "pres (kept A u cs b) (popAndFail i e)" "pres (kept A u cs b) (awaitReplyOn late i cch)"
  "pres (kept A u cs b) (reader rd t ch)"
  by (auto simp: popAndFail_def awaitReplyOn_def reader_def handle_def handleReply_def
      intro!: steady_intro split: read_result.split)

lemma kept_run_task:
  assumes "\<And>clt. t = TClient clt \<Longrightarrow> \<not> closes clt"
  shows "pres (kept A u cs b) (run_task a h t)"
proof (cases "special t")
  case True
  then show ?thesis
    by (auto simp: special_def run_task_def run_connect_def run_client_def run_call_def run_sub_def subscribeAgain_def
        intro!: steady_intro split: task.splits connect_task.splits client_task.splits call_task.splits sub_task.splits)
qed (use assms kept.calm_ordinary in blast)

section \<open>What a task leaves in the goroutine\<close>

text \<open>
  The tasks an operation returns: nothing that must not run in a handler if it ran in one, nothing of
  a \<open>Close\<close>, and no wait but for events that are due.
\<close>

definition may_follow :: "nat set \<Rightarrow> bool \<Rightarrow> task \<Rightarrow> bool" where
  "may_follow A h t \<longleftrightarrow> (h \<longrightarrow> may_handle t) \<and> \<not> closing t
     \<and> (case t of WaitEvent n \<Rightarrow> n \<in> A | WaitChan n \<Rightarrow> False | WaitQueueClosed \<Rightarrow> False | _ \<Rightarrow> True)"

abbreviation all_follow :: "nat set \<Rightarrow> bool \<Rightarrow> task list \<Rightarrow> bool" where
  "all_follow A h ts \<equiv> list_all (may_follow A h) ts"

lemma may_follow_simps [simp]:
  "may_follow A h (TConnect ct)" "may_follow A h (TSub st) \<longleftrightarrow> (h \<longrightarrow> may_handle (TSub st))"
  "may_follow A h (TCall cat) \<longleftrightarrow> (h \<longrightarrow> may_handle (TCall cat))"
  "may_follow A h (TClient clt) \<longleftrightarrow> \<not> closing (TClient clt) \<and> (h \<longrightarrow> may_handle (TClient clt))"
  "may_follow A h (WaitEvent n) \<longleftrightarrow> \<not> h \<and> n \<in> A"
  by (auto simp: may_follow_def kinds)

lemma may_follow_mono: "all_follow A h ts \<Longrightarrow> A \<subseteq> B \<Longrightarrow> all_follow B h ts"
  by (auto simp: list_all_iff may_follow_def split: task.splits)

lemma may_follow_waitEvent [simp]: "set_option d \<subseteq> A \<Longrightarrow> all_follow A h (waitEvent h d)"
  by (auto simp: waitEvent_def split: option.split)

definition leaves :: "nat set \<Rightarrow> bool \<Rightarrow> task list op \<Rightarrow> bool" where
  "leaves A h m \<longleftrightarrow> (\<forall>u cs b w. kept A u cs b w \<longrightarrow> all_follow {n. due (after m w) n} h (outcome m w))"

named_theorems leaves_intro \<open>rules for what an operation leaves in the goroutine\<close>

lemma leaves_return [leaves_intro]: "all_follow A h ts \<Longrightarrow> leaves A h (ret ts)"
  by (auto simp: leaves_def kept_def intro: may_follow_mono)

lemma leaves_bind [leaves_intro]:
  "(\<And>u cs b. pres (kept A u cs b) m) \<Longrightarrow> (\<And>x. leaves A h (k x)) \<Longrightarrow> leaves A h (State_Monad.bind m k)"
  unfolding leaves_def pres_def after_bind outcome_bind by blast

lemma leaves_bind_result:
  "(\<And>u cs b. pres (kept A u cs b) m) \<Longrightarrow> (\<And>w. P (outcome m w)) \<Longrightarrow> (\<And>x. P x \<Longrightarrow> leaves A h (k x))
    \<Longrightarrow> leaves A h (State_Monad.bind m k)"
  unfolding leaves_def pres_def after_bind outcome_bind by blast

lemma leaves_if [leaves_intro]: "(p \<Longrightarrow> leaves A h m) \<Longrightarrow> (\<not> p \<Longrightarrow> leaves A h n) \<Longrightarrow> leaves A h (if p then m else n)"
  by simp

lemma leaves_option [leaves_intro]:
  "(x = None \<Longrightarrow> leaves A h m) \<Longrightarrow> (\<And>y. x = Some y \<Longrightarrow> leaves A h (n y)) \<Longrightarrow> leaves A h (case x of None \<Rightarrow> m | Some y \<Rightarrow> n y)"
  by (cases x) auto

lemma leaves_sum [leaves_intro]:
  "(\<And>y. x = Inl y \<Longrightarrow> leaves A h (m y)) \<Longrightarrow> (\<And>y. x = Inr y \<Longrightarrow> leaves A h (n y))
    \<Longrightarrow> leaves A h (case x of Inl y \<Rightarrow> m y | Inr y \<Rightarrow> n y)"
  by (cases x) auto

lemma leaves_prod [leaves_intro]:
  "(\<And>y z. x = (y, z) \<Longrightarrow> leaves A h (m y z)) \<Longrightarrow> leaves A h (case x of (y, z) \<Rightarrow> m y z)"
  by (cases x) auto

lemma leaves_cases [leaves_intro]:
  "leaves A h m1 \<Longrightarrow> leaves A h m2 \<Longrightarrow> leaves A h m3 \<Longrightarrow> leaves A h m4
    \<Longrightarrow> leaves A h (case st of StateDisconnected \<Rightarrow> m1 | StateConnecting \<Rightarrow> m2 | StateConnected \<Rightarrow> m3 | StateClosed \<Rightarrow> m4)"
  "leaves A h m1 \<Longrightarrow> leaves A h m2 \<Longrightarrow> leaves A h m3
    \<Longrightarrow> leaves A h (case p of PingSeen \<Rightarrow> m1 | PingTimeout \<Rightarrow> m2 | PingClosed \<Rightarrow> m3)"
  by ((cases st; simp), (cases p; simp))

text \<open>An event an operation queued is due, also if the queue did not take it any more.\<close>

lemma kept_more: "kept A u cs b w \<Longrightarrow> (\<And>n. n \<in> B \<Longrightarrow> due w n) \<Longrightarrow> kept (A \<union> B) u cs b w"
  by (auto simp: kept_def)

lemma leaves_bind_due:
  assumes "\<And>u cs b. pres (kept A u cs b) m"
    "\<And>u cs b w n. kept A u cs b w \<Longrightarrow> outcome m w = Some n \<Longrightarrow> due (after m w) n"
    "\<And>d. leaves (A \<union> set_option d) h (k d)"
  shows "leaves A h (State_Monad.bind m k)"
  unfolding leaves_def
proof (intro allI impI)
  fix u cs b w assume w: "kept A u cs b w"
  have "kept (A \<union> set_option (outcome m w)) u cs b (after m w)"
    using presD[OF assms(1) w] assms(2)[OF w] by (intro kept_more) auto
  with assms(3)[of "outcome m w"] show "all_follow {n. due (after (State_Monad.bind m k) w) n} h (outcome (State_Monad.bind m k) w)"
    unfolding leaves_def after_bind outcome_bind by blast
qed

lemma push_job_due:
  assumes "disp_inv (w_queue w)" "fst (outcome (push_job j) w)"
  shows "due (after (push_job j) w) (snd (outcome (push_job j) w))"
  using assms push_ids(2) by (simp add: push_job_run due_def)

lemma queueEvent_due: "disp_inv (w_queue w) \<Longrightarrow> due (after (queueEvent j) w) (outcome (queueEvent j) w)"
  using push_job_due[of w j] by (auto simp: queueEvent_def split_beta due_def)

lemma queue_if_due: "kept A u cs b w \<Longrightarrow> outcome (queue_if p j) w = Some n \<Longrightarrow> due (after (queue_if p j) w) n"
  using queueEvent_due[of w j] by (auto simp: queue_if_def kept_def split_beta split: if_splits)

lemma queue_each_due:
  "kept A u cs b w \<Longrightarrow> (\<And>n. d = Some n \<Longrightarrow> due w n) \<Longrightarrow> outcome (queue_each es d) w = Some n
    \<Longrightarrow> due (after (queue_each es d) w) n"
proof (induction es arbitrary: d w)
  case (Cons e es)
  let ?w = "after (queueEvent (JEvents [e])) w"
  have "kept A u cs b ?w" by (rule presD[OF kept.calm_queue(1) Cons.prems(1)])
  moreover have "due ?w (outcome (queueEvent (JEvents [e])) w)"
    using Cons.prems(1) by (intro queueEvent_due) (simp add: kept_def)
  ultimately show ?case using Cons.IH[of ?w "Some (outcome (queueEvent (JEvents [e])) w)"] Cons.prems(3)
    by (simp add: split_beta)
qed simp

lemma leaves_queue_if [leaves_intro]:
  "(\<And>d. leaves (A \<union> set_option d) h (k d)) \<Longrightarrow> leaves A h (State_Monad.bind (queue_if p j) k)"
  by (rule leaves_bind_due) (auto intro: steady_intro queue_if_due)

text \<open>Tasks one operation returned are in front of those the next one adds.\<close>

lemma leaves_bind_tasks:
  assumes m: "\<And>u cs b. pres (kept A u cs b) m" "leaves A h m"
    and k: "\<And>B ts. all_follow (A \<union> B) h ts \<Longrightarrow> leaves (A \<union> B) h (k ts)"
  shows "leaves A h (State_Monad.bind m k)"
  unfolding leaves_def
proof (intro allI impI)
  fix u cs b w assume w: "kept A u cs b w"
  let ?B = "{n. due (after m w) n}"
  have 1: "kept A u cs b (after m w)" using m(1) w by (rule presD)
  then have "kept (A \<union> ?B) u cs b (after m w)" by (rule kept_more) simp
  moreover have "all_follow (A \<union> ?B) h (outcome m w)"
    using m(2) w unfolding leaves_def by (blast intro: may_follow_mono)
  ultimately show "all_follow {n. due (after (State_Monad.bind m k) w) n} h (outcome (State_Monad.bind m k) w)"
    using k[of ?B "outcome m w"] unfolding leaves_def after_bind outcome_bind by blast
qed

section \<open>Every operation\<close>

lemma leaves_runHandlerSync: "\<not> h \<Longrightarrow> leaves A h (runHandlerSync j)"
  unfolding leaves_def
proof (intro allI impI)
  fix u cs b w assume "\<not> h" "kept A u cs b w"
  then show "all_follow {n. due (after (runHandlerSync j) w) n} h (outcome (runHandlerSync j) w)"
    using push_job_due[of w j] by (auto simp: runHandlerSync_def split_beta kept_def)
qed

lemma leaves_handlers [leaves_intro]:
  "\<not> h \<Longrightarrow> leaves A h (runHandlerSync j)" "leaves A h (runHandlerSyncReentrant h j)"
  "leaves A h (handleError h e)" "\<not> h \<Longrightarrow> leaves A h (emitError s e)" "\<not> h \<Longrightarrow> leaves A h (handleMessage m)"
proof -
  show "leaves A h (runHandlerSync j)" if "\<not> h" using that by (rule leaves_runHandlerSync)
  show re: "leaves A h (runHandlerSyncReentrant h j)" for j
  proof (cases h)
    case True
    then show ?thesis
      by (auto simp: leaves_def runHandlerSyncReentrant_def runHandlerSync_def split_beta)
  next
    case False
    then show ?thesis unfolding runHandlerSyncReentrant_def by (auto intro!: leaves_intro steady_intro leaves_runHandlerSync)
  qed
  show "leaves A h (handleError h e)" unfolding handleError_def by (auto intro!: leaves_intro steady_intro re)
  show "\<not> h \<Longrightarrow> leaves A h (emitError s e)" "\<not> h \<Longrightarrow> leaves A h (handleMessage m)"
    unfolding emitError_def handleMessage_def by (auto intro!: leaves_intro steady_intro leaves_runHandlerSync)
qed

lemmas leaves_handleError [leaves_intro] = leaves_bind_tasks[OF kept.steady_errors(1) leaves_handlers(3)]

lemma leaves_popAndFail [leaves_intro]: "\<not> h \<Longrightarrow> leaves A h (popAndFail i e)"
  unfolding popAndFail_def by (auto intro!: leaves_intro steady_intro)

lemma leaves_requests [leaves_intro]:
  "\<not> h \<Longrightarrow> leaves A h (awaitReply i)" "\<not> h \<Longrightarrow> leaves A h (awaitReplyOn late i cch)"
  "leaves A h (onConnect k oper)" "leaves A h (clientCall k oper)"
  unfolding awaitReply_def awaitReplyOn_def onConnect_def clientCall_def
  by (auto simp: kinds intro!: leaves_intro steady_intro)

lemma leaves_sub_calls [leaves_intro]:
  "leaves A h (runSubOperation s k oper e)" "leaves A h (subFutureTimeout s i)" "leaves A h (subCall s k oper)"
  "leaves A h (subscribeCall s k)" "leaves A h (subscribeRegistered s k)" "leaves A h (subscribeStart s k)"
  "leaves A h (subscribeConnected s k)" "leaves A h (unsubscribeCall s k)" "leaves A h (removeCall s k)"
proof -
  show run: "leaves A h (runSubOperation s k oper e)" for k oper e
    unfolding runSubOperation_def by (auto simp: kinds intro!: leaves_intro steady_intro)
  show "leaves A h (subFutureTimeout s i)"
    unfolding subFutureTimeout_def by (auto simp: kinds intro!: leaves_intro steady_intro run)
qed (auto simp: kinds subCall_def subscribeCall_def subscribeRegistered_def subscribeStart_def
    subscribeConnected_def unsubscribeCall_def removeCall_def intro!: leaves_intro steady_intro)

text \<open>What a goroutine that finds its subscribe outdated goes on with.\<close>

lemma may_follow_locks:
  "all_follow A h (snd (outcome (lockCurrentAttempt s a) w))"
  "all_follow A h (snd (outcome (lockCurrentSubscribe s a g) w))"
  by (auto simp: lockCurrentAttempt_def lockCurrentSubscribe_def kinds)

lemmas leaves_locks [leaves_intro] =
  leaves_bind_result[where P = "\<lambda>x. all_follow A h (snd x)" and A = A and h = h for A h, OF kept.steady_flow1(4) may_follow_locks(1)]
  leaves_bind_result[where P = "\<lambda>x. all_follow A h (snd x)" and A = A and h = h for A h, OF kept.steady_flow2(2) may_follow_locks(2)]

lemma leaves_flow [leaves_intro]:
  "leaves A h (resubscribe s)" "h \<longrightarrow> \<not> async \<Longrightarrow> leaves A h (continueResubscribe s async)"
  "\<not> h \<Longrightarrow> leaves A h (getState s)" "\<not> h \<Longrightarrow> leaves A h (gotState res s a i)"
  "\<not> h \<Longrightarrow> leaves A h (getStateFailed s a)" "\<not> h \<Longrightarrow> leaves A h (gotSubToken tk s a i)"
  "\<not> h \<Longrightarrow> leaves A h (subscribeError s e a g)" "\<not> h \<Longrightarrow> leaves A h (subscribeUnrecoverable s a g)"
  "\<not> h \<Longrightarrow> leaves A h (subscribeErrorReported s e a g)"
  by (auto simp: kinds resubscribe_def continueResubscribe_def getState_def gotState_def getStateFailed_def
      gotSubToken_def subscribeError_def subscribeUnrecoverable_def subscribeErrorReported_def
      intro!: leaves_intro steady_intro)

lemma leaves_enterSubscribed [leaves_intro]: "leaves A h (enterSubscribed h s res pubs ds)"
  unfolding enterSubscribed_def by (auto intro!: leaves_intro steady_intro split: option.split)

lemma leaves_subscribed [leaves_intro]:
  "\<not> h \<Longrightarrow> leaves A h (moveToSubscribed h s res g a)" "\<not> h \<Longrightarrow> leaves A h (deltaFailed h s off e)"
  unfolding moveToSubscribed_def deltaFailed_def by (auto simp: kinds intro!: leaves_intro steady_intro)

lemma leaves_sub_pushes [leaves_intro]:
  "\<not> h \<Longrightarrow> leaves A h (handlePublication h s p)" "leaves A h (handleJoin h s i)" "leaves A h (handleLeave h s i)"
  "\<not> h \<Longrightarrow> leaves A h (handleUnsubscribe s un)" "leaves A h (subscribeAgain s c r)"
  by (auto simp: kinds handlePublication_def handleJoin_def handleLeave_def handleUnsubscribe_def subscribeAgain_def
      intro!: leaves_intro steady_intro)

lemma leaves_sub_refresh [leaves_intro]:
  "\<not> h \<Longrightarrow> leaves A h (refresh s n)" "\<not> h \<Longrightarrow> leaves A h (gotRefreshSubToken tk s n i)"
  "\<not> h \<Longrightarrow> leaves A h (subRefreshSend s n i tok)" "\<not> h \<Longrightarrow> leaves A h (subRefreshReply s n i r)"
  by (auto simp: kinds refresh_def gotRefreshSubToken_def subRefreshSend_def subRefreshReply_def
      intro!: leaves_intro steady_intro split: option.split)

lemma leaves_transitions [leaves_intro]:
  "leaves A h (reconnect_now h c r)" "leaves A h (moveToConnectingFrom h t c r)" "leaves A h invalidateConnectionState"
  "leaves A h (handleTransportDisconnect t d)" "leaves A h (disconnectCall k)"
proof -
  show re: "leaves A h (reconnect_now h c r)" for c r
    unfolding reconnect_now_def by (auto simp: kinds intro!: leaves_intro steady_intro split: option.split)
  show "leaves A h (moveToConnectingFrom h t c r)"
    by (auto simp: moveToConnectingFrom_def intro!: leaves_intro steady_intro re split: option.split cstate.split)
  show "leaves A h invalidateConnectionState" "leaves A h (disconnectCall k)"
    unfolding invalidateConnectionState_def disconnectCall_def
    by (auto simp: kinds list_all_iff intro!: leaves_intro steady_intro)
  show "leaves A h (handleTransportDisconnect t d)"
    unfolding handleTransportDisconnect_def by (auto simp: kinds Let_def intro!: leaves_intro steady_intro split: option.split)
qed

lemma leaves_refreshToken [leaves_intro]:
  "(\<And>B. may_follow B h t) \<Longrightarrow> (\<And>x B. may_follow B h (f x)) \<Longrightarrow> leaves A h (refreshToken h t f)"
  unfolding refreshToken_def by (auto intro!: leaves_intro steady_intro)

lemma leaves_connecting [leaves_intro]:
  "leaves A h (startConnecting h k)" "leaves A h (startReconnectingIf ex k)" "leaves A h (connectToken h n r k)"
  "leaves A h (gotConnectToken h n r k tk)" "leaves A h (dial h eo n r k)"
  "leaves A h (connectReply h n tr tok ch x)" "leaves A h (connectFailed n tr tok e)" "leaves A h (connectOk h n tr ch res)"
  unfolding startConnecting_def startReconnectingIf_def connectToken_def gotConnectToken_def dial_def connectReply_def
    connectFailed_def connectOk_def
  by (auto simp: kinds intro!: leaves_intro steady_intro kept_modify)

lemma leaves_new_reader:
  assumes "\<And>x. leaves A h (k x)"
  shows "leaves A h (do { modc (\<lambda>c. c\<lparr>c_disconnected_ch := Some ch\<rparr>); x \<leftarrow> spawn [TClient (Reader t ch)]; k x })"
proof -
  have "pres (kept A u cs b) (do { modc (\<lambda>c. c\<lparr>c_disconnected_ch := Some ch\<rparr>); spawn [TClient (Reader t ch)] })" for u cs b
    using kept_new_reader[of A u cs b "State_Monad.return"] by (auto intro: steady_rules)
  from leaves_bind[OF this assms] show ?thesis by simp
qed

lemma leaves_dialed [leaves_intro]: "leaves A h (dialed h n tr k)"
  unfolding dialed_def by (auto simp: kinds intro!: leaves_intro leaves_new_reader steady_intro)

lemma leaves_connectSubs [leaves_intro]:
  "leaves A h (connectSubs h n tr ch res rest)" "leaves A h (connectDone n tr ch res)"
proof -
  show "leaves A h (connectSubs h n tr ch res rest)"
    by (cases rest) (auto simp: connectSubs_def intro!: leaves_intro steady_intro split: option.split)
  show "leaves A h (connectDone n tr ch res)"
    unfolding connectDone_def by (auto simp: kinds list.pred_map comp_def list_all_iff intro!: leaves_intro steady_intro)
qed

lemma leaves_connectUnsubs [leaves_intro]: "leaves A h (connectUnsubs h n tr ch res)"
  unfolding connectUnsubs_def
  by (intro leaves_bind leaves_if leaves_return pres_gets kept_effects(1) kept.steady_client1
      leaves_bind_due[where m = "if b then queue_each es None else ret None" for b es])
    (auto intro!: steady_intro intro: queue_each_due)

lemma leaves_refresh [leaves_intro]:
  "leaves A h (sendRefresh h g)" "leaves A h (gotRefreshToken h g tk)" "leaves A h (refreshReply h g x)"
  unfolding sendRefresh_def gotRefreshToken_def refreshReply_def
  by (auto simp: kinds intro!: leaves_intro steady_intro)

lemma leaves_server_pushes [leaves_intro]:
  "leaves A h (handleServerPublication h c p)" "leaves A h (handleServerJoin h c i)"
  "leaves A h (handleServerLeave h c i)" "leaves A h (handleServerSub h c sp)" "leaves A h (handleServerUnsub h c)"
  unfolding handleServerPublication_def handleServerJoin_def handleServerLeave_def handleServerSub_def
    handleServerUnsub_def
  by (auto intro!: leaves_intro steady_intro)

lemma leaves_reading [leaves_intro]:
  "\<not> h \<Longrightarrow> leaves A h (runCallback cb x)" "\<not> h \<Longrightarrow> leaves A h (handlePush t p)"
  "leaves A h (waitServerPing pw t ch png)"
proof -
  show "\<not> h \<Longrightarrow> leaves A h (runCallback cb x)"
    by (cases cb) (auto simp: kinds runCallback_def intro!: leaves_intro steady_intro)
  show "\<not> h \<Longrightarrow> leaves A h (handlePush t p)"
    unfolding handlePush_def push_tasks_def unknown_def
    by (auto simp: kinds intro!: leaves_intro steady_intro split: option.split)
  show "leaves A h (waitServerPing pw t ch png)"
    unfolding waitServerPing_def by (auto simp: kinds intro!: leaves_intro steady_intro)
qed

lemma leaves_reader [leaves_intro]: "\<not> h \<Longrightarrow> leaves A h (reader rd t ch)"
proof -
  assume h: "\<not> h"
  have reply: "leaves A h (handle t r)" for r
    unfolding handle_def handleReply_def using h by (auto simp: kinds intro!: leaves_intro steady_intro)
  have "pres (kept A u cs b) (handle t r)" for A u cs b r
    unfolding handle_def handleReply_def by (auto intro!: steady_intro)
  note pres_handle = this
  show "leaves A h (reader rd t ch)"
  proof (cases rd)
    case (GotReply r)
    have "leaves A h (do { ts \<leftarrow> handle t r; ret (ts @ [TClient (Reader t ch)]) })"
      by (rule leaves_bind_tasks[OF pres_handle reply], rule leaves_return) (use h in simp)
    with GotReply show ?thesis by (simp add: reader_def)
  qed (auto simp: reader_def intro!: leaves_intro steady_intro)
qed

section \<open>One step of a goroutine\<close>

lemma leaves_connect: "leaves A h (run_connect a h t)"
  by (cases t) (auto simp: kinds run_connect_def intro!: leaves_intro steady_intro)

lemma leaves_client:
  "(h \<longrightarrow> may_handle (TClient t)) \<Longrightarrow> \<not> closing (TClient t) \<Longrightarrow> (\<And>k. t \<noteq> CloseCall k) \<Longrightarrow> leaves A h (run_client a h t)"
  by (cases t) (auto simp: kinds run_client_def intro!: leaves_intro steady_intro)

lemma leaves_call: "(h \<longrightarrow> may_handle (TCall t)) \<Longrightarrow> leaves A h (run_call a t)"
  by (cases t) (auto simp: kinds run_call_def intro!: leaves_intro steady_intro)

lemma leaves_sub: "(h \<longrightarrow> may_handle (TSub t)) \<Longrightarrow> leaves A h (run_sub a h t)"
  by (cases t) (auto simp: kinds run_sub_def intro!: leaves_intro steady_intro)

lemma leaves_run_task:
  assumes "h \<longrightarrow> may_handle t" "\<not> waits t" "\<not> closing t" "\<And>k. t \<noteq> TClient (CloseCall k)"
  shows "leaves A h (run_task a h t)"
  using assms leaves_connect leaves_client leaves_call leaves_sub
  by (cases t) (auto simp: run_task_def waits_def)

text \<open>The segments of \<open>Close\<close>.\<close>

lemma closing_cases:
  assumes "closing t"
  obtains st chs k where "t = TClient (CloseReport st chs k)" | k where "t = TClient (CloseWaitReader k)"
    | q k where "t = TClient (CloseQueue q k)"
  using assms by (auto simp: closing_def split: task.splits client_task.splits)

lemma may_follow_fine: "may_follow {n. due w n} h t \<Longrightarrow> fine us w h t"
  by (auto simp: may_follow_def fine_def ends_def split: task.splits)

text \<open>
  What running a task does: the other goroutines are as before, the new tasks of this one are fine, and
  \<open>Close\<close> goes on with one segment after the other.
\<close>

definition runs_well :: "cstate \<Rightarrow> bool \<Rightarrow> task \<Rightarrow> task list \<Rightarrow> task list \<Rightarrow> bool \<Rightarrow> task list \<Rightarrow> world \<Rightarrow> bool" where
  "runs_well st h t ts cs b new w' \<longleftrightarrow>
     (\<exists>b'. kept {} (h, t # ts) cs b' w' \<and> list_all (fine (t # ts) w' h) new
        \<and> (b' = b \<or> closing t) \<and> length (filter closing new) \<le> 1
        \<and> (filter closing new \<noteq> [] \<longrightarrow> b' = b \<and> (closing t \<or> c_state (w_cl w') = StateClosed))
        \<and> (\<not> closing t \<longrightarrow> filter closing new = [] \<or> st \<noteq> StateClosed))"

lemma runs_ready:
  assumes w: "kept {} (h, t # ts) cs b w" and t: "\<not> waits t" "\<not> closing t" "\<And>k. t \<noteq> TClient (CloseCall k)"
  shows "runs_well (c_state (w_cl w)) h t ts cs b (outcome (run_task a h t) w) (after (run_task a h t) w)"
proof -
  have h: "h \<longrightarrow> may_handle t" using w by (simp add: kept_def fine_def)
  have "kept {} (h, t # ts) cs b (after (run_task a h t) w)"
    using t(2) by (intro presD[OF kept_run_task w]) (auto simp: closing_def closes_def split: client_task.splits)
  moreover have r: "all_follow {n. due (after (run_task a h t) w) n} h (outcome (run_task a h t) w)"
    using leaves_run_task[OF h t] w unfolding leaves_def by blast
  then have "list_all (fine (t # ts) (after (run_task a h t) w) h) (outcome (run_task a h t) w)"
    by (auto simp: list_all_iff intro: may_follow_fine)
  moreover have "filter closing (outcome (run_task a h t) w) = []"
    using r by (auto simp: list_all_iff may_follow_def filter_empty_conv)
  ultimately show ?thesis unfolding runs_well_def by (intro exI[of _ b]) simp
qed

lemma runs_waits:
  assumes w: "kept {} (h, t # ts) cs b w" and t: "waits t"
  shows "runs_well (c_state (w_cl w)) h t ts cs b (outcome (run_task a h t) w) (after (run_task a h t) w)"
proof -
  have "fine (t # ts) w h t" "\<not> closing t" using w t by (auto simp: kept_def waits_def closing_def split: task.splits)
  then show ?thesis using w t
    by (cases t) (auto simp: run_task_def waits_def runs_well_def)
qed

lemma runs_closeCall:
  assumes w: "kept {} (h, t # ts) cs b w" and t: "t = TClient (CloseCall k)"
  shows "runs_well (c_state (w_cl w)) h t ts cs b (outcome (run_task a h t) w) (after (run_task a h t) w)"
proof -
  have "kept {} (h, t # ts) cs b (after (closeCall k) w)" by (rule presD[OF kept_transitions(3) w])
  moreover have "c_state (w_cl (after close_now w)) = StateClosed"
    using does_close by (simp add: conn_does_def conn_def split_beta)
  ultimately show ?thesis
    by (auto simp: t run_task_def run_client_def runs_well_def closeCall_def split_beta list_all_iff fine_def ends_def
        kinds filter_empty_conv)
qed

lemma runs_closing:
  assumes w: "kept {} (h, t # ts) cs True w" and t: "closing t"
  shows "runs_well (c_state (w_cl w)) h t ts cs True (outcome (run_task a h t) w) (after (run_task a h t) w)"
  using t
proof (cases rule: closing_cases)
  case (1 st chs k)
  have "kept {} (h, t # ts) cs True (after (closeReport st chs k) w)" by (rule presD[OF kept.steady_client1(5) w])
  then show ?thesis
    by (auto simp: 1 run_task_def run_client_def runs_well_def closeReport_def split_beta fine_def ends_def kinds)
next
  case (2 k)
  then show ?thesis using w
    by (auto simp: run_task_def run_client_def runs_well_def closeWaitReader_def kept_def fine_def ends_def kinds
        split: option.split)
next
  case (3 q k)
  let ?w = "after (closeQueue h q k) w"
  have q: "w_queue ?w = (if q then close_queue (w_queue w) else w_queue w)"
    "w_ran ?w = w_ran w" "w_chans ?w = w_chans w" "w_threads ?w = w_threads w"
    "c_disconnected_ch (w_cl ?w) = None" "\<not> c_cb_queue (w_cl ?w)"
    by (simp_all add: closeQueue_def modc_def)
  have out: "outcome (closeQueue h q k) w = (if q \<and> \<not> h then [WaitQueueClosed] else []) @ [TClient (ReturnErr (Some k) None)]"
    by (simp add: closeQueue_def modc_def)
  have inv: "disp_inv (w_queue w)" using w by (simp add: kept_def)
  then have on: "carries_on w ?w" "disp_inv (w_queue ?w)"
    using close_ids[of "w_queue w"] disp_inv_close[of "w_queue w"] by (auto simp: carries_on_def due_def q)
  have tasks: "tasks_of ?w = tasks_of w" "closers ?w = closers w" by (simp_all add: tasks_of_def closers_def q)
  have "fine (t # ts) ?w g x" if "fine (t # ts) w g x" for g x
    using that ends_carries_on[OF _ on(1) inv] tasks by (auto simp: fine_def)
  then have "kept {} (h, t # ts) cs False ?w"
    using w on(2) tasks q unfolding kept_def by (auto simp: list_all_iff)
  moreover have "list_all (fine (t # ts) ?w h) (outcome (closeQueue h q k) w) \<and> filter closing (outcome (closeQueue h q k) w) = []"
    unfolding out using close_ids(2)[OF inv] q by (auto simp: fine_def ends_def kinds)
  ultimately show ?thesis
    using t by (auto simp: 3 run_task_def run_client_def runs_well_def)
qed

section \<open>One step of the client\<close>

lemma kept_take:
  assumes w: "kept {} (False, []) cs b w" and t: "outcome (take_task i) w = Some (h, t, ts)"
  shows "kept {} (h, t # ts) (closers (after (take_task i) w)) b (after (take_task i) w)"
    "length cs = length (closers (after (take_task i) w)) + length (filter closing (t # ts))"
proof -
  let ?w = "after (take_task i) w"
  have i: "i < length (w_threads w)" "w_threads w ! i = (h, t # ts)"
    using t by (auto simp: take_task_def split: if_splits prod.splits list.splits)
  then have run: "?w = w\<lparr>w_threads := take i (w_threads w) @ drop (Suc i) (w_threads w)\<rparr>"
    by (simp add: take_task_def)
  have ths: "w_threads w = take i (w_threads w) @ (h, t # ts) # drop (Suc i) (w_threads w)"
    using i id_take_nth_drop[of i "w_threads w"] by simp
  then have set: "set (w_threads w) = insert (h, t # ts) (set (w_threads ?w))"
    unfolding run by simp (metis Un_insert_right list.simps(15) set_append)
  then have "tasks_of w = set (t # ts) \<union> tasks_of ?w" by (auto simp: tasks_of_def)
  then have read: "has_reader (t # ts) ?w n \<longleftrightarrow> has_reader [] w n" for n by (auto simp: has_reader_def run)
  then have "fine (t # ts) ?w g x \<longleftrightarrow> fine [] w g x" for g x
    by (simp add: fine_def ends_def due_def run split: task.split)
  then have fine: "fine (t # ts) ?w = fine [] w" by (simp add: fun_eq_iff)
  show "kept {} (h, t # ts) (closers ?w) b ?w"
    using w set unfolding kept_def snd_conv fine read by (simp add: run)
  have "cs = closers w" using w by (simp add: kept_def)
  then show "length cs = length (closers ?w) + length (filter closing (t # ts))"
    by (subst (asm) closers_def, subst (asm) ths) (simp add: closers_def run)
qed

lemma kept_put:
  assumes w: "kept {} (h, t # ts) cs b w" and new: "list_all (fine (t # ts) w h) new"
    and reader: "\<And>tr n. t = TClient (Reader tr n) \<Longrightarrow> n \<in> set (w_chans w) \<or> t \<in> set new"
  shows "kept {} (False, []) (filter closing (new @ ts) @ cs) b (after (put_tasks h (new @ ts)) w)"
proof -
  let ?w = "after (put_tasks h (new @ ts)) w"
  have same: "w_queue ?w = w_queue w" "w_ran ?w = w_ran w" "w_chans ?w = w_chans w" "w_cl ?w = w_cl w"
    by (simp_all add: put_tasks_def)
  have th: "set (w_threads ?w) \<subseteq> insert (h, new @ ts) (set (w_threads w))" by (auto simp: put_tasks_def)
  have "tasks_of ?w = set (new @ ts) \<union> tasks_of w" by (rule put_tasks_fields(5))
  then have read: "has_reader [] ?w n" if "has_reader (t # ts) w n" for n
    using that reader by (auto simp: has_reader_def same)
  then have fine: "fine [] ?w g x" if "fine (t # ts) w g x" for g x
    using that by (auto simp: fine_def ends_def due_def same split: task.splits)
  have "list_all (fine (t # ts) w h) (new @ ts)" using w new by (simp add: kept_def)
  then have "list_all (fine [] ?w (fst x)) (snd x)" if "x \<in> insert (False, []) (set (w_threads ?w))" for x
    using that th w fine by (auto simp: kept_def list_all_iff dest!: subsetD)
  moreover have "closers ?w = filter closing (new @ ts) @ closers w" by (simp add: put_tasks_def closers_def)
  ultimately show ?thesis using w read by (simp add: kept_def same due_def)
qed

lemma run_reader:
  "n \<in> set (w_chans (after (run_task a h (TClient (Reader tr n))) w))
    \<or> TClient (Reader tr n) \<in> set (outcome (run_task a h (TClient (Reader tr n))) w)"
  by (cases "an_read a") (auto simp: run_task_def run_client_def reader_def close_chan_def split_beta)

text \<open>The invariant: all waits will end, and there is one \<open>Close\<close> at most that closes the queue.\<close>

definition orderly :: "world \<Rightarrow> bool" where
  "orderly w \<longleftrightarrow> kept {} (False, []) (closers w) (c_cb_queue (w_cl w)) w \<and> length (closers w) \<le> 1
     \<and> (closers w \<noteq> [] \<longrightarrow> c_state (w_cl w) = StateClosed \<and> c_cb_queue (w_cl w))
     \<and> (\<not> c_cb_queue (w_cl w) \<longrightarrow> c_state (w_cl w) = StateClosed)"

lemma closed_stays:
  "reachable w \<Longrightarrow> client_step w w' \<Longrightarrow> c_state (w_cl w) = StateClosed \<Longrightarrow> c_state (w_cl w') = StateClosed"
  using conn_closed_final[OF conn_step_next] by (auto simp: conn_def)

lemma kept_parts: "kept A u cs b w \<Longrightarrow> closers w = cs \<and> c_cb_queue (w_cl w) = b"
  by (simp add: kept_def)

lemma orderly_thread_step:
  assumes w: "orderly w" and stays: "c_state (w_cl w) = StateClosed \<Longrightarrow> c_state (w_cl (after (thread_step a i) w)) = StateClosed"
  shows "orderly (after (thread_step a i) w)"
proof (cases "outcome (take_task i) w")
  case None
  then show ?thesis using w take_task_none[OF None] by (simp add: thread_step_def split_beta)
next
  case (Some ht)
  obtain h t ts where ht: "outcome (take_task i) w = Some (h, t, ts)" using Some by (cases ht) auto
  let ?w = "after (take_task i) w" and ?b = "c_cb_queue (w_cl w)" and ?cs = "closers (after (take_task i) w)"
  let ?v = "after (run_task a h t) ?w" and ?new = "outcome (run_task a h t) ?w"
  have step: "after (thread_step a i) w = after (put_tasks h (?new @ ts)) ?v"
    using ht by (simp add: thread_step_def split_beta)
  have cl: "w_cl ?w = w_cl w" by (auto simp: take_task_def split: prod.split list.split)
  have "kept {} (False, []) (closers w) ?b w" using w by (simp add: orderly_def)
  note tk = kept_take[OF this ht]
  have alive: "?b" if "closing t" using w tk(2) that by (cases "closers w") (auto simp: orderly_def)
  have "runs_well (c_state (w_cl w)) h t ts ?cs ?b ?new ?v"
    using tk(1) alive runs_closing[of h t ts ?cs ?w a] runs_waits[of h t ts ?cs ?b ?w a]
      runs_closeCall[of h t ts ?cs ?b ?w _ a] runs_ready[of h t ts ?cs ?b ?w a] unfolding cl
    by (cases "closing t"; cases "waits t"; cases "\<exists>k. t = TClient (CloseCall k)") auto
  then obtain b' where r: "kept {} (h, t # ts) ?cs b' ?v" "list_all (fine (t # ts) ?v h) ?new"
      "b' = ?b \<or> closing t" "length (filter closing ?new) \<le> 1"
      "filter closing ?new \<noteq> [] \<Longrightarrow> b' = ?b \<and> (closing t \<or> c_state (w_cl ?v) = StateClosed)"
      "\<not> closing t \<Longrightarrow> filter closing ?new = [] \<or> c_state (w_cl w) \<noteq> StateClosed"
    unfolding runs_well_def by blast
  have put: "kept {} (False, []) (filter closing (?new @ ts) @ ?cs) b' (after (thread_step a i) w)"
    unfolding step using r(1,2) by (rule kept_put) (use run_reader in blast)
  note parts = conjunct1[OF kept_parts[OF put]] conjunct2[OF kept_parts[OF put]]
  have v: "c_state (w_cl (after (thread_step a i) w)) = c_state (w_cl ?v)" unfolding step by (simp add: put_tasks_def)
  have one: "length (closers w) \<le> 1" using w by (simp add: orderly_def)
  have was: "c_state (w_cl w) = StateClosed \<and> ?b" if "closing t \<or> ?cs \<noteq> [] \<or> filter closing ts \<noteq> []"
    using that w tk(2) by (cases "closers w") (auto simp: orderly_def split: if_splits)
  have off: "c_state (w_cl w) = StateClosed" if "\<not> ?b" using that w by (simp add: orderly_def)
  have "length (filter closing (?new @ ts) @ ?cs) \<le> 1"
  proof (cases "filter closing ?new = []")
    case False
    then have "?cs = [] \<and> filter closing ts = []" using r(6) was tk(2) one by (cases "closing t") auto
    with r(4) show ?thesis by simp
  qed (use tk(2) one in \<open>simp split: if_splits\<close>)
  moreover have "c_state (w_cl ?v) = StateClosed \<and> b'" if ne: "filter closing (?new @ ts) @ ?cs \<noteq> []"
  proof (cases "filter closing ?new = []")
    case True
    then have more: "?cs \<noteq> [] \<or> filter closing ts \<noteq> []" using ne by auto
    then have "\<not> closing t" using tk(2) one by auto
    with r(3) was[OF disjI2[OF more]] stays v show ?thesis by auto
  next
    case False
    with r(5,6) was off stays v show ?thesis by (cases "closing t") auto
  qed
  moreover have "c_state (w_cl ?v) = StateClosed" if "\<not> b'" using that r(3) was off stays v by auto
  ultimately show ?thesis unfolding orderly_def parts(1) parts(2) v using put by blast
qed

text \<open>The dispatcher: what it takes from the queue runs before it is taken off the books.\<close>

lemma dispatch_ids:
  assumes "disp_inv q"
  shows "queue_ids q \<subseteq> queue_ids (dispatch_step q) \<union> {n. \<exists>j. q_disp q = Running (n, j)}
    \<and> q_closed (dispatch_step q) = q_closed q"
proof (cases "q_disp q")
  case Looping
  have "queue_inv q" using assms by (simp add: disp_inv_def)
  from dispatch_looping[OF this Looping] Looping show ?thesis
    by (cases "qlist q") (auto simp: queue_ids_def split: option.splits)
qed (auto simp: dispatch_step_def queue_ids_def)

definition dview :: "world \<Rightarrow> (bool \<times> task list) list \<times> (nat \<times> job) cbq \<times> nat list \<times> nat list \<times> nat option \<times> bool" where
  "dview w = (w_threads w, w_queue w, w_ran w, w_chans w, c_disconnected_ch (w_cl w), c_cb_queue (w_cl w))"

lemma dview_job_round: "keeps dview (job_round j)"
proof -
  have "keeps dview (deliver_server_pub ch n p)" "keeps dview (deliver_sub_pub s n pe)" for ch n p s pe
    by (auto simp: keeps_def dview_def deliver_server_pub_def deliver_sub_pub_def isConnectedAttemptLocked_def
        modc_def mods_def panic_def split_beta split: option.split)
  then show ?thesis
    by (cases j rule: job.exhaust) (auto simp: keeps_def dview_def job_round_def deliver_def split_beta split: list.split)
qed

lemma dispatcher_run:
  obtains v where "dview v = dview w" "after dispatcher_step w =
     (case q_disp (w_queue w) of
        Running (n, j) \<Rightarrow> (case outcome (job_round j) w of
            Some j' \<Rightarrow> v\<lparr>w_queue := (w_queue w)\<lparr>q_disp := Running (n, j')\<rparr>\<rparr>
          | None \<Rightarrow> v\<lparr>w_queue := dispatch_step (w_queue w), w_ran := n # w_ran w\<rparr>)
      | _ \<Rightarrow> v\<lparr>w_queue := dispatch_step (w_queue w)\<rparr>)"
proof (cases "q_disp (w_queue w)")
  case (Running nj)
  obtain n j where nj: "nj = (n, j)" by (cases nj)
  have same: "dview (after (job_round j) w) = dview w" using dview_job_round by (simp add: keeps_def)
  then have "w_queue (after (job_round j) w) = w_queue w" "w_ran (after (job_round j) w) = w_ran w"
    by (simp_all add: dview_def)
  with same show ?thesis
    by (intro that[of "after (job_round j) w"]) (auto simp: Running nj dispatcher_step_def split_beta dview_def split: option.split)
qed (use that[of w] in \<open>simp_all add: dispatcher_step_def\<close>)

lemma queue_ids_run: "q_disp q = Running (n, j) \<Longrightarrow> queue_ids (q\<lparr>q_disp := Running (n, j')\<rparr>) = queue_ids q"
  by (auto simp: queue_ids_def)

lemma disp_inv_run: "q_disp q = Running x \<Longrightarrow> disp_inv q \<Longrightarrow> disp_inv (q\<lparr>q_disp := Running y\<rparr>)"
  by (auto simp: disp_inv_def split: if_splits)

lemma dispatcher_carries_on:
  assumes "disp_inv (w_queue w)"
  shows "carries_on w (after dispatcher_step w)"
proof -
  obtain v where v: "dview v = dview w" "after dispatcher_step w =
     (case q_disp (w_queue w) of
        Running (n, j) \<Rightarrow> (case outcome (job_round j) w of
            Some j' \<Rightarrow> v\<lparr>w_queue := (w_queue w)\<lparr>q_disp := Running (n, j')\<rparr>\<rparr>
          | None \<Rightarrow> v\<lparr>w_queue := dispatch_step (w_queue w), w_ran := n # w_ran w\<rparr>)
      | _ \<Rightarrow> v\<lparr>w_queue := dispatch_step (w_queue w)\<rparr>)"
    by (rule dispatcher_run)
  show ?thesis
    using dispatch_ids[OF assms] assms disp_inv_dispatch[OF assms] v
    by (auto simp: carries_on_def due_def dview_def queue_ids_run disp_inv_run split: dispatcher.split option.split)
qed

lemma dispatcher_fields:
  "w_threads (after dispatcher_step w) = w_threads w"
  "c_disconnected_ch (w_cl (after dispatcher_step w)) = c_disconnected_ch (w_cl w)"
  "c_cb_queue (w_cl (after dispatcher_step w)) = c_cb_queue (w_cl w)"
proof -
  obtain v where "dview v = dview w" "after dispatcher_step w =
     (case q_disp (w_queue w) of
        Running (n, j) \<Rightarrow> (case outcome (job_round j) w of
            Some j' \<Rightarrow> v\<lparr>w_queue := (w_queue w)\<lparr>q_disp := Running (n, j')\<rparr>\<rparr>
          | None \<Rightarrow> v\<lparr>w_queue := dispatch_step (w_queue w), w_ran := n # w_ran w\<rparr>)
      | _ \<Rightarrow> v\<lparr>w_queue := dispatch_step (w_queue w)\<rparr>)"
    by (rule dispatcher_run)
  then show "w_threads (after dispatcher_step w) = w_threads w"
    "c_disconnected_ch (w_cl (after dispatcher_step w)) = c_disconnected_ch (w_cl w)"
    "c_cb_queue (w_cl (after dispatcher_step w)) = c_cb_queue (w_cl w)"
    by (simp_all add: dview_def split: dispatcher.split option.split prod.split)
qed

lemma kept_dispatcher: "pres (kept A u cs b) dispatcher_step"
proof (rule presI)
  fix w assume w: "kept A u cs b w"
  then have "carries_on w (after dispatcher_step w)" by (intro dispatcher_carries_on) (simp add: kept_def)
  with w show "kept A u cs b (after dispatcher_step w)"
    by (rule kept_carries_on) (simp_all add: dispatcher_fields tasks_of_def closers_def)
qed

lemma kept_fire: "pres (kept A u cs b) (fire_timer n)"
proof -
  have "starts False (timer_task tm)" for tm by (cases tm) (auto simp: timer_task_def)
  then show ?thesis unfolding fire_timer_def
    by (auto intro!: steady_intro kept_modify)
qed

lemma orderly_step:
  assumes "reachable w" "orderly w" "client_step w w'"
  shows "orderly w'"
proof -
  obtain x where x: "w' = after (act x) w" using assms(3) by (auto elim!: client_stepE)
  have stays: "c_state (w_cl w) = StateClosed \<Longrightarrow> c_state (w_cl w') = StateClosed"
    using closed_stays[OF assms(1,3)] .
  have w: "kept {} (False, []) (closers w) (c_cb_queue (w_cl w)) w" using assms(2) by (simp add: orderly_def)
  have other: "orderly w'" if h: "kept {} (False, []) (closers w) (c_cb_queue (w_cl w)) w'"
    using h kept_parts[OF h] assms(2) stays by (auto simp: orderly_def)
  show ?thesis
  proof (cases x)
    case (ThreadStep a i)
    then show ?thesis using orderly_thread_step[OF assms(2), of a i] stays x by (simp add: act_def)
  next
    case (FireTimer n)
    then show ?thesis using other presD[OF kept_fire w] x by (simp add: act_def)
  next
    case Dispatcher
    then show ?thesis using other presD[OF kept_dispatcher w] x by (simp add: act_def)
  next
    case (Api h a)
    then show ?thesis using other kept.steady_api_step[OF w refs.invariant[OF assms(1)]] x by (simp add: act_def)
  qed
qed

lemma orderly_init: "client_init w \<Longrightarrow> orderly w"
  using disp_inv_new
  by (auto simp: client_init_def initial_world_def newClient_def Let_def orderly_def kept_def closers_def)

interpretation order: safe_system client_init client_step orderly
  by unfold_locales (auto intro: orderly_init orderly_step)

section \<open>The dispatcher ends the waits\<close>

definition rounds :: "job \<Rightarrow> nat" where
  "rounds j = (case j of JEvents es \<Rightarrow> length es | JServerPubs ch n ps \<Rightarrow> length ps | JSubPubs s n ps \<Rightarrow> length ps)"

text \<open>How many steps the dispatcher has still to do, at most.\<close>

definition queued_work :: "(nat \<times> job) option list \<Rightarrow> nat" where
  "queued_work xs = sum_list (map (\<lambda>x. case x of None \<Rightarrow> 1 | Some (n, j) \<Rightarrow> rounds j + 3) xs)"

definition dispatcher_work :: "(nat \<times> job) cbq \<Rightarrow> nat" where
  "dispatcher_work q = queued_work (qlist q)
     + (case q_disp q of Looping \<Rightarrow> 1 | Waiting \<Rightarrow> 2 | Running (n, j) \<Rightarrow> rounds j + 2 | Stopped \<Rightarrow> 0)"

lemma queued_work_simps [simp]:
  "queued_work [] = 0" "queued_work (None # xs) = Suc (queued_work xs)"
  "queued_work (Some (n, j) # xs) = rounds j + 3 + queued_work xs"
  by (simp_all add: queued_work_def)

lemma rounds_less: "outcome (job_round j) w = Some j' \<Longrightarrow> rounds j' < rounds j"
  by (cases j rule: job.exhaust) (auto simp: rounds_def job_round_def split_beta split: list.splits if_splits)

lemma dispatch_step_less:
  assumes "disp_inv q" "qlist q \<noteq> [] \<or> (\<exists>x. q_disp q = Running x)"
  shows "dispatcher_work (dispatch_step q) < dispatcher_work q"
proof (cases "q_disp q")
  case Looping
  have "queue_inv q" using assms(1) by (simp add: disp_inv_def)
  from dispatch_looping[OF this Looping] show ?thesis
    using assms(2) Looping by (cases "qlist q"; cases "hd (qlist q)") (auto simp: dispatcher_work_def)
next
  case Waiting
  then have "q_notify q" using assms by (auto simp: disp_inv_def)
  with Waiting show ?thesis by (simp add: dispatch_step_def dispatcher_work_def)
next
  case (Running x)
  then show ?thesis by (cases x) (simp add: dispatch_step_def dispatcher_work_def)
next
  case Stopped
  then show ?thesis using assms by (auto simp: disp_inv_def split: if_splits)
qed

lemma dispatcher_less:
  assumes "disp_inv (w_queue w)" "qlist (w_queue w) \<noteq> [] \<or> (\<exists>x. q_disp (w_queue w) = Running x)"
  shows "dispatcher_work (w_queue (after dispatcher_step w)) < dispatcher_work (w_queue w)"
proof -
  obtain v where v: "dview v = dview w" "after dispatcher_step w =
     (case q_disp (w_queue w) of
        Running (n, j) \<Rightarrow> (case outcome (job_round j) w of
            Some j' \<Rightarrow> v\<lparr>w_queue := (w_queue w)\<lparr>q_disp := Running (n, j')\<rparr>\<rparr>
          | None \<Rightarrow> v\<lparr>w_queue := dispatch_step (w_queue w), w_ran := n # w_ran w\<rparr>)
      | _ \<Rightarrow> v\<lparr>w_queue := dispatch_step (w_queue w)\<rparr>)"
    by (rule dispatcher_run)
  then show ?thesis
    using dispatch_step_less[OF assms] rounds_less
    by (auto simp: dispatcher_work_def split: dispatcher.split option.split)
qed

text \<open>\<open>m\<close> steps of the dispatcher goroutine alone.\<close>

definition dispatched :: "nat \<Rightarrow> world \<Rightarrow> world" where
  "dispatched m = (\<lambda>w. after dispatcher_step w) ^^ m"

lemma dispatched_Suc: "dispatched (Suc m) w = dispatched m (after dispatcher_step w)"
  unfolding dispatched_def funpow_Suc_right by simp

lemma dispatcher_reaches:
  assumes "disp_inv (w_queue w)" "I w"
    and step: "\<And>w. disp_inv (w_queue w) \<Longrightarrow> I w \<Longrightarrow> \<not> P w
      \<Longrightarrow> I (after dispatcher_step w) \<and> (qlist (w_queue w) \<noteq> [] \<or> (\<exists>x. q_disp (w_queue w) = Running x))"
  shows "\<exists>m. P (dispatched m w)"
  using assms(1,2)
proof (induction "dispatcher_work (w_queue w)" arbitrary: w rule: less_induct)
  case less
  show ?case
  proof (cases "P w")
    case True
    then show ?thesis by (intro exI[of _ 0]) (simp add: dispatched_def)
  next
    case False
    have "disp_inv (w_queue (after dispatcher_step w))"
      using dispatcher_carries_on[OF less.prems(1)] less.prems(1) by (simp add: carries_on_def)
    with less step[OF less.prems False] dispatcher_less[OF less.prems(1)]
    obtain m where "P (dispatched m (after dispatcher_step w))" by blast
    then show ?thesis by (intro exI[of _ "Suc m"]) (simp add: dispatched_Suc)
  qed
qed

lemma due_runs: "disp_inv (w_queue w) \<Longrightarrow> due w n \<Longrightarrow> \<exists>m. n \<in> set (w_ran (dispatched m w))"
proof (rule dispatcher_reaches[where I = "\<lambda>w. due w n"])
  fix w assume w: "disp_inv (w_queue w)" "due w n" "n \<notin> set (w_ran w)"
  have "due (after dispatcher_step w) n" using dispatcher_carries_on[OF w(1)] w(1,2) by (simp add: carries_on_def)
  moreover have "qlist (w_queue w) \<noteq> [] \<or> (\<exists>x. q_disp (w_queue w) = Running x)"
    using w(2,3) by (auto simp: due_def queue_ids_def)
  ultimately show "due (after dispatcher_step w) n \<and> (qlist (w_queue w) \<noteq> [] \<or> (\<exists>x. q_disp (w_queue w) = Running x))" ..
qed

lemma closed_drains:
  "disp_inv (w_queue w) \<Longrightarrow> q_closed (w_queue w) \<Longrightarrow> \<exists>m. q_close_ch (w_queue (dispatched m w))"
proof (rule dispatcher_reaches[where I = "\<lambda>w. q_closed (w_queue w)"])
  fix w :: world assume w: "disp_inv (w_queue w)" "q_closed (w_queue w)" "\<not> q_close_ch (w_queue w)"
  have "q_closed (w_queue (after dispatcher_step w))"
    using dispatcher_carries_on[OF w(1)] w(2) by (simp add: carries_on_def)
  moreover have "qlist (w_queue w) \<noteq> []" using w by (simp add: disp_inv_def)
  ultimately show "q_closed (w_queue (after dispatcher_step w))
      \<and> (qlist (w_queue w) \<noteq> [] \<or> (\<exists>x. q_disp (w_queue w) = Running x))" by blast
qed

section \<open>Property\<close>


text \<open>A call of \<open>Connect\<close> that waits for the handler of the connecting event.\<close>

definition demo_wait :: "action list" where
  "demo_wait = [Api False (ApiOnClient HConnecting), Api False ApiConnect, ThreadStep demo_answers 0]"

definition waiting_ok :: "world \<Rightarrow> bool" where
  "waiting_ok w \<longleftrightarrow> w_threads w = [(False, [WaitEvent 1, TConnect (StartReconnectingIf (Some 0) (Some 0))])] \<and> w_ran w = []"

lemma demo_wait_run: "run_then demo_wait waiting_ok demo_start"
  by code_simp


end
