(* ===== verification/Calls.thy ===== *)
theory Calls
  imports Tokens Stale
begin

text \<open>
  The calls of the application as it sees them, \<^verbatim>\<open>client.go\<close> and \<^verbatim>\<open>subscription.go\<close>: what each public
  method starts, the select in which it waits for the answer or for the end of its context, the
  options of a history call, and the methods that only look at the state.
\<close>

section \<open>Making a client\<close>

text \<open>\<open>None\<close> is the panic on an endpoint that does not begin with \<open>ws\<close>.\<close>

definition NewJsonClient :: "(string list \<Rightarrow> string list) \<Rightarrow> string \<Rightarrow> config \<Rightarrow> client option" where
  "NewJsonClient shuffle endpoint config =
     map_option (\<lambda>eps. newClient eps False config) (client_endpoints shuffle endpoint)"

definition NewProtobufClient :: "(string list \<Rightarrow> string list) \<Rightarrow> string \<Rightarrow> config \<Rightarrow> client option" where
  "NewProtobufClient shuffle endpoint config =
     map_option (\<lambda>eps. newClient eps True config) (client_endpoints shuffle endpoint)"

text \<open>Every client the two make is a start of the transition system.\<close>

lemma new_clients_start:
  "NewJsonClient shuffle endpoint config = Some c \<Longrightarrow> client_init (initial_world env c)"
  "NewProtobufClient shuffle endpoint config = Some c \<Longrightarrow> client_init (initial_world env c)"
  unfolding NewJsonClient_def NewProtobufClient_def client_init_def by blast+

section \<open>Options of a history call\<close>

text \<open>A \<open>HistoryOption\<close> changes the options collected so far.\<close>

type_synonym history_option = "history_options \<Rightarrow> history_options"

definition WithHistorySince :: "stream_position option \<Rightarrow> history_option" where
  "WithHistorySince sp options = options\<lparr>ho_since := sp\<rparr>"

definition WithHistoryLimit :: "32 word \<Rightarrow> history_option" where
  "WithHistoryLimit limit options = options\<lparr>ho_limit := limit\<rparr>"

definition WithHistoryReverse :: "bool \<Rightarrow> history_option" where
  "WithHistoryReverse reverse options = options\<lparr>ho_reverse := reverse\<rparr>"

definition apply_options :: "history_option list \<Rightarrow> history_options" where
  "apply_options opts = fold (\<lambda>opt options. opt options) opts
     \<lparr>ho_limit = 0, ho_since = None, ho_reverse = False\<rparr>"

section \<open>Starting a call\<close>

text \<open>
  A call makes its channels and starts the operation; its identity stands for the channels. \<open>h\<close>
  says whether the application calls from inside an event handler. That a closed client or an
  unsubscribed subscription refuses is the first task of the operation (\<open>clientCall\<close>, \<open>subCall\<close>),
  and the select a method ends with is \<open>await_call\<close> below.
\<close>

definition begin_call :: "bool \<Rightarrow> api \<Rightarrow> call op" where
  "begin_call h a = do { k \<leftarrow> gets w_next_call; api_step h a; ret k }"

definition Client_Connect :: "bool \<Rightarrow> call op" where
  "Client_Connect h = begin_call h ApiConnect"

definition Client_Send :: "bool \<Rightarrow> slice \<Rightarrow> call op" where
  "Client_Send h data = begin_call h (ApiCall (OpSend data))"

definition Client_RPC :: "bool \<Rightarrow> string \<Rightarrow> slice \<Rightarrow> call op" where
  "Client_RPC h method data = begin_call h (ApiCall (OpRPC method data))"

definition Client_Publish :: "bool \<Rightarrow> channel \<Rightarrow> slice \<Rightarrow> call op" where
  "Client_Publish h ch data = begin_call h (ApiCall (OpPublish ch data))"

definition Client_History :: "bool \<Rightarrow> channel \<Rightarrow> history_option list \<Rightarrow> call op" where
  "Client_History h ch opts = begin_call h (ApiCall (OpHistory ch (apply_options opts)))"

definition Client_Presence :: "bool \<Rightarrow> channel \<Rightarrow> call op" where
  "Client_Presence h ch = begin_call h (ApiCall (OpPresence ch))"

definition Client_PresenceStats :: "bool \<Rightarrow> channel \<Rightarrow> call op" where
  "Client_PresenceStats h ch = begin_call h (ApiCall (OpPresenceStats ch))"

text \<open>A subscription calls the operation of the client for its channel, which never changes.\<close>

definition begin_sub_call :: "bool \<Rightarrow> sid \<Rightarrow> (channel \<Rightarrow> operation) \<Rightarrow> call op" where
  "begin_sub_call h s oper = do {
     ch \<leftarrow> gets_of s s_channel;
     begin_call h (ApiSubCall s (oper ch)) }"

definition Subscription_Publish :: "bool \<Rightarrow> sid \<Rightarrow> slice \<Rightarrow> call op" where
  "Subscription_Publish h s data = begin_sub_call h s (\<lambda>ch. OpPublish ch data)"

definition Subscription_History :: "bool \<Rightarrow> sid \<Rightarrow> history_option list \<Rightarrow> call op" where
  "Subscription_History h s opts = begin_sub_call h s (\<lambda>ch. OpHistory ch (apply_options opts))"

definition Subscription_Presence :: "bool \<Rightarrow> sid \<Rightarrow> call op" where
  "Subscription_Presence h s = begin_sub_call h s OpPresence"

definition Subscription_PresenceStats :: "bool \<Rightarrow> sid \<Rightarrow> call op" where
  "Subscription_PresenceStats h s = begin_sub_call h s OpPresenceStats"

section \<open>Waiting for the answer\<close>

text \<open>
  The select at the end of a call: it returns the answer or the error of the context. With both
  ready it takes either (\<open>sees_done\<close>); with neither the call goes on waiting (\<open>None\<close>).
\<close>

definition answer_of :: "call \<Rightarrow> world \<Rightarrow> (err + call_result) option" where
  "answer_of k w = map_of (w_results w) k"

definition await_call :: "bool \<Rightarrow> call \<Rightarrow> world \<Rightarrow> (err + call_result) option" where
  "await_call sees_done k w =
    (if k \<in> set (w_ctx_done w) \<and> (sees_done \<or> answer_of k w = None) then Some (Inl (Sentinel ErrContext))
     else answer_of k w)"

section \<open>Looking at the state\<close>

definition Client_State :: "client \<Rightarrow> cstate" where
  "Client_State c = c_state c"

definition isConnected :: "client \<Rightarrow> bool" where
  "isConnected c \<longleftrightarrow> c_state c = StateConnected"

definition isClosed :: "client \<Rightarrow> bool" where
  "isClosed c \<longleftrightarrow> c_state c = StateClosed"

definition Subscription_State :: "sub \<Rightarrow> sstate" where
  "Subscription_State x = s_state x"

text \<open>The second component of a Go map lookup is whether the key is there.\<close>

definition GetSubscription :: "channel \<Rightarrow> client \<Rightarrow> sid option \<times> bool" where
  "GetSubscription ch c = (case gm_get (c_subs c) ch of Some s \<Rightarrow> (Some s, True) | None \<Rightarrow> (None, False))"

text \<open>\<open>Subscriptions\<close> copies the registry entry by entry into a new map.\<close>

definition Client_Subscriptions :: "client \<Rightarrow> (channel, sid) gomap" where
  "Client_Subscriptions c = fold (\<lambda>(k, v) subs. gm_put k v subs) (c_subs c) []"

lemma GetSubscription_iff: "GetSubscription ch c = (Some s, True) \<longleftrightarrow> gm_get (c_subs c) ch = Some s"
  by (simp add: GetSubscription_def split: option.split)

lemma fold_put_get:
  "gm_ok m \<Longrightarrow> gm_get (fold (\<lambda>(k, v) subs. gm_put k v subs) m acc) k =
     (case gm_get m k of Some v \<Rightarrow> Some v | None \<Rightarrow> gm_get acc k)"
proof (induction m arbitrary: acc)
  case Nil
  then show ?case by (simp add: gm_get_def)
next
  case (Cons e m)
  obtain a b where e: "e = (a, b)" by (cases e)
  with Cons.prems have "gm_ok m" "gm_get m a = None"
    by (auto simp: gm_ok_def gm_get_def map_of_eq_None_iff)
  moreover have "gm_get (e # m) k = (if k = a then Some b else gm_get m k)"
    by (simp add: e gm_get_def)
  ultimately show ?case using Cons.IH[of "gm_put a b acc"] e
    by (auto simp: gm.get_put split: option.split)
qed

text \<open>The copy \<open>Subscriptions\<close> returns has the entries of the registry.\<close>

lemma Client_Subscriptions_get: "gm_ok (c_subs c) \<Longrightarrow> gm_get (Client_Subscriptions c) ch = gm_get (c_subs c) ch"
  by (simp add: Client_Subscriptions_def fold_put_get gm.get_new split: option.split)

lemma history_options_applied:
  "apply_options [WithHistoryLimit n, WithHistorySince sp, WithHistoryReverse r]
    = \<lparr>ho_limit = n, ho_since = sp, ho_reverse = r\<rparr>"
  "apply_options (opts @ [WithHistoryLimit n]) = (apply_options opts)\<lparr>ho_limit := n\<rparr>"
  by (simp_all add: apply_options_def WithHistoryLimit_def WithHistorySince_def WithHistoryReverse_def)

section \<open>Answers stay\<close>

interpretation answers: sub_steady "\<lambda>w. prefix rs (w_results w)" for rs
  by unfold_locales (auto intro: prefix_order.trans)

lemma results_grow: "reachable w \<Longrightarrow> client_step\<^sup>*\<^sup>* w w' \<Longrightarrow> prefix (w_results w) (w_results w')"
  using answers.turns.steady_steps[of w w' "w_results w"] by simp

lemma answers_at_most_one:
  assumes "reachable w" "k < w_next_call w" "w_lost w = []"
  shows "length (filter (\<lambda>a. fst a = k) (w_results w)) \<le> 1"
proof -
  have "token_count (CallOf k) w = 1" using tokens.invariant[OF assms(1)] by (simp add: conserved_def)
  then have "waiting k w + int (answered k w) = 1"
    using assms(2,3)
    by (simp add: token_count_def waiting_def answered_def in_answers_length in_lost_def at_rest_def)
  moreover have "0 \<le> waiting k w" by (simp add: waiting_def counts_nonneg)
  ultimately show ?thesis by (simp add: answered_def)
qed

text \<open>
  C12: the answer a call of the application waits for never changes once it is there, whatever runs
  until the call looks at it, and at most one is ever sent: the channels of a call hold one value each,
  so no goroutine of the client blocks on a call whose caller has gone. A call whose context is done
  returns in every state.
\<close>

theorem call_answer_final:
  assumes "reachable w" "client_step\<^sup>*\<^sup>* w w'" "k < w_next_call w'" "w_lost w' = []"
  shows "(answer_of k w = Some r \<longrightarrow> answer_of k w' = Some r)
    \<and> length (filter (\<lambda>a. fst a = k) (w_results w')) \<le> 1
    \<and> (answer_of k w' = None \<longrightarrow> filter (\<lambda>a. fst a = k) (w_results w') = [])
    \<and> (k \<in> set (w_ctx_done w') \<longrightarrow> await_call sees_done k w' \<noteq> None)"
proof -
  have grow: "prefix (w_results w) (w_results w')" using assms(1,2) by (rule results_grow)
  have "length (filter (\<lambda>a. fst a = k) (w_results w')) \<le> 1"
    using answers_at_most_one[OF reachable_steps[OF assms(2,1)] assms(3,4)] .
  moreover have "answer_of k w = Some r \<Longrightarrow> answer_of k w' = Some r"
    using grow by (auto simp: answer_of_def prefix_def map_add_def)
  moreover have "answer_of k w' = None \<Longrightarrow> filter (\<lambda>a. fst a = k) (w_results w') = []"
    by (auto simp: answer_of_def map_of_eq_None_iff filter_empty_conv)
  moreover have "k \<in> set (w_ctx_done w') \<Longrightarrow> await_call sees_done k w' \<noteq> None"
    by (auto simp: await_call_def)
  ultimately show ?thesis by blast
qed

text \<open>A publish that the server answers, on the connection of the subscribed demo client.\<close>

definition demo_publish :: "action list" where
  "demo_publish = [Api False (ApiCall (OpPublish ''ch'' (Some [1])))] @ go 1 3 @ go 2 0
     @ [ThreadStep (says (empty_reply 3)) 0] @ go 1 0"

definition demo_answered :: world where
  "demo_answered = run_actions demo_publish demo_live"

definition demo_cancel :: "action list" where
  "demo_cancel = [Api False (ApiCancel 2), Dispatcher] @ go 2 1"

definition cancelled_ok :: "world \<Rightarrow> bool" where
  "cancelled_ok w \<longleftrightarrow> 2 < w_next_call w \<and> w_lost w = [] \<and> 2 \<in> set (w_ctx_done w)"

lemma demo_calls_run:
  "run_then demo_publish (\<lambda>w. answer_of 2 w = Some (Inr ResNone) \<and> run_then demo_cancel cancelled_ok w) demo_live"
  by code_simp

theorem call_answer_final_witness:
  "answer_of 2 (run_actions demo_cancel demo_answered) = Some (Inr ResNone)
   \<and> await_call True 2 (run_actions demo_cancel demo_answered) \<noteq> None"
  using call_answer_final[OF reachable_run[OF _ reachable_demo(3)] run_steps, of demo_publish demo_cancel 2 _ True]
    demo_calls_run
  unfolding demo_answered_def cancelled_ok_def run_then_iff by blast

end
