(* ===== verification/Divergences.thy ===== *)
theory Divergences
  imports Calls
begin

text \<open>
  Places where the code does something else than its comments say, each as a run of the model.
\<close>

section \<open>A removed subscription that is subscribed\<close>

text \<open>
  \<open>Subscribe\<close> looks the subscription up in the registry before it takes the subscription's lock,
  and \<open>RemoveSubscription\<close> looks at the state of the subscription before it takes the client's.
  With the two running at the same time the subscription is removed between the check and the move
  to subscribing: both calls succeed, and the subscription ends up subscribed while no push and no
  resubscribe reaches it, which the check is there to prevent.
\<close>

definition remove_race :: "action list" where
  "remove_race = [Api False (ApiNew ''ch'' None), Api False (ApiSubscribe 0)] @ go 1 2 @ go 1 0
     @ [Api False (ApiRemove 0)] @ go 1 3 @ go 1 0
     @ go 5 0 @ [ThreadStep (says demo_subscribe_reply) 1] @ go 2 0 @ go 1 1"

definition race_ok :: "world \<Rightarrow> bool" where
  "race_ok w \<longleftrightarrow> s_state (sub_at w 0) = SubStateSubscribed \<and> c_subs (w_cl w) = []
     \<and> (1, None) \<in> set (w_returns w) \<and> (2, None) \<in> set (w_returns w)"

lemma removed_yet_subscribed:
  "\<exists>w. reachable w \<and> s_state (sub_at w 0) = SubStateSubscribed \<and> c_subs (w_cl w) = []
     \<and> (1, None) \<in> set (w_returns w) \<and> (2, None) \<in> set (w_returns w)"
proof (intro exI conjI)
  let ?w = "run_actions remove_race demo_connected"
  have run: "run_then remove_race race_ok demo_connected" by code_simp
  then show "reachable ?w" using reachable_demo(1) by (simp add: run_then_iff reachable_run)
  from run have "race_ok ?w" by (simp add: run_then_iff)
  then show "s_state (sub_at ?w 0) = SubStateSubscribed" "c_subs (w_cl ?w) = []"
    "(1, None) \<in> set (w_returns ?w)" "(2, None) \<in> set (w_returns ?w)"
    by (simp_all add: race_ok_def)
qed

section \<open>Endpoints that are no WebSocket URL\<close>

text \<open>
  The clients are said to panic unless the endpoint is a URL with the scheme \<open>ws\<close> or \<open>wss\<close>; only
  the first two characters are looked at.
\<close>

lemma endpoint_prefix_only: "client_endpoints shuffle ''wsock.example'' = Some (shuffle [''wsock.example''])"
  if "\<And>x. shuffle [x] = [x]"
  using that by (simp add: client_endpoints_def)

end
