(* ===== verification/Logging.thy ===== *)
theory Logging
  imports Settings "HOL-Library.Sublist"
begin

text \<open>
  Logging, \<^verbatim>\<open>log.go\<close> and the first part of \<^verbatim>\<open>client.go\<close>: the channel between the client and the
  log handler of the application, the goroutine \<open>handleLogs\<close> that empties it, and the trace lines
  of commands, replies and pushes. Logging reads and writes nothing else of the client, so it is a
  component of its own beside the transition system of theory \<open>System\<close>.
\<close>

section \<open>The log channel\<close>

record log_entry =
  le_level :: int
  le_message :: string
  le_fields :: "(string, string) gomap"

text \<open>
  \<open>lg_ch\<close> is the content of \<open>logCh\<close>, oldest first, \<open>lg_close_ch\<close> whether \<open>logCloseCh\<close> is closed,
  \<open>lg_once\<close> the state of \<open>logCloseOnce\<close>, \<open>lg_running\<close> whether the goroutine of \<open>handleLogs\<close> runs and
  \<open>lg_handled\<close> what the log handler got.
\<close>

record logger =
  lg_level :: int
  lg_ch :: "log_entry list"
  lg_close_ch :: bool
  lg_once :: bool
  lg_running :: bool
  lg_handled :: "log_entry list"

definition log_capacity :: nat where "log_capacity = 256"

definition new_logger :: "int \<Rightarrow> logger" where
  "new_logger level = \<lparr>lg_level = level, lg_ch = [], lg_close_ch = False, lg_once = False,
     lg_running = level > LogLevelNone, lg_handled = []\<rparr>"

text \<open>Sending never blocks: an entry that finds the channel full is dropped.\<close>

definition client_log :: "int \<Rightarrow> string \<Rightarrow> (string, string) gomap \<Rightarrow> logger \<Rightarrow> logger" where
  "client_log level message fs l =
    (if length (lg_ch l) < log_capacity
     then l\<lparr>lg_ch := lg_ch l @ [\<lparr>le_level = level, le_message = message, le_fields = fs\<rparr>]\<rparr>
     else l)"

text \<open>
  One round of \<open>handleLogs\<close>. When both channels are ready the select takes either:
  \<open>sees_close\<close> says which. With neither ready the goroutine blocks.
\<close>

definition handleLogs :: "bool \<Rightarrow> logger \<Rightarrow> logger" where
  "handleLogs sees_close l =
    (if \<not> lg_running l then l
     else if lg_close_ch l \<and> (sees_close \<or> lg_ch l = []) then l\<lparr>lg_running := False\<rparr>
     else (case lg_ch l of
        [] \<Rightarrow> l
      | entry # rest \<Rightarrow> l\<lparr>lg_ch := rest, lg_handled := lg_handled l @ [entry]\<rparr>))"

text \<open>The end of \<open>Close\<close>: a channel must not be closed twice, the \<open>Once\<close> keeps that.\<close>

definition close_logs :: "logger \<Rightarrow> logger" where
  "close_logs l = (if lg_once l then l else l\<lparr>lg_once := True, lg_close_ch := True\<rparr>)"

section \<open>Trace lines\<close>

text \<open>
  What is logged is \<open>json.Marshal\<close> of the message, or \<open>protojson.Marshal\<close> when that fails; both
  belong to other packages.
\<close>

definition trace_line :: "('a \<Rightarrow> string option) \<Rightarrow> ('a \<Rightarrow> string) \<Rightarrow> 'a \<Rightarrow> string" where
  "trace_line json protojson x = (case json x of Some s \<Rightarrow> s | None \<Rightarrow> protojson x)"

definition traceOutCmd :: "(command \<Rightarrow> string option) \<Rightarrow> (command \<Rightarrow> string) \<Rightarrow> command \<Rightarrow> logger \<Rightarrow> logger" where
  "traceOutCmd json protojson cmd =
     client_log LogLevelTrace ''-out->'' [(''command'', trace_line json protojson cmd)]"

definition traceInReply :: "(pb_reply \<Rightarrow> string option) \<Rightarrow> (pb_reply \<Rightarrow> string) \<Rightarrow> pb_reply \<Rightarrow> logger \<Rightarrow> logger" where
  "traceInReply json protojson rep =
     client_log LogLevelTrace ''<-in--'' [(''reply'', trace_line json protojson rep)]"

definition traceInPush :: "(pb_push \<Rightarrow> string option) \<Rightarrow> (pb_push \<Rightarrow> string) \<Rightarrow> pb_push \<Rightarrow> logger \<Rightarrow> logger" where
  "traceInPush json protojson push =
     client_log LogLevelTrace ''<-in--'' [(''push'', trace_line json protojson push)]"

section \<open>A run of the logger\<close>

text \<open>Every use of the log is guarded by \<open>logLevelEnabled\<close>; \<open>Emit\<close> is such a use.\<close>

datatype log_action = Emit int string "(string, string) gomap" | HandleLogs bool | CloseLogs

fun log_act :: "logger \<Rightarrow> log_action \<Rightarrow> logger" where
  "log_act l (Emit level message fs) =
     (if logLevelEnabled (lg_level l) level then client_log level message fs l else l)"
| "log_act l (HandleLogs sees_close) = handleLogs sees_close l"
| "log_act l CloseLogs = close_logs l"

definition log_run :: "int \<Rightarrow> log_action list \<Rightarrow> logger" where
  "log_run level xs = foldl log_act (new_logger level) xs"

text \<open>The entries the client wanted to log, in order.\<close>

fun emitted :: "int \<Rightarrow> log_action list \<Rightarrow> log_entry list" where
  "emitted lv [] = []"
| "emitted lv (Emit level message fs # xs) =
     (if logLevelEnabled lv level
      then [\<lparr>le_level = level, le_message = message, le_fields = fs\<rparr>] else []) @ emitted lv xs"
| "emitted lv (_ # xs) = emitted lv xs"

lemma emitted_append: "emitted lv (xs @ ys) = emitted lv xs @ emitted lv ys"
  by (induction lv xs rule: emitted.induct) auto

lemma log_run_snoc: "log_run lv (xs @ [x]) = log_act (log_run lv xs) x"
  by (simp add: log_run_def)

lemma log_run_Nil [simp]: "log_run lv [] = new_logger lv"
  by (simp add: log_run_def)

lemmas log_defs = client_log_def handleLogs_def close_logs_def new_logger_def

lemma log_level_kept: "lg_level (log_run lv xs) = lv"
proof (induction xs rule: rev_induct)
  case (snoc x xs)
  then show ?case by (cases x) (auto simp: log_run_snoc log_defs split: list.split)
qed (simp add: log_defs)

section \<open>What the log handler gets\<close>

definition logged :: "logger \<Rightarrow> log_entry list" where
  "logged l = lg_handled l @ lg_ch l"

lemma logged_simps [simp]:
  "logged (new_logger lv) = []" "logged (handleLogs p l) = logged l" "logged (close_logs l) = logged l"
  "logged (client_log lv m fs l) = (if length (lg_ch l) < log_capacity
     then logged l @ [\<lparr>le_level = lv, le_message = m, le_fields = fs\<rparr>] else logged l)"
  by (auto simp: logged_def log_defs split: list.split)

lemma lg_ch_bound: "length (lg_ch (log_run lv xs)) \<le> log_capacity"
proof (induction xs rule: rev_induct)
  case (snoc x xs)
  then show ?case by (cases x) (auto simp: log_run_snoc log_defs split: list.split)
qed (simp add: log_defs)

lemma lg_ch_le_length: "length (lg_ch (log_run lv xs)) \<le> length xs"
proof (induction xs rule: rev_induct)
  case (snoc x xs)
  then show ?case by (cases x) (auto simp: log_run_snoc log_defs split: list.split)
qed (simp add: log_defs)

lemma logged_subseq: "subseq (logged (log_run lv xs)) (emitted lv xs)"
proof (induction xs rule: rev_induct)
  case (snoc x xs)
  then show ?case
    by (cases x) (auto simp: log_run_snoc emitted_append log_level_kept
        intro: list_emb_prefix list_emb_append_mono)
qed simp

lemma logged_all:
  "(\<And>n. n \<le> length xs \<Longrightarrow> length (lg_ch (log_run lv (take n xs))) < log_capacity) \<Longrightarrow>
   logged (log_run lv xs) = emitted lv xs"
proof (induction xs rule: rev_induct)
  case (snoc x xs)
  have "length (lg_ch (log_run lv (take n xs))) < log_capacity" if "n \<le> length xs" for n
    using snoc.prems[of n] that by simp
  then show ?case
    using snoc.IH snoc.prems[of "length xs"]
    by (cases x) (auto simp: log_run_snoc emitted_append log_level_kept)
qed simp

lemma logged_off: "logged (log_run LogLevelNone xs) = []"
proof (induction xs rule: rev_induct)
  case (snoc x xs)
  then show ?case
    by (cases x) (auto simp: log_run_snoc log_level_kept logLevelEnabled_cases)
qed simp



end
