(* ===== verification/Dialing.thy ===== *)
theory Dialing
  imports Settings Transport
begin

text \<open>
  Opening a connection: the options of the transport, what \<open>newWebsocketTransport\<close> of
  \<^verbatim>\<open>transport_websocket.go\<close> sets on the dialer of \<^verbatim>\<open>github.com/gorilla/websocket\<close> and what it makes of
  the answer, and the options \<open>startReconnectingIf\<close> of \<^verbatim>\<open>client.go\<close> dials with. \<open>Dial\<close> itself, the
  proxy of the environment, and the types of proxies, dial functions, TLS options and cookie jars
  are parameters.
\<close>

section \<open>Options of the transport\<close>

record ('proxy, 'net, 'tls, 'jar) transport_options =
  wc_proxy :: "'proxy option"
  wc_net_dial :: "'net option"
  wc_tls :: "'tls option"
  wc_compression :: bool
  wc_jar :: "'jar option"

text \<open>The rest of \<open>websocketConfig\<close>; the first part are the options only the dialer looks at.\<close>

record ('proxy, 'net, 'tls, 'jar) websocketConfig = "('proxy, 'net, 'tls, 'jar) transport_options" +
  wc_handshake_timeout :: duration
  wc_header :: "(string, string list) gomap option"

text \<open>
  The options of a client that has the options \<open>opts\<close> for the dialer and \<open>cfg\<close> for the rest.
\<close>

definition wsConfig :: "('p, 'n, 't, 'j) transport_options \<Rightarrow> config \<Rightarrow> ('p, 'n, 't, 'j) websocketConfig" where
  "wsConfig opts cfg = \<lparr>wc_proxy = wc_proxy opts, wc_net_dial = wc_net_dial opts, wc_tls = wc_tls opts,
     wc_compression = wc_compression opts, wc_jar = wc_jar opts,
     wc_handshake_timeout = cfg_handshake_timeout cfg, wc_header = cfg_header cfg\<rparr>"

section \<open>Dialling\<close>

record ('proxy, 'net, 'tls, 'jar) dialer =
  di_proxy :: 'proxy
  di_net_dial :: "'net option"
  di_handshake_timeout :: duration
  di_compression :: bool
  di_tls :: "'tls option"
  di_jar :: "'jar option"
  di_subprotocols :: "string list"

text \<open>\<open>env_proxy\<close> is \<open>http.ProxyFromEnvironment\<close>.\<close>

definition ws_dialer :: "'p \<Rightarrow> ptype \<Rightarrow> ('p, 'n, 't, 'j) websocketConfig \<Rightarrow> ('p, 'n, 't, 'j) dialer" where
  "ws_dialer env_proxy ty cfg =
    \<lparr>di_proxy = (case wc_proxy cfg of Some p \<Rightarrow> p | None \<Rightarrow> env_proxy),
     di_net_dial = wc_net_dial cfg, di_handshake_timeout = wc_handshake_timeout cfg,
     di_compression = wc_compression cfg, di_tls = wc_tls cfg, di_jar = wc_jar cfg,
     di_subprotocols = (if ty = TypeProtobuf then [''centrifuge-protobuf''] else [])\<rparr>"

definition StatusSwitchingProtocols :: nat where "StatusSwitchingProtocols = 101"

text \<open>\<open>Dial\<close> gives an error or the status code of the response.\<close>

definition newWebsocketTransport ::
  "(('p, 'n, 't, 'j) dialer \<Rightarrow> string \<Rightarrow> (string, string list) gomap option \<Rightarrow> string + nat) \<Rightarrow> 'p
   \<Rightarrow> string \<Rightarrow> ptype \<Rightarrow> ('p, 'n, 't, 'j) websocketConfig \<Rightarrow> err + ws_transport" where
  "newWebsocketTransport dial_ws env_proxy url ty cfg =
    (case dial_ws (ws_dialer env_proxy ty cfg) url (wc_header cfg) of
       Inl e \<Rightarrow> Inl (Other (''error dial: '' @ e))
     | Inr status \<Rightarrow>
         if status \<noteq> StatusSwitchingProtocols
         then Inl (Other (''wrong status code while connecting to server: '' @ show_nat status))
         else Inr (new_ws ty))"

text \<open>
  A transport is open, speaks the protocol it was asked for, and exists only after the handshake; a
  client never dials without a limit on the time the handshake takes, nor without headers.
\<close>

lemma newWebsocketTransport_ok:
  "newWebsocketTransport dial_ws p url ty cfg = Inr t \<longleftrightarrow>
   dial_ws (ws_dialer p ty cfg) url (wc_header cfg) = Inr 101 \<and> t = new_ws ty"
  by (auto simp: newWebsocketTransport_def StatusSwitchingProtocols_def split: sum.splits if_splits)

lemma newWebsocketTransport_open:
  "newWebsocketTransport dial_ws p url ty cfg = Inr t \<Longrightarrow>
   \<not> ws_closed t \<and> ws_protocol t = ty \<and> ws_replies t = [] \<and> ws_disconnect t = None"
  by (simp add: newWebsocketTransport_ok new_ws_def)

lemma dial_bounded:
  "di_handshake_timeout (ws_dialer p ty (wsConfig opts (default_config cfg))) \<noteq> 0"
  "wc_header (wsConfig opts (default_config cfg)) \<noteq> None"
  by (simp_all add: ws_dialer_def wsConfig_def default_config_spec)

lemma dial_protocol:
  "di_subprotocols (ws_dialer p TypeJSON cfg) = []"
  "di_subprotocols (ws_dialer p TypeProtobuf cfg) = [''centrifuge-protobuf'']"
  by (simp_all add: ws_dialer_def)

section \<open>Codecs\<close>

text \<open>
  Which decoder and encoder of the protocol package a transport uses; the constructors of the package
  are parameters.
\<close>

definition newReplyDecoder :: "('data \<Rightarrow> 'd) \<Rightarrow> ('data \<Rightarrow> 'd) \<Rightarrow> ptype \<Rightarrow> 'data \<Rightarrow> 'd" where
  "newReplyDecoder json_decoder protobuf_decoder enc data =
    (if enc = TypeJSON then json_decoder data else protobuf_decoder data)"

definition newCommandEncoder :: "'e \<Rightarrow> 'e \<Rightarrow> ptype \<Rightarrow> 'e" where
  "newCommandEncoder json_encoder protobuf_encoder enc =
    (if enc = TypeJSON then json_encoder else protobuf_encoder)"

text \<open>The codec a transport uses is the one the handshake asks the server for.\<close>

lemma codec_negotiated:
  "newWebsocketTransport dial_ws p url ty cfg = Inr t \<Longrightarrow>
   newReplyDecoder jd pd (ws_protocol t) =
     (if ''centrifuge-protobuf'' \<in> set (di_subprotocols (ws_dialer p ty cfg)) then pd else jd)
   \<and> newCommandEncoder je pe (ws_protocol t) =
     (if ''centrifuge-protobuf'' \<in> set (di_subprotocols (ws_dialer p ty cfg)) then pe else je)"
  by (cases ty)
    (auto simp: newWebsocketTransport_ok new_ws_def newReplyDecoder_def newCommandEncoder_def ws_dialer_def fun_eq_iff)

end
