(* ===== verification/Spec2Isabelle.thy ===== *)
theory Spec2Isabelle
  imports Tokens Connection Teardown Routing Closed Lifecycle Progress Settling Underway Unblocked Calls
    Divergences Logging Dialing
begin

text \<open>
  \<^bold>\<open>A verification development for centrifuge-go\<close>

  The program is a client for real-time messaging over WebSocket. An application makes a client
  (\<^verbatim>\<open>client.go\<close>), connects it, and adds subscriptions to channels (\<^verbatim>\<open>subscription.go\<close>). The client keeps
  the connection: it dials (\<^verbatim>\<open>transport_websocket.go\<close>), sends a connect command, reconnects with a growing
  delay (\<^verbatim>\<open>reconnect.go\<close>) when the connection is lost, and refreshes tokens; a subscription subscribes
  again after each reconnect, from the stream position it has reached. Commands and replies are
  matched by command ids; pushes of the server are routed to subscriptions by channel or numeric id.
  Event handlers of the application run one after the other on the goroutine of a queue (\<^verbatim>\<open>queue.go\<close>).
  Everything runs in many goroutines that share the client under its lock \<open>c.mu\<close>, each subscription
  under its lock \<open>s.mu\<close>, and some leaf locks.

  \<^bold>\<open>How goroutines are modelled\<close>

  The state of a client and all its goroutines is the record \<open>world\<close> (theory \<open>Effects\<close>): the client, a heap
  of subscriptions, timers, goroutines, the callback queue, and logs of what reached the outside
  (commands written, events delivered, answers given to calls). Operations are state monads over it,
  named after the functions of the code. A goroutine is a list of \<open>task\<close>s. A task is one segment of
  code between two points at which other goroutines may interfere: it holds the lock the code holds,
  and returns the tasks the goroutine goes on with, so a function that gives up its lock half-way is
  several operations (\<open>continueResubscribe\<close>, \<open>gotSubToken\<close>, \<open>sendSubscribeNow\<close>). What a closure captures are
  the arguments of its task, callback, timer or queued job, which are datatypes.

  The transition relation \<open>client_step\<close> (theory \<open>System\<close>) lets any goroutine run its next task, any timer
  fire, the dispatcher of the queue go on, or the application call anything, in any order. All that
  comes from outside is an unrestricted argument of a step: replies and pushes, read errors, what
  \<open>GetToken\<close> and \<open>GetState\<close> return, which ready branch a select takes, and when timers fire. A property of
  the reachable states therefore holds for every server, network, application and schedule.

  Choices made where the granularity of locks and of tasks differ: \<open>sendAsyncOn\<close> (register the request,
  write, take it back when the write fails) is one step, because a teardown in between has the outcome
  of a successful write followed by that teardown; \<open>moveToSubscribed\<close> holds \<open>s.mu\<close> and reads the
  connection generation, and is one step ordered with the teardown, which bumps the generation before it
  visits the subscriptions; the loops of a teardown over all subscriptions run in the lock hold of the
  client, as in the code. The order of the list of goroutines and of the entries of a map
  means nothing. \<open>w_lost\<close> is the one field without a counterpart: it remembers requests whose id
  was given out again while they waited, which needs \<open>2^32 - 1\<close> commands.

  \<^bold>\<open>Theories and what they model\<close>

  \<^item> \<open>Prelude\<close>: word and map types, Go maps as association lists with the interfaces \<open>dict\<close> and
    \<open>popping_dict\<close>, state monad helpers, the relations \<open>keeps\<close> (an operation leaves a projection alone) and
    \<open>pres\<close> (it keeps an invariant) with their rule collections, the locales \<open>safe_system\<close> and
    reachability.
  \<^item> \<open>Codes\<close> (\<^verbatim>\<open>codes.go\<close>), \<open>Errors\<close> (\<^verbatim>\<open>errors.go\<close>: chains, \<open>errors.Is\<close>, \<open>errors.As\<close>, texts), \<open>Protocol\<close>
    (\<^verbatim>\<open>protocol.go\<close> and the messages the client reads: conversions, \<open>malformedReply\<close>), \<open>TagsFilter\<close>
    (\<^verbatim>\<open>filter.go\<close>), \<open>Delta\<close> (\<open>applyDelta\<close> of \<^verbatim>\<open>subscription.go\<close>), \<open>Settings\<close> (\<^verbatim>\<open>config.go\<close>, \<^verbatim>\<open>reconnect.go\<close>, defaults,
    endpoints, refresh delays), \<open>Logging\<close> (\<^verbatim>\<open>log.go\<close>, the log channel and its goroutine).
  \<^item> \<open>CbQueue\<close> (\<^verbatim>\<open>queue.go\<close>): the linked list of callbacks, its dispatcher, and the goroutine id the
    queue reads from a stack trace.
  \<^item> \<open>Transport\<close> and \<open>Dialing\<close> (\<^verbatim>\<open>transport.go\<close>, \<^verbatim>\<open>transport_websocket.go\<close>).
  \<^item> \<open>World\<close> and \<open>Effects\<close>: the state, tasks, callbacks, timers and events (\<^verbatim>\<open>client_events.go\<close>,
    \<^verbatim>\<open>subscription_events.go\<close>), and the primitive effects, with \<open>queueEvent\<close>, \<open>waitEvent\<close> and the \<open>runHandler\<close>
    functions of \<^verbatim>\<open>client.go\<close>.
  \<^item> \<open>Requests\<close> (\<^verbatim>\<open>client.go\<close>: command ids, the request registry, \<open>sendAsync\<close>, connect futures, the calls of the
    application with the functions they register), \<open>Subscriptions\<close> and \<open>SubscribeFlow\<close> (\<^verbatim>\<open>subscription.go\<close>), \<open>ClientState\<close> (state transitions
    and teardown), \<open>Connect\<close> (the connect pipeline and token refresh), \<open>Pushes\<close> (reader, routing, pings,
    callbacks of requests), \<open>Calls\<close> (the public methods as the application sees them, the select they
    wait in, getters).
  \<^item> \<open>System\<close>: \<open>run_task\<close>, timers, the dispatcher, the application, \<open>client_step\<close>, \<open>newClient\<close>.

  \<^bold>\<open>Theories that prove\<close>

  \<^item> \<open>Frames\<close>, \<open>ConnMachine\<close> and \<open>Connection\<close>: which operations leave the connection state alone, an abstract
    connection machine, and the refinement \<open>connection_refines\<close> with its consequence that a generation
    names one uninterrupted session.
  \<^item> \<open>NoPanic\<close>: no reply or push of a server makes the client dereference a nil pointer.
  \<^item> \<open>Tokens\<close>: every call of the application and every subscribe is a token that is in exactly one
    place; calls are answered once, a subscription has at most one subscribe in flight.
  \<^item> \<open>Known\<close>: every subscription, future and timer a goroutine names exists.
  \<^item> \<open>Waiting\<close>, \<open>Steady\<close> and \<open>SubSteady\<close>: what goroutines wait for and may start, and the interfaces an invariant has to meet so that every step keeps it. They
    list the primitive effects and the few real transitions; all the other operations are done
    once inside the locales. \<open>Idle\<close>, \<open>Teardown\<close>, \<open>Sessions\<close>, \<open>Routing\<close>, \<open>Closed\<close>, \<open>Timers\<close>, \<open>Stale\<close>
    and \<open>Calls\<close> interpret them: a disconnected client holds nothing, subscribed only while connected,
    routing by numeric id, closing is final, timers name their own kind, counters never go back,
    answers stay.
  \<^item> \<open>Positions\<close> and \<open>Lifecycle\<close>: the order of publications, the position a subscription recovers from,
    what decoding errors, disconnect and unsubscribe pushes and the registry do.
  \<^item> \<open>Following\<close>: the interface of invariants that look at the goroutines, with the tasks in hand of
    the one that runs. It is interpreted by \<open>Progress\<close> (a connecting client always has something that
    goes on with it), \<open>Watched\<close> (every pending request has a goroutine that waits for its reply) and \<open>Underway\<close>
    (so has every subscription that is subscribing, for each of them). \<open>Settling\<close>: what the
    goroutines have begun comes to an end; a failure is retried only through a timer. Its measure is
    the multiset of the ranks of the tasks and of the callbacks of pending requests.
  \<^item> \<open>Unblocked\<close>: no wait of a goroutine is for ever, and none is on the goroutine that runs the event
    handlers. Its invariant is an instance of \<open>calm_core\<close> and \<open>calm_turns\<close>, the interfaces for invariants
    that look at the new goroutines and at the callback queue; the dispatcher's steps are counted down
    by the rounds of the queued closures.
  \<^item> \<open>Demo\<close>: a concrete run the witnesses evaluate; \<open>Divergences\<close>: runs in which the code and its
    comments disagree.

  \<^bold>\<open>Bounds\<close>

  Command ids and time to live values are 32-bit words, offsets 64-bit words; \<open>next_id\<close> ends after two rounds,
  proved with its termination. Durations are integers with the 63-bit bound proved where a
  product is formed. Counters the code keeps in 64 bits (attempts, generations, sessions) are unbounded
  numbers. The only fuel is that of the walk along the linked list of the callback queue, which gets the
  number of allocated nodes; the queue invariant shows that this is enough.

  \<^bold>\<open>Parameters\<close>

  The WebSocket package with its dialer, the protocol encoders and decoders, the fossil delta library, the
  JSON decoder, the back-off library and the random shuffle are arguments of the definitions that use
  them. Where a property needs a law of one of them (the delta of a delta round trip, a back-off
  between its bounds, a shuffle that permutes) it is a named hypothesis and the witness has an
  instance.

  \<^bold>\<open>Not modelled\<close>

  Debug lines other than their channel (they change no state), the example programs under \<^verbatim>\<open>examples\<close> and the tests,
  which only use the client; the bytes of the protocol, which the protocol package
  encodes; real time, so that a timer may fire at any moment after it is armed; the wait of an application
  for the answer of a call it makes inside an event handler, which the \<^verbatim>\<open>README\<close> forbids because the reader
  may be waiting for that very handler.
\<close>

end
